(* ===== verification/SM_Prelude.thy ===== *)
theory SM_Prelude
  imports Complex_Main "HOL-Library.AList" "HOL-Library.Sublist"
begin

text \<open>
  Shared vocabulary of the development.

  \<^item> Python exceptions as values (\<open>exn\<close>) and computations that return or raise (\<open>'a res\<close>).
  \<^item> Python dictionaries: association lists in insertion order with distinct keys
    (\<open>'v pydict\<close>), their \<open>get\<close>, \<open>in\<close> and item assignment, and the interface they satisfy
    (locale \<open>dictionary\<close>) with its interpretation on the association lists.
  \<^item> the collections \<open>dict_simps\<close>, \<open>str_simps\<close> and \<open>handler_simps\<close> that the component theories
    fill and their proofs use.

  Strings are Isabelle strings; a character stands for the Unicode code point of the same number,
  so the model covers the code points below 256 (Latin-1). That is exact for header bytes, which
  the code decodes as Latin-1, and a restriction for the other strings.
\<close>

named_theorems dict_simps \<open>lookup and update of Python dictionaries\<close>
named_theorems str_simps \<open>Python string operations\<close>
named_theorems handler_simps \<open>unfolding of the handler's building blocks\<close>


subsection \<open>Exceptions and results\<close>

text \<open>
  \<open>Cancelled\<close> is \<open>asyncio.CancelledError\<close> (a \<open>BaseException\<close>, not an \<open>Exception\<close>);
  \<open>TimeoutErr\<close> is the built-in \<open>TimeoutError\<close>; \<open>Exc\<close> is any other subclass of \<open>Exception\<close>, with
  the name of its class and its \<open>str()\<close>; \<open>BaseExc\<close> is any other \<open>BaseException\<close>
  (\<open>KeyboardInterrupt\<close>, \<open>SystemExit\<close>, \<open>BaseExceptionGroup\<close>).
\<close>

datatype exn = Cancelled | TimeoutErr string | Exc string string | BaseExc string

type_synonym 'a res = "exn + 'a"

text \<open>Which exceptions \<open>except Exception\<close> catches.\<close>

fun is_exception :: "exn \<Rightarrow> bool" where
  "is_exception Cancelled = False"
| "is_exception (TimeoutErr _) = True"
| "is_exception (Exc _ _) = True"
| "is_exception (BaseExc _) = False"

text \<open>\<open>str(exc)\<close>.\<close>

fun exn_str :: "exn \<Rightarrow> string" where
  "exn_str Cancelled = ''''"
| "exn_str (TimeoutErr m) = m"
| "exn_str (Exc _ m) = m"
| "exn_str (BaseExc m) = m"

definition ValueError :: "string \<Rightarrow> exn" where
  "ValueError m = Exc ''ValueError'' m"

definition RuntimeError :: "string \<Rightarrow> exn" where
  "RuntimeError m = Exc ''RuntimeError'' m"

lemma is_exception_raised [simp]:
  "is_exception (ValueError m)" "is_exception (RuntimeError m)"
  by (simp_all add: ValueError_def RuntimeError_def)


subsection \<open>Dictionaries\<close>

type_synonym 'v pydict = "(string \<times> 'v) list"

definition dict_get :: "'v pydict \<Rightarrow> string \<Rightarrow> 'v option" where
  "dict_get d k = map_of d k"

definition dict_in :: "string \<Rightarrow> 'v pydict \<Rightarrow> bool" where
  "dict_in k d = (map_of d k \<noteq> None)"

definition dict_set :: "'v pydict \<Rightarrow> string \<Rightarrow> 'v \<Rightarrow> 'v pydict" where
  "dict_set d k v = AList.update k v d"

definition dict_keys :: "'v pydict \<Rightarrow> string list" where
  "dict_keys d = map fst d"

definition dict_ok :: "'v pydict \<Rightarrow> bool" where
  "dict_ok d = distinct (map fst d)"

text \<open>\<open>d.get(k, default)\<close>.\<close>

definition dict_get_or :: "'v pydict \<Rightarrow> string \<Rightarrow> 'v \<Rightarrow> 'v" where
  "dict_get_or d k v = (case dict_get d k of None \<Rightarrow> v | Some w \<Rightarrow> w)"

lemma dict_get_Nil [simp, dict_simps]: "dict_get [] k = None"
  by (simp add: dict_get_def)

lemma dict_get_Cons [simp, dict_simps]:
  "dict_get ((k, v) # d) k' = (if k' = k then Some v else dict_get d k')"
  by (simp add: dict_get_def)

lemma dict_get_set [simp, dict_simps]:
  "dict_get (dict_set d k v) k' = (if k' = k then Some v else dict_get d k')"
  by (simp add: dict_get_def dict_set_def update_conv')

lemma dict_get_or_set [simp, dict_simps]:
  "dict_get_or (dict_set d k v) k' w = (if k' = k then v else dict_get_or d k' w)"
  by (simp add: dict_get_or_def)

lemma dict_in_get: "dict_in k d \<longleftrightarrow> dict_get d k \<noteq> None"
  by (simp add: dict_in_def dict_get_def)

lemma dict_in_keys: "dict_in k d \<longleftrightarrow> k \<in> set (dict_keys d)"
  by (simp add: dict_in_def dict_keys_def map_of_eq_None_iff)

lemma dict_ok_Nil [simp]: "dict_ok []"
  by (simp add: dict_ok_def)

lemma dict_ok_set [simp, intro]: "dict_ok d \<Longrightarrow> dict_ok (dict_set d k v)"
  by (simp add: dict_ok_def dict_set_def distinct_update)

lemma dict_get_mem: "dict_get d k = Some v \<Longrightarrow> (k, v) \<in> set d"
  by (simp add: dict_get_def map_of_SomeD)

lemma dict_mem_get: "dict_ok d \<Longrightarrow> (k, v) \<in> set d \<Longrightarrow> dict_get d k = Some v"
  by (simp add: dict_ok_def dict_get_def)

lemma dict_keys_set:
  "set (dict_keys (dict_set d k v)) = insert k (set (dict_keys d))"
  by (simp add: dict_keys_def dict_set_def dom_update)

text \<open>The interface the components use: what \<open>get\<close> returns after an item assignment.\<close>

locale dictionary =
  fixes empty :: "'d"
    and lookup :: "'d \<Rightarrow> 'k \<Rightarrow> 'v option"
    and store :: "'d \<Rightarrow> 'k \<Rightarrow> 'v \<Rightarrow> 'd"
  assumes lookup_empty: "lookup empty k = None"
    and lookup_store: "lookup (store d k v) k' = (if k' = k then Some v else lookup d k')"
begin

lemma lookup_store_same: "lookup (store d k v) k = Some v"
  by (simp add: lookup_store)

lemma lookup_store_other: "k' \<noteq> k \<Longrightarrow> lookup (store d k v) k' = lookup d k'"
  by (simp add: lookup_store)

text \<open>A fold of assignments keeps every key that is not assigned.\<close>

lemma lookup_foldl_other:
  "k \<notin> fst ` set kvs \<Longrightarrow> lookup (foldl (\<lambda>d (k, v). store d k v) d kvs) k = lookup d k"
  by (induction kvs arbitrary: d) (auto simp: lookup_store)

lemma lookup_foldl_distinct:
  "distinct (map fst kvs) \<Longrightarrow> (k, v) \<in> set kvs \<Longrightarrow>
    lookup (foldl (\<lambda>d (k, v). store d k v) d kvs) k = Some v"
  by (induction kvs arbitrary: d) (auto simp: lookup_store lookup_foldl_other)

end

interpretation pyd: dictionary "[]" dict_get dict_set
  by unfold_locales simp_all


subsection \<open>Generic list lemmas\<close>

lemma find_None_all: "find P xs = None \<longleftrightarrow> (\<forall>x\<in>set xs. \<not> P x)"
  by (induction xs) auto

lemma list_ex_find: "list_ex P xs \<longleftrightarrow> find P xs \<noteq> None"
  by (induction xs) auto

lemma map_of_map_snd: "map_of (map (\<lambda>(k, v). (k, f k v)) d) k = map_option (f k) (map_of d k)"
  by (induction d) auto

lemma concat_map_filter_length:
  "length (concat (map (\<lambda>x. if P x then [f x] else []) xs)) = length (filter P xs)"
  by (induction xs) auto

end
