(* ===== verification/PyFloat.thy ===== *)
theory PyFloat
  imports SM_Prelude "HOL-Library.Log_Nat"
begin

text \<open>
  Python floats: IEEE 754 binary64 with rounding to nearest, ties to even. A finite float is the
  rational it denotes (the two zeros are identified: the program never tells them apart); every
  arithmetic operation rounds the exact result with \<open>rnd64\<close>, overflow gives an infinity, and the
  comparisons with NaN are false. The locale \<open>rounding\<close> states what the proofs about limits and
  statistics need of a rounding, and is interpreted on \<open>rnd64\<close>.
\<close>

subsection \<open>Rounding a rational to binary64\<close>

text \<open>The exponent of the leading bit: \<open>\<lfloor>log 2 q\<rfloor>\<close> for positive \<open>q\<close>.\<close>

definition ilog2 :: "rat \<Rightarrow> int" where
  "ilog2 q = (let (n, d) = quotient_of q; k = bitlen n - bitlen d
              in if 2 powi k \<le> q then k else k - 1)"

text \<open>Nearest integer, ties to even.\<close>

definition round_half_even :: "rat \<Rightarrow> int" where
  "round_half_even q =
     (let f = \<lfloor>q\<rfloor>; r = q - of_int f
      in if r < 1/2 then f else if 1/2 < r then f + 1 else if even f then f else f + 1)"

definition f64_exponent :: "rat \<Rightarrow> int" where
  "f64_exponent q = max (ilog2 \<bar>q\<bar> - 52) (- 1074)"

definition rnd64 :: "rat \<Rightarrow> rat" where
  "rnd64 q =
     (if q = 0 then 0
      else of_int (round_half_even (q / 2 powi f64_exponent q)) * 2 powi f64_exponent q)"


subsection \<open>Facts about the leading exponent\<close>

lemma powi_le_iff: "(2::rat) powi a \<le> 2 powi b \<longleftrightarrow> a \<le> b"
  by (metis linorder_not_le one_less_numeral_iff order_less_le power_int_increasing
      power_int_strict_increasing semiring_norm(76))

lemma powi_less_iff: "(2::rat) powi a < 2 powi b \<longleftrightarrow> a < b"
  by (simp add: powi_le_iff flip: not_le)

lemma powi_pos [simp]: "0 < (2::rat) powi a"
  by simp

lemma powi_nonzero: "(2::rat) powi a \<noteq> 0"
  by simp

lemma powi_nat: "0 \<le> a \<Longrightarrow> (2::rat) powi a = of_int (2 ^ nat a)"
  by (simp add: power_int_def)

lemma powi_add: "(2::rat) powi (a + b) = 2 powi a * 2 powi b"
  by (simp add: power_int_add)

lemma powi_diff: "(2::rat) powi (a - b) = 2 powi a / 2 powi b"
  by (simp add: power_int_diff)

lemma ilog2_bounds:
  assumes "0 < q"
  shows "2 powi ilog2 q \<le> q" "q < 2 powi (ilog2 q + 1)"
proof -
  obtain n d where nd: "quotient_of q = (n, d)" by force
  then have d: "0 < d" and q: "q = of_int n / of_int d"
    by (simp_all add: quotient_of_denom_pos quotient_of_div)
  with assms have n: "0 < n" by (simp add: zero_less_divide_iff)
  let ?k = "bitlen n - bitlen d"
  have n1: "2 powi (bitlen n - 1) \<le> rat_of_int n" and n2: "rat_of_int n < 2 powi bitlen n"
    and d1: "2 powi (bitlen d - 1) \<le> rat_of_int d" and d2: "rat_of_int d < 2 powi bitlen d"
    using bitlen_bounds [OF n] bitlen_bounds [OF d] n d
      bitlen_nonneg [of n] bitlen_nonneg [of d] bitlen_eq_zero_iff [of n] bitlen_eq_zero_iff [of d]
    by (simp_all add: powi_nat)
  have lo: "2 powi (?k - 1) < q"
  proof -
    have "2 powi (?k - 1) * rat_of_int d < 2 powi (?k - 1) * 2 powi bitlen d"
      using d2 by simp
    also have "\<dots> = 2 powi (bitlen n - 1)" by (simp flip: powi_add)
    also have "\<dots> \<le> of_int n" by (rule n1)
    finally show ?thesis using d by (simp add: q field_simps)
  qed
  have hi: "q < 2 powi (?k + 1)"
  proof -
    have "rat_of_int n < 2 powi bitlen n" by (rule n2)
    also have "\<dots> = 2 powi (?k + 1) * 2 powi (bitlen d - 1)" by (simp flip: powi_add)
    also have "\<dots> \<le> 2 powi (?k + 1) * of_int d" using d1 by simp
    finally show ?thesis using d by (simp add: q field_simps)
  qed
  show "2 powi ilog2 q \<le> q" "q < 2 powi (ilog2 q + 1)"
    using lo hi by (auto simp: ilog2_def nd Let_def not_le)
qed

lemma ilog2_less_iff: "0 < q \<Longrightarrow> ilog2 q < k \<longleftrightarrow> q < 2 powi k"
  using ilog2_bounds [of q]
  by (smt (verit, ccfv_threshold) powi_le_iff powi_less_iff order_less_le_trans order_le_less_trans)

lemma ilog2_ge_iff: "0 < q \<Longrightarrow> k \<le> ilog2 q \<longleftrightarrow> 2 powi k \<le> q"
  using ilog2_less_iff [of q k] by (auto simp: not_less)

lemma ilog2_mono: "0 < x \<Longrightarrow> x \<le> y \<Longrightarrow> ilog2 x \<le> ilog2 y"
  using ilog2_bounds [of x] by (simp add: ilog2_ge_iff)


subsection \<open>Nearest integer\<close>

lemma round_half_even_of_int [simp]: "round_half_even (of_int m) = m"
  by (simp add: round_half_even_def)

lemma round_half_even_bounds:
  "of_int (round_half_even q) - 1/2 \<le> q" "q \<le> of_int (round_half_even q) + 1/2"
  by (auto simp: round_half_even_def Let_def; linarith)+

lemma round_half_even_mono: "x \<le> y \<Longrightarrow> round_half_even x \<le> round_half_even y"
proof -
  assume le: "x \<le> y"
  then have fl: "\<lfloor>x\<rfloor> \<le> \<lfloor>y\<rfloor>" by (rule floor_mono)
  show ?thesis
  proof (cases "\<lfloor>x\<rfloor> = \<lfloor>y\<rfloor>")
    case True
    with le show ?thesis by (auto simp: round_half_even_def Let_def)
  next
    case False
    with fl have "\<lfloor>x\<rfloor> + 1 \<le> \<lfloor>y\<rfloor>" by simp
    moreover have "round_half_even x \<le> \<lfloor>x\<rfloor> + 1" "\<lfloor>y\<rfloor> \<le> round_half_even y"
      by (simp_all add: round_half_even_def Let_def)
    ultimately show ?thesis by linarith
  qed
qed

lemma round_half_even_minus: "round_half_even (- q) = - round_half_even q"
proof (cases "q = of_int \<lfloor>q\<rfloor>")
  case True
  then show ?thesis
    by (metis of_int_minus round_half_even_of_int)
next
  case False
  then have "\<lfloor>- q\<rfloor> = - \<lfloor>q\<rfloor> - 1"
    by (simp add: floor_eq_iff; linarith)
  then show ?thesis
    by (auto simp: round_half_even_def Let_def)
qed


subsection \<open>Rounding: exactness, monotonicity, error\<close>

lemma rnd64_0 [simp]: "rnd64 0 = 0"
  by (simp add: rnd64_def)

lemma rnd64_minus: "rnd64 (- q) = - rnd64 q"
  by (simp add: rnd64_def f64_exponent_def round_half_even_minus)

text \<open>Integer multiples of a power of two within the precision are representable.\<close>

lemma rnd64_grid:
  assumes m: "\<bar>m\<bar> \<le> 2 ^ 53" and e: "- 1074 \<le> e"
  shows "rnd64 (of_int m * 2 powi e) = of_int m * 2 powi e"
proof (cases "m = 0")
  case False
  let ?q = "rat_of_int m * 2 powi e" and ?k = "f64_exponent (rat_of_int m * 2 powi e)"
  have q0: "?q \<noteq> 0" and apos: "0 < \<bar>?q\<bar>" using False by simp_all
  have absq: "\<bar>?q\<bar> = of_int \<bar>m\<bar> * 2 powi e" by (simp add: abs_mult)
  have "\<exists>j. ?q / 2 powi ?k = of_int j"
  proof (cases "\<bar>m\<bar> = 2 ^ 53")
    case True
    have absq': "\<bar>?q\<bar> = 2 powi (53 + e)" using True by (simp add: absq powi_add)
    have "ilog2 \<bar>?q\<bar> = 53 + e"
      using ilog2_bounds [OF apos] by (simp add: absq' powi_le_iff powi_less_iff)
    then have k: "?k = e + 1" using e by (simp add: f64_exponent_def)
    have m2: "m = 2 * (sgn m * 2 ^ 52)"
    proof -
      have "m = 2 ^ 53 \<or> m = - (2 ^ 53)" using True by linarith
      then show ?thesis by auto
    qed
    have "rat_of_int m = rat_of_int (sgn m * 2 ^ 52) * 2"
      by (subst m2) (simp only: of_int_mult of_int_numeral ac_simps)
    then have "?q = of_int (sgn m * 2 ^ 52) * 2 powi (e + 1)"
      by (simp only: powi_add power_int_1_right ac_simps)
    then have "?q / 2 powi (e + 1) = of_int (sgn m * 2 ^ 52)"
      by (simp only: nonzero_mult_div_cancel_right powi_nonzero not_False_eq_True)
    then show ?thesis unfolding k by blast
  next
    case False
    with m have "\<bar>m\<bar> < 2 ^ 53" by simp
    then have "rat_of_int \<bar>m\<bar> < 2 ^ 53"
      by (metis of_int_less_iff of_int_numeral of_int_power)
    then have "\<bar>?q\<bar> < 2 powi (53 + e)" by (simp add: absq powi_add)
    then have "ilog2 \<bar>?q\<bar> < 53 + e" using ilog2_less_iff [OF apos] by simp
    then have "?k \<le> e" using e by (simp add: f64_exponent_def)
    then have "rat_of_int (2 ^ nat (e - ?k)) = 2 powi e / 2 powi ?k"
      by (metis powi_diff powi_nat diff_ge_0_iff_ge)
    then have "?q / 2 powi ?k = of_int (m * 2 ^ nat (e - ?k))"
      by (simp only: of_int_mult times_divide_eq_right)
    then show ?thesis by blast
  qed
  then obtain j where j: "?q / 2 powi ?k = of_int j" ..
  then have "of_int j * 2 powi ?k = ?q" by (simp add: field_simps)
  then show ?thesis using q0 by (simp only: rnd64_def j round_half_even_of_int if_False)
qed simp

lemma rnd64_of_int: "\<bar>m\<bar> \<le> 2 ^ 53 \<Longrightarrow> rnd64 (of_int m) = of_int m"
  using rnd64_grid [of m 0] by simp

lemma f64_exponent_ge: "- 1074 \<le> f64_exponent q"
  by (simp add: f64_exponent_def)

lemma f64_scaled_bound:
  assumes "q \<noteq> 0"
  shows "\<bar>q / 2 powi f64_exponent q\<bar> < 2 ^ 53"
proof -
  have "\<bar>q\<bar> < 2 powi (ilog2 \<bar>q\<bar> + 1)" using assms ilog2_bounds(2) [of "\<bar>q\<bar>"] by simp
  also have "\<dots> \<le> 2 powi (53 + f64_exponent q)"
    by (simp add: powi_le_iff f64_exponent_def)
  finally show ?thesis by (simp add: powi_add field_simps)
qed

lemma rnd64_mantissa:
  "q \<noteq> 0 \<Longrightarrow> \<bar>round_half_even (q / 2 powi f64_exponent q)\<bar> \<le> 2 ^ 53"
proof -
  assume "q \<noteq> 0"
  then have b: "\<bar>q / 2 powi f64_exponent q\<bar> < 2 ^ 53" by (rule f64_scaled_bound)
  let ?x = "q / 2 powi f64_exponent q"
  have "?x \<le> rat_of_int (2 ^ 53)" "rat_of_int (- (2 ^ 53)) \<le> ?x"
    using order_less_imp_le [OF b] unfolding abs_le_iff by simp_all
  then have "round_half_even ?x \<le> 2 ^ 53" "- (2 ^ 53) \<le> round_half_even ?x"
    using round_half_even_mono round_half_even_of_int by metis+
  then show ?thesis by simp
qed

lemma rnd64_idem: "rnd64 (rnd64 q) = rnd64 q"
proof (cases "q = 0")
  case False
  then show ?thesis
    using rnd64_grid [OF rnd64_mantissa [OF False] f64_exponent_ge]
    by (simp add: rnd64_def [of q])
qed simp

lemma rnd64_nonneg: "0 \<le> q \<Longrightarrow> 0 \<le> rnd64 q"
  using round_half_even_mono [of 0 "q / 2 powi f64_exponent q"] round_half_even_of_int [of 0]
  by (simp add: rnd64_def)

lemma rnd64_mono_pos:
  assumes x: "0 < x" and xy: "x \<le> y"
  shows "rnd64 x \<le> rnd64 y"
proof -
  have y: "0 < y" using assms by simp
  have le: "f64_exponent x \<le> f64_exponent y"
    using ilog2_mono [OF assms] x y by (simp add: f64_exponent_def)
  show ?thesis
  proof (cases "f64_exponent x = f64_exponent y")
    case True
    then show ?thesis
      using x y xy by (simp add: rnd64_def round_half_even_mono divide_right_mono)
  next
    case False
    let ?ex = "f64_exponent x" and ?ey = "f64_exponent y"
    have lt: "?ex < ?ey" using le False by simp
    then have ey: "?ey = ilog2 y - 52" and lx: "ilog2 x < ?ey + 52"
      using x y by (auto simp: f64_exponent_def split: if_splits)
    have "2 powi (?ey + 52) \<le> y" using ilog2_bounds(1) [OF y] by (simp add: ey)
    then have "rat_of_int (2 ^ 52) \<le> y / 2 powi ?ey" by (simp add: powi_add field_simps)
    then have "2 ^ 52 \<le> round_half_even (y / 2 powi ?ey)"
      using round_half_even_mono round_half_even_of_int by metis
    then have "rat_of_int (2 ^ 52) \<le> of_int (round_half_even (y / 2 powi ?ey))"
      by (simp only: of_int_le_iff)
    then have hi: "2 powi (?ey + 52) \<le> rnd64 y" using y by (simp add: rnd64_def powi_add)
    have "x \<le> 2 powi (?ey + 52)"
      using lx x ilog2_less_iff [OF x] by (simp add: order_less_imp_le)
    then have "x / 2 powi ?ex \<le> 2 powi (?ey + 52 - ?ex)" by (simp add: powi_diff divide_right_mono)
    then have "x / 2 powi ?ex \<le> of_int (2 ^ nat (?ey + 52 - ?ex))"
      using lt powi_nat [of "?ey + 52 - ?ex"] by (simp del: of_int_power)
    then have "round_half_even (x / 2 powi ?ex) \<le> 2 ^ nat (?ey + 52 - ?ex)"
      using round_half_even_mono round_half_even_of_int by metis
    then have "of_int (round_half_even (x / 2 powi ?ex)) \<le> rat_of_int (2 ^ nat (?ey + 52 - ?ex))"
      by (simp only: of_int_le_iff)
    also have "\<dots> = 2 powi (?ey + 52) / 2 powi ?ex"
      using lt by (simp add: powi_nat flip: powi_diff del: of_int_power)
    finally have "rnd64 x \<le> 2 powi (?ey + 52)" using x by (simp add: rnd64_def field_simps)
    with hi show ?thesis by simp
  qed
qed

lemma rnd64_mono: "x \<le> y \<Longrightarrow> rnd64 x \<le> rnd64 y"
proof -
  assume xy: "x \<le> y"
  consider "0 < x" | "x \<le> 0" "0 \<le> y" | "y < 0" by linarith
  then show ?thesis
  proof cases
    case 1
    then show ?thesis using xy by (rule rnd64_mono_pos)
  next
    case 2
    then have "0 \<le> rnd64 (- x)" "0 \<le> rnd64 y" by (simp_all add: rnd64_nonneg)
    then show ?thesis by (simp add: rnd64_minus)
  next
    case 3
    then have "rnd64 (- y) \<le> rnd64 (- x)" using xy by (intro rnd64_mono_pos) simp_all
    then show ?thesis by (simp add: rnd64_minus)
  qed
qed


text \<open>The relative error of a rounding in the normal range is at most \<open>2 powi - 53\<close>.\<close>

lemma rnd64_error:
  assumes "2 powi (- 1022) \<le> \<bar>q\<bar>"
  shows "\<bar>rnd64 q - q\<bar> \<le> \<bar>q\<bar> / 2 ^ 53"
proof -
  have q: "q \<noteq> 0" using assms by auto
  let ?k = "f64_exponent q" and ?x = "q / 2 powi f64_exponent q"
  have "- 1022 \<le> ilog2 \<bar>q\<bar>" using assms q by (simp add: ilog2_ge_iff)
  then have k: "?k = ilog2 \<bar>q\<bar> - 52" by (simp add: f64_exponent_def)
  have "\<bar>of_int (round_half_even ?x) - ?x\<bar> \<le> 1 / 2"
    using round_half_even_bounds [of ?x] unfolding abs_le_iff by linarith
  then have "\<bar>of_int (round_half_even ?x) - ?x\<bar> * 2 powi ?k \<le> (1 / 2) * 2 powi ?k"
    by (rule mult_right_mono) simp
  moreover have "rnd64 q - q = (of_int (round_half_even ?x) - ?x) * 2 powi ?k"
    using q by (simp add: rnd64_def algebra_simps)
  ultimately have "\<bar>rnd64 q - q\<bar> \<le> 2 powi ?k / 2" by (simp add: abs_mult)
  also have "\<dots> = 2 powi ilog2 \<bar>q\<bar> / 2 ^ 53" by (simp add: k powi_diff)
  also have "\<dots> \<le> \<bar>q\<bar> / 2 ^ 53"
    using ilog2_bounds(1) [of "\<bar>q\<bar>"] q by (simp add: divide_right_mono)
  finally show ?thesis .
qed

text \<open>
  What a client needs of a rounding: it is monotone, it leaves its own results and the integers of
  the precision unchanged, and it is odd.
\<close>

locale rounding =
  fixes rnd :: "rat \<Rightarrow> rat"
  assumes rnd_mono: "x \<le> y \<Longrightarrow> rnd x \<le> rnd y"
    and rnd_idem: "rnd (rnd x) = rnd x"
    and rnd_minus: "rnd (- x) = - rnd x"
    and rnd_int: "\<bar>m\<bar> \<le> 2 ^ 53 \<Longrightarrow> rnd (of_int m) = of_int m"
begin

lemma rnd_zero: "rnd 0 = 0"
  using rnd_int [of 0] by simp

lemma rnd_one: "rnd 1 = 1"
  using rnd_int [of 1] by simp

lemma rnd_nonneg: "0 \<le> x \<Longrightarrow> 0 \<le> rnd x"
  using rnd_mono [of 0 x] by (simp add: rnd_zero)

lemma rnd_nonpos: "x \<le> 0 \<Longrightarrow> rnd x \<le> 0"
  using rnd_mono [of x 0] by (simp add: rnd_zero)

lemma rnd_le_fixed: "rnd c = c \<Longrightarrow> x \<le> c \<Longrightarrow> rnd x \<le> c"
  using rnd_mono [of x c] by simp

lemma rnd_ge_fixed: "rnd c = c \<Longrightarrow> c \<le> x \<Longrightarrow> c \<le> rnd x"
  using rnd_mono [of c x] by simp

lemma rnd_between: "rnd a = a \<Longrightarrow> rnd b = b \<Longrightarrow> a \<le> x \<Longrightarrow> x \<le> b \<Longrightarrow> a \<le> rnd x \<and> rnd x \<le> b"
  by (simp add: rnd_le_fixed rnd_ge_fixed)

end

interpretation f64: rounding rnd64
  by unfold_locales (simp_all add: rnd64_mono rnd64_idem rnd64_minus rnd64_of_int)


subsection \<open>Floats, their arithmetic and comparisons\<close>

datatype pyfloat = NaN | PInf | NInf | Fin rat

text \<open>
  A finite result overflows when its magnitude reaches \<open>2 ^ 1024\<close>. The test reads the exponent, so
  that it evaluates without computing that power.
\<close>

definition f64_overflows :: "rat \<Rightarrow> bool" where
  "f64_overflows r = (r \<noteq> 0 \<and> 1024 \<le> ilog2 \<bar>r\<bar>)"

definition f_round :: "rat \<Rightarrow> pyfloat" where
  "f_round q = (let r = rnd64 q in
     if f64_overflows r then (if 0 < r then PInf else NInf) else Fin r)"

definition float_of_int :: "int \<Rightarrow> pyfloat" where
  "float_of_int n = f_round (of_int n)"

fun f_neg :: "pyfloat \<Rightarrow> pyfloat" where
  "f_neg NaN = NaN"
| "f_neg PInf = NInf"
| "f_neg NInf = PInf"
| "f_neg (Fin x) = Fin (- x)"

fun f_add :: "pyfloat \<Rightarrow> pyfloat \<Rightarrow> pyfloat" where
  "f_add (Fin x) (Fin y) = f_round (x + y)"
| "f_add NaN _ = NaN"
| "f_add _ NaN = NaN"
| "f_add PInf NInf = NaN"
| "f_add NInf PInf = NaN"
| "f_add PInf _ = PInf"
| "f_add _ PInf = PInf"
| "f_add NInf _ = NInf"
| "f_add _ NInf = NInf"

definition f_sub :: "pyfloat \<Rightarrow> pyfloat \<Rightarrow> pyfloat" where
  "f_sub a b = f_add a (f_neg b)"

definition f_inf_signed :: "rat \<Rightarrow> pyfloat" where
  "f_inf_signed s = (if s = 0 then NaN else if 0 < s then PInf else NInf)"

fun f_sgn :: "pyfloat \<Rightarrow> rat" where
  "f_sgn NaN = 0"
| "f_sgn PInf = 1"
| "f_sgn NInf = - 1"
| "f_sgn (Fin x) = sgn x"

fun f_mul :: "pyfloat \<Rightarrow> pyfloat \<Rightarrow> pyfloat" where
  "f_mul (Fin x) (Fin y) = f_round (x * y)"
| "f_mul NaN _ = NaN"
| "f_mul _ NaN = NaN"
| "f_mul a b = f_inf_signed (f_sgn a * f_sgn b)"

text \<open>\<open>a / b\<close> where the divisor is not zero (Python raises there; the code guards its divisions).\<close>

fun f_div :: "pyfloat \<Rightarrow> pyfloat \<Rightarrow> pyfloat" where
  "f_div (Fin x) (Fin y) = f_round (x / y)"
| "f_div NaN _ = NaN"
| "f_div _ NaN = NaN"
| "f_div (Fin _) _ = Fin 0"
| "f_div a (Fin y) = f_inf_signed (f_sgn a * (if y < 0 then - 1 else 1))"
| "f_div _ _ = NaN"

text \<open>\<open>a < b\<close> and \<open>a <= b\<close>; both are false when an operand is NaN.\<close>

fun f_less :: "pyfloat \<Rightarrow> pyfloat \<Rightarrow> bool" where
  "f_less (Fin x) (Fin y) = (x < y)"
| "f_less NaN _ = False"
| "f_less _ NaN = False"
| "f_less NInf b = (b \<noteq> NInf)"
| "f_less _ NInf = False"
| "f_less PInf _ = False"
| "f_less _ PInf = True"

fun f_eq :: "pyfloat \<Rightarrow> pyfloat \<Rightarrow> bool" where
  "f_eq NaN _ = False"
| "f_eq _ NaN = False"
| "f_eq a b = (a = b)"

definition f_le :: "pyfloat \<Rightarrow> pyfloat \<Rightarrow> bool" where
  "f_le a b = (f_less a b \<or> f_eq a b)"

text \<open>The built-ins: \<open>min(a, b)\<close> is \<open>b if b < a else a\<close>, \<open>max(a, b)\<close> is \<open>b if b > a else a\<close>.\<close>

definition py_min :: "pyfloat \<Rightarrow> pyfloat \<Rightarrow> pyfloat" where
  "py_min a b = (if f_less b a then b else a)"

definition py_max :: "pyfloat \<Rightarrow> pyfloat \<Rightarrow> pyfloat" where
  "py_max a b = (if f_less a b then b else a)"

definition is_finite :: "pyfloat \<Rightarrow> bool" where
  "is_finite a = (case a of Fin _ \<Rightarrow> True | _ \<Rightarrow> False)"

text \<open>A float value proper: finite ones are representable.\<close>

definition f64_valid :: "pyfloat \<Rightarrow> bool" where
  "f64_valid a = (case a of Fin x \<Rightarrow> rnd64 x = x \<and> \<not> f64_overflows x | _ \<Rightarrow> True)"

lemma f_le_Fin [simp]: "f_le (Fin x) (Fin y) \<longleftrightarrow> x \<le> y"
  by (auto simp: f_le_def)

lemma f_le_NaN [simp]: "\<not> f_le NaN a" "\<not> f_le a NaN"
  by (cases a; simp add: f_le_def)+

lemma f_less_NaN [simp]: "\<not> f_less a NaN"
  by (cases a) simp_all

lemma f_add_NaN [simp]: "f_add a NaN = NaN"
  by (cases a) simp_all

lemma f_mul_NaN [simp]: "f_mul a NaN = NaN"
  by (cases a) simp_all

lemma f64_overflows_0 [simp]: "\<not> f64_overflows 0"
  by (simp add: f64_overflows_def)

lemma f64_overflows_mono:
  "f64_overflows x \<Longrightarrow> \<bar>x\<bar> \<le> \<bar>y\<bar> \<Longrightarrow> f64_overflows y"
  using ilog2_mono [of "\<bar>x\<bar>" "\<bar>y\<bar>"] by (auto simp: f64_overflows_def)

lemma f64_valid_round: "f64_valid (f_round q)"
  by (simp add: f64_valid_def f_round_def Let_def rnd64_idem)

lemma f64_valid_special [simp]: "f64_valid NaN" "f64_valid PInf" "f64_valid NInf" "f64_valid (Fin 0)"
  by (simp_all add: f64_valid_def)

lemma f64_valid_neg: "f64_valid x \<Longrightarrow> f64_valid (f_neg x)"
  by (cases x) (simp_all add: f64_valid_def rnd64_minus f64_overflows_def)

text \<open>The results of the arithmetic are representable, whatever the operands.\<close>

lemma f64_valid_results [simp]:
  "f64_valid (f_add a b)" "f64_valid (f_sub a b)" "f64_valid (f_mul a b)" "f64_valid (f_div a b)"
  "f64_valid (float_of_int n)"
proof -
  have s: "f64_valid (f_inf_signed s)" for s by (simp add: f_inf_signed_def)
  show add: "f64_valid (f_add a b)" for a b
    by (cases "(a, b)" rule: f_add.cases) (simp_all add: f64_valid_round)
  then show "f64_valid (f_sub a b)" by (simp add: f_sub_def)
  show "f64_valid (f_mul a b)" by (cases "(a, b)" rule: f_mul.cases) (simp_all add: f64_valid_round s)
  show "f64_valid (f_div a b)" by (cases "(a, b)" rule: f_div.cases) (simp_all add: f64_valid_round s)
  show "f64_valid (float_of_int n)" by (simp add: float_of_int_def f64_valid_round)
qed

lemma f_round_valid: "f64_valid (Fin x) \<Longrightarrow> f_round x = Fin x"
  by (simp add: f64_valid_def f_round_def Let_def)

lemma f64_overflows_large: "f64_overflows x \<Longrightarrow> 2 powi 1024 \<le> \<bar>x\<bar>"
proof -
  assume "f64_overflows x"
  then have "x \<noteq> 0" "1024 \<le> ilog2 \<bar>x\<bar>" by (simp_all add: f64_overflows_def)
  then show ?thesis using ilog2_ge_iff [of "\<bar>x\<bar>" 1024] by (metis zero_less_abs_iff)
qed

lemma not_overflow_small: "\<bar>x\<bar> \<le> 2 powi 1000 \<Longrightarrow> \<not> f64_overflows x"
proof
  assume "\<bar>x\<bar> \<le> 2 powi 1000" and "f64_overflows x"
  then have "(2::rat) powi 1024 \<le> 2 powi 1000" using f64_overflows_large order_trans by blast
  then show False by (simp only: powi_le_iff)
qed

lemma f_round_nonneg_cases:
  "0 \<le> q \<Longrightarrow> f_round q = Fin (rnd64 q) \<or> (f_round q = PInf \<and> 2 powi 1024 \<le> rnd64 q)"
  using rnd64_nonneg [of q] f64_overflows_large [of "rnd64 q"]
  by (auto simp: f_round_def Let_def abs_of_nonneg simp del: power_int_numeral)

text \<open>Below \<open>2 ^ 54\<close> nothing overflows, and integers up to \<open>2 ^ 53\<close> are exact.\<close>

lemma rnd64_of_nat: "n \<le> 2 ^ 53 \<Longrightarrow> rnd64 (of_nat n) = of_nat n"
  using rnd64_of_int [of "int n"] by simp

lemma f_round_small:
  assumes "\<bar>q\<bar> \<le> 2 ^ 54"
  shows "f_round q = Fin (rnd64 q)"
proof -
  have two: "rnd64 (2 ^ 54) = 2 ^ 54" using rnd64_grid [of "2 ^ 53" 1] by simp
  then have "rnd64 q \<le> 2 ^ 54" "- (2 ^ 54) \<le> rnd64 q"
    using assms rnd64_mono [of q "2 ^ 54"] rnd64_mono [of "- (2 ^ 54)" q] by (simp_all add: rnd64_minus abs_le_iff)
  then have "\<bar>rnd64 q\<bar> \<le> 2 powi 54" by (simp add: abs_le_iff)
  also have "\<dots> \<le> 2 powi 1000" by (simp only: powi_le_iff)
  finally show ?thesis using not_overflow_small by (simp add: f_round_def Let_def)
qed

lemma float_of_int_small: "\<bar>m\<bar> \<le> 2 ^ 53 \<Longrightarrow> float_of_int m = Fin (of_int m)"
proof -
  assume m: "\<bar>m\<bar> \<le> 2 ^ 53"
  then have "\<bar>rat_of_int m\<bar> \<le> 2 ^ 54"
    using of_int_le_iff [of "\<bar>m\<bar>" "2 ^ 53", where 'a = rat] by simp
  then show ?thesis using rnd64_of_int [OF m] by (simp add: float_of_int_def f_round_small)
qed


text \<open>
  The order in which \<open>sorted\<close> puts floats: \<open>-inf\<close>, the finite ones, \<open>inf\<close>. (With a NaN among them
  the order is made total by putting it last; Python's result is then unspecified.)
\<close>

definition f_rank :: "pyfloat \<Rightarrow> nat" where
  "f_rank a = (case a of NInf \<Rightarrow> 0 | Fin _ \<Rightarrow> 1 | PInf \<Rightarrow> 2 | NaN \<Rightarrow> 3)"

definition f_value :: "pyfloat \<Rightarrow> rat" where
  "f_value a = (case a of Fin x \<Rightarrow> x | _ \<Rightarrow> 0)"

instantiation pyfloat :: linorder
begin

definition less_eq_pyfloat :: "pyfloat \<Rightarrow> pyfloat \<Rightarrow> bool" where
  "less_eq_pyfloat a b = (f_rank a < f_rank b \<or> (f_rank a = f_rank b \<and> f_value a \<le> f_value b))"

definition less_pyfloat :: "pyfloat \<Rightarrow> pyfloat \<Rightarrow> bool" where
  "less_pyfloat a b = (f_rank a < f_rank b \<or> (f_rank a = f_rank b \<and> f_value a < f_value b))"

instance
proof
  fix a b c :: pyfloat
  show "(a < b) = (a \<le> b \<and> \<not> b \<le> a)" by (auto simp: less_pyfloat_def less_eq_pyfloat_def)
  show "a \<le> a" by (simp add: less_eq_pyfloat_def)
  show "a \<le> b \<Longrightarrow> b \<le> c \<Longrightarrow> a \<le> c" by (auto simp: less_eq_pyfloat_def)
  show "a \<le> b \<Longrightarrow> b \<le> a \<Longrightarrow> a = b"
    by (cases a; cases b) (simp_all add: less_eq_pyfloat_def f_rank_def f_value_def)
  show "a \<le> b \<or> b \<le> a" by (auto simp: less_eq_pyfloat_def)
qed

end

lemma Fin_le_Fin [simp]: "Fin x \<le> Fin y \<longleftrightarrow> x \<le> y"
  by (simp add: less_eq_pyfloat_def f_rank_def f_value_def)

lemma f_le_order: "a \<noteq> NaN \<Longrightarrow> b \<noteq> NaN \<Longrightarrow> f_le a b \<longleftrightarrow> a \<le> b"
  by (cases a; cases b) (auto simp: less_eq_pyfloat_def f_rank_def f_value_def f_le_def)

end
