(* ===== verification/PyValue.thy ===== *)
theory PyValue
  imports PyFloat
begin

text \<open>
  The Python values that occur as tool arguments, policy constants and JSON payloads
  (\<open>pyval\<close>), Python's \<open>==\<close> on them (\<open>py_eq\<close>), numeric comparison across \<open>int\<close> and \<open>float\<close>
  (exact, as CPython compares), and the string operations the program uses (\<open>split\<close>,
  \<open>partition\<close>, \<open>lower\<close>, substring test, \<open>repr\<close>, \<open>str\<close> of an integer, UTF-8 encoding).
\<close>

subsection \<open>Values\<close>

datatype pyval =
    PNone
  | PBool bool
  | PInt int
  | PFloat pyfloat
  | PStr string
  | PList "pyval list"
  | PTuple "pyval list"
  | PDict "(string \<times> pyval) list"

type_synonym args = "pyval pydict"

lemma pyval_induct [case_names PNone PBool PInt PFloat PStr PList PTuple PDict]:
  assumes "P PNone" "\<And>b. P (PBool b)" "\<And>n. P (PInt n)" "\<And>x. P (PFloat x)" "\<And>s. P (PStr s)"
    and "\<And>xs. (\<And>x. x \<in> set xs \<Longrightarrow> P x) \<Longrightarrow> P (PList xs)"
    and "\<And>xs. (\<And>x. x \<in> set xs \<Longrightarrow> P x) \<Longrightarrow> P (PTuple xs)"
    and "\<And>kvs. (\<And>k v. (k, v) \<in> set kvs \<Longrightarrow> P v) \<Longrightarrow> P (PDict kvs)"
  shows "P v"
proof (induction v)
  case (PDict kvs)
  then have "\<And>k v. (k, v) \<in> set kvs \<Longrightarrow> P v"
    by (metis snds.intros prod.sel(2))
  then show ?case by (rule assms(8))
qed (use assms in auto)

text \<open>\<open>type(v)\<close>, for the values above.\<close>

datatype pytype = TNone | TBool | TInt | TFloat | TStr | TList | TTuple | TDict

fun type_of :: "pyval \<Rightarrow> pytype" where
  "type_of PNone = TNone"
| "type_of (PBool _) = TBool"
| "type_of (PInt _) = TInt"
| "type_of (PFloat _) = TFloat"
| "type_of (PStr _) = TStr"
| "type_of (PList _) = TList"
| "type_of (PTuple _) = TTuple"
| "type_of (PDict _) = TDict"

text \<open>The number a value compares as; \<open>bool\<close> is a subclass of \<open>int\<close>. Integers are not rounded.\<close>

fun as_number :: "pyval \<Rightarrow> pyfloat option" where
  "as_number (PBool b) = Some (Fin (if b then 1 else 0))"
| "as_number (PInt n) = Some (Fin (of_int n))"
| "as_number (PFloat x) = Some x"
| "as_number _ = None"

lemma size_dict_value: "(k, v) \<in> set kvs \<Longrightarrow> size v < size (PDict kvs)"
  by (induction kvs) auto

lemma size_list_elem: "x \<in> set xs \<Longrightarrow> size x < size (PList xs) \<and> size x < size (PTuple xs)"
  by (induction xs) auto

text \<open>
  \<open>a == b\<close>. Lists and tuples compare element by element, dictionaries by their keys, numbers by
  value across \<open>bool\<close>, \<open>int\<close> and \<open>float\<close>. (CPython's identity shortcut inside containers never
  fires here: the compared values come from two separate parses.)
\<close>

function (sequential) py_eq :: "pyval \<Rightarrow> pyval \<Rightarrow> bool" where
  "py_eq PNone PNone = True"
| "py_eq (PStr s) (PStr t) = (s = t)"
| "py_eq (PList xs) (PList ys) =
     (length xs = length ys \<and> list_all (\<lambda>(x, y). py_eq x y) (zip xs ys))"
| "py_eq (PTuple xs) (PTuple ys) =
     (length xs = length ys \<and> list_all (\<lambda>(x, y). py_eq x y) (zip xs ys))"
| "py_eq (PDict ds) (PDict es) =
     (length ds = length es \<and>
      list_all (\<lambda>(k, v). case dict_get es k of None \<Rightarrow> False | Some w \<Rightarrow> py_eq v w) ds)"
| "py_eq a b =
     (case (as_number a, as_number b) of (Some x, Some y) \<Rightarrow> f_eq x y | _ \<Rightarrow> False)"
  by pat_completeness auto
termination
  by (relation "measure (\<lambda>(a, b). size a)")
    (auto dest!: set_zip_leftD size_list_elem size_dict_value)


text \<open>Well-formed values: dictionaries have distinct keys, at every depth.\<close>

fun value_ok :: "pyval \<Rightarrow> bool" where
  "value_ok (PList xs) = list_all value_ok xs"
| "value_ok (PTuple xs) = list_all value_ok xs"
| "value_ok (PDict kvs) = (dict_ok kvs \<and> list_all (\<lambda>(k, v). value_ok v) kvs)"
| "value_ok _ = True"

text \<open>Values without a NaN, at any depth.\<close>

fun nan_free :: "pyval \<Rightarrow> bool" where
  "nan_free (PFloat x) = (x \<noteq> NaN)"
| "nan_free (PList xs) = list_all nan_free xs"
| "nan_free (PTuple xs) = list_all nan_free xs"
| "nan_free (PDict kvs) = list_all (\<lambda>(k, v). nan_free v) kvs"
| "nan_free _ = True"

lemma f_eq_refl [simp]: "f_eq x x \<longleftrightarrow> x \<noteq> NaN"
  by (cases x) simp_all

lemma f_eq_sym: "f_eq x y = f_eq y x"
  by (cases x; cases y) auto

text \<open>On values that contain no NaN, \<open>==\<close> is reflexive.\<close>

lemma py_eq_refl: "value_ok v \<Longrightarrow> nan_free v \<Longrightarrow> py_eq v v"
proof (induction v rule: pyval_induct)
  case (PList xs)
  then show ?case by (auto simp: list_all_iff set_zip)
next
  case (PTuple xs)
  then show ?case by (auto simp: list_all_iff set_zip)
next
  case (PDict kvs)
  then have "dict_get kvs k = Some v \<and> py_eq v v" if "(k, v) \<in> set kvs" for k v
    using that by (fastforce simp: list_all_iff dict_mem_get)
  then show ?case by (auto simp: list_all_iff)
qed auto

text \<open>\<open>==\<close> never relates a string, a list or a dictionary to a value of another type.\<close>

lemma py_eq_type:
  "py_eq a b \<Longrightarrow> type_of a = type_of b \<or> (as_number a \<noteq> None \<and> as_number b \<noteq> None)"
  by (cases a; cases b) auto

text \<open>\<open>isinstance(v, (int, float)) and not isinstance(v, bool)\<close>.\<close>

definition is_number :: "pyval \<Rightarrow> bool" where
  "is_number v = (case v of PInt _ \<Rightarrow> True | PFloat _ \<Rightarrow> True | _ \<Rightarrow> False)"

text \<open>\<open>v >= c\<close> and \<open>v <= c\<close> for a number \<open>v\<close> and a float \<open>c\<close>.\<close>

definition num_ge :: "pyval \<Rightarrow> pyfloat \<Rightarrow> bool" where
  "num_ge v c = (case as_number v of None \<Rightarrow> False | Some x \<Rightarrow> f_le c x)"

definition num_le :: "pyval \<Rightarrow> pyfloat \<Rightarrow> bool" where
  "num_le v c = (case as_number v of None \<Rightarrow> False | Some x \<Rightarrow> f_le x c)"


subsection \<open>Strings\<close>

text \<open>\<open>s.split(sep)\<close> for a one-character separator.\<close>

fun py_split :: "char \<Rightarrow> string \<Rightarrow> string list" where
  "py_split sep [] = [[]]"
| "py_split sep (c # cs) =
     (if c = sep then [] # py_split sep cs
      else (case py_split sep cs of [] \<Rightarrow> [[c]] | w # ws \<Rightarrow> (c # w) # ws))"

text \<open>\<open>sep.join(ws)\<close>.\<close>

fun py_join :: "string \<Rightarrow> string list \<Rightarrow> string" where
  "py_join sep [] = []"
| "py_join sep [w] = w"
| "py_join sep (w # ws) = w @ sep @ py_join sep ws"

text \<open>\<open>s.split(sep, 1)[0]\<close>.\<close>

definition py_split_first :: "char \<Rightarrow> string \<Rightarrow> string" where
  "py_split_first sep s = takeWhile (\<lambda>c. c \<noteq> sep) s"

text \<open>\<open>s.partition(sep)\<close>: the text before, the separator if found, the text after.\<close>

definition py_partition :: "char \<Rightarrow> string \<Rightarrow> string \<times> string \<times> string" where
  "py_partition sep s =
     (let before = takeWhile (\<lambda>c. c \<noteq> sep) s; rest = dropWhile (\<lambda>c. c \<noteq> sep) s
      in (before, take 1 rest, drop 1 rest))"

definition ascii_upper :: "nat \<Rightarrow> bool" where
  "ascii_upper n = (65 \<le> n \<and> n \<le> 90)"

text \<open>\<open>str.lower()\<close> on the code points below 256.\<close>

definition lower_char :: "char \<Rightarrow> char" where
  "lower_char c =
     (let n = of_char c :: nat
      in if ascii_upper n \<or> (192 \<le> n \<and> n \<le> 222 \<and> n \<noteq> 215) then char_of (n + 32) else c)"

definition py_lower :: "string \<Rightarrow> string" where
  "py_lower s = map lower_char s"

text \<open>\<open>f in s\<close> for strings.\<close>

fun str_contains :: "string \<Rightarrow> string \<Rightarrow> bool" where
  "str_contains f [] = (f = [])"
| "str_contains f (c # cs) = (prefix f (c # cs) \<or> str_contains f cs)"

lemma str_contains_sublist: "str_contains f s \<longleftrightarrow> sublist f s"
  by (induction s) (auto simp: sublist_Cons_right)

lemma py_split_not_Nil [simp]: "py_split sep s \<noteq> []"
  by (cases s) (auto split: list.splits)

lemma py_split_nosep: "w \<in> set (py_split sep s) \<Longrightarrow> sep \<notin> set w"
  by (induction s arbitrary: w) (fastforce split: if_splits list.splits)+

lemma py_split_hd: "hd (py_split sep s) = py_split_first sep s"
  by (induction s) (auto simp: py_split_first_def split: list.splits)

lemma py_join_Cons_char: "py_join sep ((c # w) # ws) = c # py_join sep (w # ws)"
  by (cases ws) simp_all

lemma py_join_split: "py_join [sep] (py_split sep s) = s"
proof (induction s)
  case (Cons c cs)
  obtain w ws where w: "py_split sep cs = w # ws"
    using py_split_not_Nil by (meson neq_Nil_conv)
  with Cons show ?case by (auto simp: py_join_Cons_char)
qed simp

lemma py_split_join:
  "ws \<noteq> [] \<Longrightarrow> (\<forall>w\<in>set ws. sep \<notin> set w) \<Longrightarrow> py_split sep (py_join [sep] ws) = ws"
proof (induction "[sep]" ws rule: py_join.induct)
  case (2 w)
  have "sep \<notin> set w \<Longrightarrow> py_split sep w = [w]" for w by (induction w) auto
  with 2 show ?case by simp
next
  case (3 w v vs)
  have "sep \<notin> set w \<Longrightarrow> py_split sep (w @ sep # r) = w # py_split sep r" for w r
    by (induction w) auto
  with 3 show ?case by simp
qed simp

lemma py_partition_append:
  "sep \<notin> set a \<Longrightarrow> py_partition sep (a @ sep # b) = (a, [sep], b)"
  by (simp add: py_partition_def takeWhile_append dropWhile_append)

lemma py_partition_eq:
  "py_partition sep s = (a, m, b) \<Longrightarrow> b \<noteq> [] \<Longrightarrow> s = a @ sep # b \<and> sep \<notin> set a"
proof -
  assume p: "py_partition sep s = (a, m, b)" and b: "b \<noteq> []"
  define r where "r = dropWhile (\<lambda>c. c \<noteq> sep) s"
  have a: "a = takeWhile (\<lambda>c. c \<noteq> sep) s" and br: "b = drop 1 r"
    using p by (auto simp: py_partition_def r_def Let_def)
  have "r \<noteq> []" using b br by auto
  then have "hd r = sep" using hd_dropWhile [of "\<lambda>c. c \<noteq> sep" s] by (simp add: r_def)
  with \<open>r \<noteq> []\<close> br have "r = sep # b" by (cases r) auto
  moreover have "s = a @ r" by (simp add: a r_def)
  moreover have "sep \<notin> set a" by (auto simp: a dest: set_takeWhileD)
  ultimately show ?thesis by simp
qed

text \<open>\<open>repr(s)\<close> of a string: the quote is double only if the text has a single one and no double one.\<close>

definition hex_digit :: "nat \<Rightarrow> char" where
  "hex_digit n = (if n < 10 then char_of (48 + n) else char_of (87 + n))"

definition repr_char :: "char \<Rightarrow> char \<Rightarrow> string" where
  "repr_char quote c =
     (let n = of_char c :: nat
      in if c = quote \<or> n = 92 then [CHR 0x5C, c]
         else if n = 9 then [CHR 0x5C, CHR ''t'']
         else if n = 10 then [CHR 0x5C, CHR ''n'']
         else if n = 13 then [CHR 0x5C, CHR ''r'']
         else if n < 32 \<or> (127 \<le> n \<and> n \<le> 160) \<or> n = 173
           then [CHR 0x5C, CHR ''x'', hex_digit (n div 16), hex_digit (n mod 16)]
         else [c])"

definition py_repr :: "string \<Rightarrow> string" where
  "py_repr s =
     (let quote = (if CHR 0x27 \<in> set s \<and> CHR 0x22 \<notin> set s then CHR 0x22 else CHR 0x27)
      in quote # concat (map (repr_char quote) s) @ [quote])"

text \<open>\<open>str(n)\<close> of an integer.\<close>

function nat_digits :: "int \<Rightarrow> string" where
  "nat_digits n = (if n < 10 then [char_of (48 + nat n)]
     else nat_digits (n div 10) @ [char_of (48 + nat (n mod 10))])"
  by pat_completeness auto
termination by (relation "measure nat") auto

declare nat_digits.simps [simp del]

definition int_str :: "int \<Rightarrow> string" where
  "int_str n = (if n < 0 then CHR ''-'' # nat_digits (- n) else nat_digits n)"

text \<open>\<open>s.encode("utf-8")\<close>, the bytes as characters.\<close>

definition utf8_char :: "char \<Rightarrow> string" where
  "utf8_char c =
     (let n = of_char c :: nat
      in if n < 128 then [c] else [char_of (192 + n div 64), char_of (128 + n mod 64)])"

definition utf8_encode :: "string \<Rightarrow> string" where
  "utf8_encode s = concat (map utf8_char s)"

lemma char_eq_of_char: "c = d \<longleftrightarrow> (of_char c :: nat) = of_char d"
  by simp

text \<open>No character's encoding is a prefix of another's, so the encoding is injective.\<close>

lemma utf8_char_cases:
  "(of_char c < (128::nat) \<and> utf8_char c = [c]) \<or>
   (128 \<le> (of_char c :: nat) \<and>
    utf8_char c = [char_of (192 + of_char c div (64::nat)), char_of (128 + of_char c mod (64::nat))])"
  by (auto simp: utf8_char_def Let_def)

lemma of_char_lt: "of_char (c :: char) < (256 :: nat)"
  using nat_of_char_less_256 by simp

lemma of_char_div_lt: "of_char (c :: char) div (64 :: nat) < 4"
  using of_char_lt [of c] by linarith

lemma utf8_lead_byte:
  "of_char (char_of (192 + of_char c div (64::nat)) :: char) = 192 + of_char c div (64::nat)"
  using of_char_div_lt [of c] by simp

lemma utf8_trail_byte:
  "of_char (char_of (128 + of_char c mod (64::nat)) :: char) = 128 + of_char c mod (64::nat)"
proof -
  have "of_char c mod (64::nat) < 64" by simp
  then show ?thesis by (simp del: mod_less_divisor)
qed

lemma utf8_char_lead: "(of_char (hd (utf8_char c)) :: nat) < 128 \<longleftrightarrow> (of_char c :: nat) < 128"
  by (cases "(of_char c :: nat) < 128") (simp_all add: utf8_char_def Let_def utf8_lead_byte del: of_char_of)

lemma utf8_char_append_inj:
  assumes "utf8_char c @ xs = utf8_char d @ ys"
  shows "c = d \<and> xs = ys"
proof -
  have hd: "hd (utf8_char c) = hd (utf8_char d)"
    using assms by (auto simp: utf8_char_def Let_def split: if_splits)
  then have lead: "(of_char c :: nat) < 128 \<longleftrightarrow> (of_char d :: nat) < 128"
    using utf8_char_lead by metis
  show ?thesis
  proof (cases "(of_char c :: nat) < 128")
    case True
    with lead assms show ?thesis by (simp add: utf8_char_def)
  next
    case False
    from False lead assms have
      "(char_of (192 + of_char c div (64::nat)) :: char) = char_of (192 + of_char d div (64::nat))"
      "(char_of (128 + of_char c mod (64::nat)) :: char) = char_of (128 + of_char d mod (64::nat))"
      and xs: "xs = ys" by (simp_all only: utf8_char_def Let_def if_False append.simps list.inject)
    then have "192 + of_char c div (64::nat) = 192 + of_char d div 64"
      "128 + of_char c mod (64::nat) = 128 + of_char d mod 64"
      using utf8_lead_byte utf8_trail_byte by metis+
    then have "of_char c div (64::nat) = of_char d div 64" "of_char c mod (64::nat) = of_char d mod 64"
      by simp_all
    then have "(of_char c :: nat) = of_char d" by (metis div_mult_mod_eq)
    with xs show ?thesis by simp
  qed
qed

lemma utf8_encode_inj: "utf8_encode s = utf8_encode t \<longleftrightarrow> s = t"
proof
  show "utf8_encode s = utf8_encode t \<Longrightarrow> s = t"
  proof (induction s arbitrary: t)
    case Nil
    then show ?case by (cases t) (auto simp: utf8_encode_def utf8_char_def Let_def split: if_splits)
  next
    case (Cons c cs)
    then show ?case
    proof (cases t)
      case Nil
      with Cons.prems show ?thesis
        by (auto simp: utf8_encode_def utf8_char_def Let_def split: if_splits)
    next
      case (Cons d ds)
      with Cons.prems have "c = d \<and> utf8_encode cs = utf8_encode ds"
        unfolding utf8_encode_def by (intro utf8_char_append_inj) simp
      with Cons Cons.IH show ?thesis by simp
    qed
  qed
qed simp

end
