(* ===== verification/PolicyModels.thy ===== *)
theory PolicyModels
  imports PyValue
begin

text \<open>
  The policy file: sentinelmcp/policy/models.py. The four pydantic models are records, their
  validation is written out from the field declarations of the source (names, alias, defaults,
  \<open>extra="forbid"\<close>, the pattern validator), and \<open>load_policy\<close> is the loader with its error
  branches.

  Third-party code is a parameter (record \<open>pydantic\<close>): how pydantic converts a scalar to
  \<open>bool\<close>, \<open>int\<close> and \<open>float\<close>, whether \<open>re.compile\<close> accepts a pattern, and how a
  \<open>ValidationError\<close> prints; so are the file system and PyYAML, by the outcomes
  \<open>read_outcome\<close> and \<open>yaml_outcome\<close>.
\<close>

subsection \<open>The models\<close>

text \<open>class ArgumentConstraint; \<open>ac_fields_set\<close> is pydantic's \<open>model_fields_set\<close>.\<close>

record argument_constraint =
  ac_fields_set :: "string list"
  ac_equals :: pyval
  ac_in :: "pyval list option"
  ac_min :: "pyfloat option"
  ac_max :: "pyfloat option"
  ac_min_length :: "int option"
  ac_max_length :: "int option"
  ac_min_items :: "int option"
  ac_max_items :: "int option"
  ac_pattern :: "string option"

datatype effect = Allow | Deny

record tool_policy =
  tp_effect :: effect
  tp_required :: "string list"
  tp_forbidden :: "string list"
  tp_deny_unknown :: bool
  tp_arguments :: "argument_constraint pydict"

record principal_policy =
  pp_api_key_env :: string
  pp_tools :: "tool_policy pydict"

record policy_config =
  pc_principals :: "principal_policy pydict"

definition PolicyLoadError :: "string \<Rightarrow> exn" where
  "PolicyLoadError m = Exc ''PolicyLoadError'' m"


subsection \<open>Validation results\<close>

datatype verr_kind = MissingField | ExtraForbidden | BadType string | BadValue string

type_synonym verror = "string list \<times> verr_kind"

text \<open>
  A validator returns the value, all the errors it found with their locations, or raises: an
  exception that is not a \<open>ValueError\<close> leaves pydantic's validation at once.
\<close>

datatype 'a vres = VOk 'a | VErr "verror list" | VRaise exn

fun v_map :: "('a \<Rightarrow> 'b) \<Rightarrow> 'a vres \<Rightarrow> 'b vres" where
  "v_map f (VOk x) = VOk (f x)"
| "v_map f (VErr es) = VErr es"
| "v_map f (VRaise e) = VRaise e"

fun v_and :: "'a vres \<Rightarrow> 'b vres \<Rightarrow> ('a \<times> 'b) vres" where
  "v_and (VRaise e) _ = VRaise e"
| "v_and _ (VRaise e) = VRaise e"
| "v_and (VErr es) (VErr fs) = VErr (es @ fs)"
| "v_and (VErr es) (VOk _) = VErr es"
| "v_and (VOk _) (VErr fs) = VErr fs"
| "v_and (VOk x) (VOk y) = VOk (x, y)"

text \<open>Errors of a component are reported under its location.\<close>

fun v_at :: "string \<Rightarrow> 'a vres \<Rightarrow> 'a vres" where
  "v_at l (VErr es) = VErr (map (\<lambda>(p, k). (l # p, k)) es)"
| "v_at l r = r"

fun v_all :: "(string \<times> 'a vres) list \<Rightarrow> (string \<times> 'a) list vres" where
  "v_all [] = VOk []"
| "v_all ((k, r) # rs) = v_map (\<lambda>(x, xs). (k, x) # xs) (v_and (v_at k r) (v_all rs))"

fun v_list :: "'a vres list \<Rightarrow> 'a list vres" where
  "v_list [] = VOk []"
| "v_list (r # rs) = v_map (\<lambda>(x, xs). x # xs) (v_and r (v_list rs))"

lemma v_map_VOk [simp]: "v_map f r = VOk y \<longleftrightarrow> (\<exists>x. r = VOk x \<and> y = f x)"
  by (cases r) auto

lemma v_and_VOk [simp]: "v_and a b = VOk p \<longleftrightarrow> (\<exists>x y. a = VOk x \<and> b = VOk y \<and> p = (x, y))"
  by (cases a; cases b) auto

lemma v_at_VOk [simp]: "v_at l r = VOk x \<longleftrightarrow> r = VOk x"
  by (cases r) auto

lemma v_all_VOk:
  "v_all rs = VOk xs \<longleftrightarrow> map fst xs = map fst rs \<and> map (VOk \<circ> snd) xs = map snd rs"
  by (induction rs arbitrary: xs) (auto simp: Cons_eq_map_conv)

lemma v_list_VOk: "v_list rs = VOk xs \<longleftrightarrow> rs = map VOk xs"
  by (induction rs arbitrary: xs) auto


subsection \<open>Field validators\<close>

datatype re_outcome = ReOk | ReError string | ReRaise exn

record pydantic =
  pd_bool :: "pyval \<Rightarrow> bool option"
  pd_int :: "pyval \<Rightarrow> int option"
  pd_float :: "pyval \<Rightarrow> pyfloat option"
  re_compile :: "string \<Rightarrow> re_outcome"
  pd_show :: "verror list \<Rightarrow> string"

definition v_scalar :: "string \<Rightarrow> (pyval \<Rightarrow> 'a option) \<Rightarrow> pyval \<Rightarrow> 'a vres" where
  "v_scalar t f v = (case f v of Some x \<Rightarrow> VOk x | None \<Rightarrow> VErr [([], BadType t)])"

definition as_str :: "pyval \<Rightarrow> string option" where
  "as_str v = (case v of PStr s \<Rightarrow> Some s | _ \<Rightarrow> None)"

definition as_list :: "pyval \<Rightarrow> pyval list option" where
  "as_list v = (case v of PList xs \<Rightarrow> Some xs | PTuple xs \<Rightarrow> Some xs | _ \<Rightarrow> None)"

definition as_dict :: "pyval \<Rightarrow> pyval pydict option" where
  "as_dict v = (case v of PDict d \<Rightarrow> Some d | _ \<Rightarrow> None)"

text \<open>\<open>T | None\<close>.\<close>

definition v_optional :: "(pyval \<Rightarrow> 'a vres) \<Rightarrow> pyval \<Rightarrow> 'a option vres" where
  "v_optional f v = (if v = PNone then VOk None else v_map Some (f v))"

text \<open>\<open>list[str]\<close>, \<open>list[Any]\<close> and \<open>dict[str, T]\<close>.\<close>

definition v_str_list :: "pyval \<Rightarrow> string list vres" where
  "v_str_list v = (case as_list v of None \<Rightarrow> VErr [([], BadType ''list'')]
     | Some xs \<Rightarrow> v_list (map (v_scalar ''string'' as_str) xs))"

definition v_any_list :: "pyval \<Rightarrow> pyval list vres" where
  "v_any_list v = v_scalar ''list'' as_list v"

definition v_dict :: "(pyval \<Rightarrow> 'a vres) \<Rightarrow> pyval \<Rightarrow> 'a pydict vres" where
  "v_dict f v = (case as_dict v of None \<Rightarrow> VErr [([], BadType ''dict'')]
     | Some d \<Rightarrow> v_all (map (\<lambda>(k, x). (k, f x)) d))"

text \<open>
  One field of a model: the first of its names (the alias first) that the input has; absent, its
  default, or an error if it has none.
\<close>

definition present_name :: "string list \<Rightarrow> pyval pydict \<Rightarrow> string option" where
  "present_name names d = find (\<lambda>n. dict_in n d) names"

definition v_field ::
  "string list \<Rightarrow> 'a option \<Rightarrow> (pyval \<Rightarrow> 'a vres) \<Rightarrow> pyval pydict \<Rightarrow> 'a vres" where
  "v_field names dflt f d =
     (case present_name names d of
        Some n \<Rightarrow> (case dict_get d n of Some v \<Rightarrow> v_at n (f v)
                     | None \<Rightarrow> VErr [([hd names], MissingField)])
      | None \<Rightarrow> (case dflt of Some x \<Rightarrow> VOk x | None \<Rightarrow> VErr [([hd names], MissingField)]))"

text \<open>\<open>extra="forbid"\<close>: every key that no field consumed is an error.\<close>

definition extra_keys :: "string list list \<Rightarrow> pyval pydict \<Rightarrow> string list" where
  "extra_keys fs d =
     filter (\<lambda>k. \<not> list_ex (\<lambda>ns. present_name ns d = Some k) fs) (dict_keys d)"

definition v_no_extra :: "string list list \<Rightarrow> pyval pydict \<Rightarrow> unit vres" where
  "v_no_extra fs d =
     (case extra_keys fs d of [] \<Rightarrow> VOk ()
      | ks \<Rightarrow> VErr (map (\<lambda>k. ([k], ExtraForbidden)) ks))"

text \<open>\<open>model_validate\<close> of a model: the input must be a mapping.\<close>

definition v_model :: "(pyval pydict \<Rightarrow> 'a vres) \<Rightarrow> pyval \<Rightarrow> 'a vres" where
  "v_model f v = (case as_dict v of None \<Rightarrow> VErr [([], BadType ''model'')] | Some d \<Rightarrow> f d)"


subsection \<open>The four models\<close>

text \<open>\<open>ArgumentConstraint._pattern_must_compile\<close>, run on a value that is already a string.\<close>

definition pattern_must_compile :: "pydantic \<Rightarrow> string option \<Rightarrow> string option vres" where
  "pattern_must_compile P value =
     (case value of
        None \<Rightarrow> VOk None
      | Some p \<Rightarrow>
          (case re_compile P p of
             ReOk \<Rightarrow> VOk value
           | ReError m \<Rightarrow>
               VErr [([], BadValue (''invalid regular expression '' @ py_repr p @ '': '' @ m))]
           | ReRaise e \<Rightarrow> VRaise e))"

definition v_pattern :: "pydantic \<Rightarrow> pyval \<Rightarrow> string option vres" where
  "v_pattern P v =
     (case v_optional (v_scalar ''string'' as_str) v of
        VOk s \<Rightarrow> pattern_must_compile P s
      | VErr es \<Rightarrow> VErr es
      | VRaise e \<Rightarrow> VRaise e)"

text \<open>The names under which the input may give each field: the alias \<open>in\<close>, or \<open>in_\<close>.\<close>

definition constraint_fields :: "string list list" where
  "constraint_fields =
     [[''equals''], [''in'', ''in_''], [''min''], [''max''], [''min_length''], [''max_length''],
      [''min_items''], [''max_items''], [''pattern'']]"

text \<open>\<open>model_fields_set\<close>: the field (not alias) names of the fields that were given.\<close>

definition fields_set_of :: "string list list \<Rightarrow> pyval pydict \<Rightarrow> string list" where
  "fields_set_of fs d = map last (filter (\<lambda>ns. present_name ns d \<noteq> None) fs)"

definition validate_argument_constraint :: "pydantic \<Rightarrow> pyval \<Rightarrow> argument_constraint vres" where
  "validate_argument_constraint P = v_model (\<lambda>d.
     v_map (\<lambda>(eq, inn, mn, mx, mnl, mxl, mni, mxi, pat, _).
         \<lparr>ac_fields_set = fields_set_of constraint_fields d,
          ac_equals = eq, ac_in = inn, ac_min = mn, ac_max = mx,
          ac_min_length = mnl, ac_max_length = mxl, ac_min_items = mni, ac_max_items = mxi,
          ac_pattern = pat\<rparr>)
       (v_and (v_field [''equals''] (Some PNone) VOk d)
       (v_and (v_field [''in'', ''in_''] (Some None) (v_optional v_any_list) d)
       (v_and (v_field [''min''] (Some None) (v_optional (v_scalar ''float'' (pd_float P))) d)
       (v_and (v_field [''max''] (Some None) (v_optional (v_scalar ''float'' (pd_float P))) d)
       (v_and (v_field [''min_length''] (Some None) (v_optional (v_scalar ''int'' (pd_int P))) d)
       (v_and (v_field [''max_length''] (Some None) (v_optional (v_scalar ''int'' (pd_int P))) d)
       (v_and (v_field [''min_items''] (Some None) (v_optional (v_scalar ''int'' (pd_int P))) d)
       (v_and (v_field [''max_items''] (Some None) (v_optional (v_scalar ''int'' (pd_int P))) d)
       (v_and (v_field [''pattern''] (Some None) (v_pattern P) d)
              (v_no_extra constraint_fields d)))))))))))"

definition v_effect :: "pyval \<Rightarrow> effect vres" where
  "v_effect v =
     (if v = PStr ''allow'' then VOk Allow
      else if v = PStr ''deny'' then VOk Deny
      else VErr [([], BadValue ''literal_error'')])"

definition tool_fields :: "string list list" where
  "tool_fields = [[''effect''], [''required''], [''forbidden''], [''deny_unknown_arguments''], [''arguments'']]"

definition validate_tool_policy :: "pydantic \<Rightarrow> pyval \<Rightarrow> tool_policy vres" where
  "validate_tool_policy P = v_model (\<lambda>d.
     v_map (\<lambda>(eff, req, forb, unk, ar, _).
         \<lparr>tp_effect = eff, tp_required = req, tp_forbidden = forb, tp_deny_unknown = unk,
          tp_arguments = ar\<rparr>)
       (v_and (v_field [''effect''] None v_effect d)
       (v_and (v_field [''required''] (Some []) v_str_list d)
       (v_and (v_field [''forbidden''] (Some []) v_str_list d)
       (v_and (v_field [''deny_unknown_arguments''] (Some True) (v_scalar ''bool'' (pd_bool P)) d)
       (v_and (v_field [''arguments''] (Some []) (v_dict (validate_argument_constraint P)) d)
              (v_no_extra tool_fields d)))))))"

definition principal_fields :: "string list list" where
  "principal_fields = [[''api_key_env''], [''tools'']]"

definition validate_principal_policy :: "pydantic \<Rightarrow> pyval \<Rightarrow> principal_policy vres" where
  "validate_principal_policy P = v_model (\<lambda>d.
     v_map (\<lambda>(env, ts, _). \<lparr>pp_api_key_env = env, pp_tools = ts\<rparr>)
       (v_and (v_field [''api_key_env''] None (v_scalar ''string'' as_str) d)
       (v_and (v_field [''tools''] (Some []) (v_dict (validate_tool_policy P)) d)
              (v_no_extra principal_fields d))))"

definition config_fields :: "string list list" where
  "config_fields = [[''principals'']]"

definition validate_policy_config :: "pydantic \<Rightarrow> pyval \<Rightarrow> policy_config vres" where
  "validate_policy_config P = v_model (\<lambda>d.
     v_map (\<lambda>(ps, _). \<lparr>pc_principals = ps\<rparr>)
       (v_and (v_field [''principals''] None (v_dict (validate_principal_policy P)) d)
              (v_no_extra config_fields d)))"


subsection \<open>load\_policy\<close>

datatype read_outcome = ReadOk string | ReadOSError string | ReadRaise exn
datatype yaml_outcome = YamlOk pyval | YamlError string | YamlRaise exn

definition load_policy ::
  "pydantic \<Rightarrow> (string \<Rightarrow> read_outcome) \<Rightarrow> (string \<Rightarrow> yaml_outcome) \<Rightarrow> string \<Rightarrow> policy_config res" where
  "load_policy P read_file safe_load path =
     (case read_file path of
        ReadOSError m \<Rightarrow>
          Inl (PolicyLoadError (''could not read policy file '' @ py_repr path @ '': '' @ m))
      | ReadRaise e \<Rightarrow> Inl e
      | ReadOk text \<Rightarrow>
          (case safe_load text of
             YamlError m \<Rightarrow> Inl (PolicyLoadError (''invalid YAML in '' @ py_repr path @ '': '' @ m))
           | YamlRaise e \<Rightarrow> Inl e
           | YamlOk raw \<Rightarrow>
               (if type_of raw \<noteq> TDict
                then Inl (PolicyLoadError (''policy file '' @ py_repr path @
                            '' must contain a YAML mapping at the top level''))
                else
                  (case validate_policy_config P raw of
                     VOk policy \<Rightarrow> Inr policy
                   | VErr es \<Rightarrow> Inl (PolicyLoadError (''invalid policy structure in '' @
                                  py_repr path @ '': '' @ pd_show P es))
                   | VRaise e \<Rightarrow> Inl e))))"


subsection \<open>Inversion of a successful validation\<close>

lemma v_model_VOk [simp]: "v_model f v = VOk x \<longleftrightarrow> (\<exists>d. v = PDict d \<and> f d = VOk x)"
  by (cases v) (simp_all add: v_model_def as_dict_def)

lemma v_dict_VOk:
  "v_dict f v = VOk xs \<longleftrightarrow>
    (\<exists>d. v = PDict d \<and> list_all2 (\<lambda>(k, y) (k', x). k = k' \<and> f y = VOk x) d xs)"
proof -
  have "v_all (map (\<lambda>(k, x). (k, f x)) d) = VOk xs \<longleftrightarrow>
      list_all2 (\<lambda>(k, y) (k', x). k = k' \<and> f y = VOk x) d xs" for d
  proof (induction d arbitrary: xs)
    case (Cons kv d)
    then show ?case by (cases kv) (auto simp: list_all2_Cons1)
  qed auto
  then show ?thesis by (cases v) (simp_all add: v_dict_def as_dict_def)
qed

lemma v_dict_value:
  "v_dict f v = VOk xs \<Longrightarrow> (k, x) \<in> set xs \<Longrightarrow> \<exists>d y. v = PDict d \<and> (k, y) \<in> set d \<and> f y = VOk x"
  by (fastforce simp: v_dict_VOk list_all2_conv_all_nth in_set_conv_nth)

lemma v_dict_raw_value:
  "v_dict f (PDict d) = VOk xs \<Longrightarrow> (k, y) \<in> set d \<Longrightarrow> \<exists>x. (k, x) \<in> set xs \<and> f y = VOk x"
  by (fastforce simp: v_dict_VOk list_all2_conv_all_nth in_set_conv_nth)

lemma v_dict_keys: "v_dict f (PDict d) = VOk xs \<Longrightarrow> dict_keys xs = dict_keys d"
proof -
  assume "v_dict f (PDict d) = VOk xs"
  then have "list_all2 (\<lambda>(k, y) (k', x). k = k' \<and> f y = VOk x) d xs" by (simp add: v_dict_VOk)
  then show ?thesis by (induction rule: list_all2_induct) (auto simp: dict_keys_def)
qed

lemma v_no_extra_VOk [simp]: "v_no_extra fs d = VOk u \<longleftrightarrow> extra_keys fs d = []"
  by (simp add: v_no_extra_def split: list.split)

lemma extra_keys_declared:
  "extra_keys fs d = [] \<Longrightarrow> k \<in> set (dict_keys d) \<Longrightarrow> \<exists>ns\<in>set fs. k \<in> set ns"
proof -
  assume "extra_keys fs d = []" "k \<in> set (dict_keys d)"
  then obtain ns where ns: "ns \<in> set fs" "present_name ns d = Some k"
    by (auto simp: extra_keys_def filter_empty_conv list_ex_iff)
  then have "k \<in> set ns" by (auto simp: present_name_def find_Some_iff)
  with ns show ?thesis by blast
qed

text \<open>A field that was given was validated; one with no default was given.\<close>

lemma v_field_VOk_given:
  "v_field [n] dflt f d = VOk x \<Longrightarrow> dict_get d n = Some v \<Longrightarrow> f v = VOk x"
  by (auto simp: v_field_def present_name_def dict_in_get split: option.splits)

lemma v_field_VOk_cases:
  "v_field [n] dflt f d = VOk x \<Longrightarrow>
    (\<exists>v. dict_get d n = Some v \<and> f v = VOk x) \<or> (dict_get d n = None \<and> dflt = Some x)"
  by (auto simp: v_field_def present_name_def dict_in_get split: option.splits if_splits)

lemma validate_argument_constraint_VOk:
  assumes "validate_argument_constraint P v = VOk c"
  shows "\<exists>d. v = PDict d \<and> extra_keys constraint_fields d = [] \<and>
    ac_fields_set c = fields_set_of constraint_fields d \<and>
    v_field [''pattern''] (Some None) (v_pattern P) d = VOk (ac_pattern c)"
  using assms by (auto simp: validate_argument_constraint_def)

lemma validate_tool_policy_VOk:
  assumes "validate_tool_policy P v = VOk tp"
  shows "\<exists>d. v = PDict d \<and> extra_keys tool_fields d = [] \<and>
    v_field [''effect''] None v_effect d = VOk (tp_effect tp) \<and>
    v_field [''arguments''] (Some []) (v_dict (validate_argument_constraint P)) d
      = VOk (tp_arguments tp)"
  using assms by (auto simp: validate_tool_policy_def)

lemma validate_principal_policy_VOk:
  assumes "validate_principal_policy P v = VOk pp"
  shows "\<exists>d. v = PDict d \<and> extra_keys principal_fields d = [] \<and>
    v_field [''tools''] (Some []) (v_dict (validate_tool_policy P)) d = VOk (pp_tools pp)"
  using assms by (auto simp: validate_principal_policy_def)

lemma validate_policy_config_VOk:
  assumes "validate_policy_config P v = VOk cfg"
  shows "\<exists>d. v = PDict d \<and> extra_keys config_fields d = [] \<and>
    v_field [''principals''] None (v_dict (validate_principal_policy P)) d
      = VOk (pc_principals cfg)"
  using assms by (auto simp: validate_policy_config_def)


subsection \<open>What a loaded policy guarantees\<close>

text \<open>The specification: at every level of the document only declared field names occur.\<close>

definition keys_known :: "string list list \<Rightarrow> pyval \<Rightarrow> bool" where
  "keys_known fs v =
     (case v of PDict d \<Rightarrow> list_all (\<lambda>k. list_ex (\<lambda>ns. k \<in> set ns) fs) (dict_keys d) | _ \<Rightarrow> False)"

definition field_values :: "string \<Rightarrow> pyval \<Rightarrow> pyval list" where
  "field_values n v =
     (case v of PDict d \<Rightarrow> (case dict_get d n of Some (PDict e) \<Rightarrow> map snd e | _ \<Rightarrow> []) | _ \<Rightarrow> [])"

definition constraint_known :: "pyval \<Rightarrow> bool" where
  "constraint_known v = keys_known constraint_fields v"

definition tool_known :: "pyval \<Rightarrow> bool" where
  "tool_known v = (keys_known tool_fields v \<and> list_all constraint_known (field_values ''arguments'' v))"

definition principal_known :: "pyval \<Rightarrow> bool" where
  "principal_known v = (keys_known principal_fields v \<and> list_all tool_known (field_values ''tools'' v))"

definition config_known :: "pyval \<Rightarrow> bool" where
  "config_known v =
     (keys_known config_fields v \<and> list_all principal_known (field_values ''principals'' v))"

text \<open>Every pattern of the policy is one that \<open>re.compile\<close> accepted.\<close>

definition constraint_pattern_ok :: "pydantic \<Rightarrow> argument_constraint \<Rightarrow> bool" where
  "constraint_pattern_ok P c =
     (case ac_pattern c of None \<Rightarrow> True | Some p \<Rightarrow> re_compile P p = ReOk)"

definition policy_patterns_ok :: "pydantic \<Rightarrow> policy_config \<Rightarrow> bool" where
  "policy_patterns_ok P cfg =
     list_all (\<lambda>(_, pp). list_all (\<lambda>(_, tp). list_all (\<lambda>(_, c). constraint_pattern_ok P c)
       (tp_arguments tp)) (pp_tools pp)) (pc_principals cfg)"

lemma keys_knownI: "extra_keys fs d = [] \<Longrightarrow> keys_known fs (PDict d)"
  by (auto simp: keys_known_def list_all_iff list_ex_iff dest: extra_keys_declared)

lemma field_values_all:
  assumes ok: "v_field [n] dflt (v_dict f) d = VOk xs"
    and Q: "\<And>v x. f v = VOk x \<Longrightarrow> Q v"
  shows "list_all Q (field_values n (PDict d))"
proof (cases "\<exists>e. dict_get d n = Some (PDict e)")
  case True
  then obtain e where e: "dict_get d n = Some (PDict e)" by blast
  have "Q v" if "(k, v) \<in> set e" for k v
    using v_dict_raw_value [OF v_field_VOk_given [OF ok e] that] Q by blast
  then show ?thesis by (auto simp: field_values_def e list_all_iff)
qed (auto simp: field_values_def split: option.split pyval.split)

lemma constraint_known_VOk: "validate_argument_constraint P v = VOk c \<Longrightarrow> constraint_known v"
  by (auto simp: constraint_known_def keys_knownI dest!: validate_argument_constraint_VOk)

lemma tool_known_VOk: "validate_tool_policy P v = VOk tp \<Longrightarrow> tool_known v"
  using validate_tool_policy_VOk [of P v tp] field_values_all [OF _ constraint_known_VOk]
  by (fastforce simp: tool_known_def keys_knownI)

lemma principal_known_VOk: "validate_principal_policy P v = VOk pp \<Longrightarrow> principal_known v"
  using validate_principal_policy_VOk [of P v pp] field_values_all [OF _ tool_known_VOk]
  by (fastforce simp: principal_known_def keys_knownI)

lemma config_known_VOk: "validate_policy_config P v = VOk cfg \<Longrightarrow> config_known v"
  using validate_policy_config_VOk [of P v cfg] field_values_all [OF _ principal_known_VOk]
  by (fastforce simp: config_known_def keys_knownI)

lemma v_pattern_VOk: "v_pattern P v = VOk (Some p) \<Longrightarrow> re_compile P p = ReOk"
  by (auto simp: v_pattern_def pattern_must_compile_def split: vres.splits option.splits re_outcome.splits)

lemma validated_member:
  assumes "v_field [n] dflt (v_dict f) d = VOk xs" and "dflt = None \<or> dflt = Some []"
    and "(k, x) \<in> set xs"
  shows "\<exists>y. f y = VOk x"
  using v_field_VOk_cases [OF assms(1)]
proof
  assume "\<exists>v. dict_get d n = Some v \<and> v_dict f v = VOk xs"
  then obtain v where "v_dict f v = VOk xs" by blast
  from v_dict_value [OF this assms(3)] show ?thesis by blast
qed (use assms(2,3) in auto)

lemma constraint_pattern_ok_VOk:
  "validate_argument_constraint P v = VOk c \<Longrightarrow> constraint_pattern_ok P c"
  by (auto simp: constraint_pattern_ok_def split: option.split
      dest!: validate_argument_constraint_VOk v_field_VOk_cases dest: v_pattern_VOk)

lemma policy_patterns_ok_VOk:
  assumes "validate_policy_config P v = VOk cfg"
  shows "policy_patterns_ok P cfg"
proof -
  have "constraint_pattern_ok P c"
    if m: "(n, pp) \<in> set (pc_principals cfg)" "(t, tp) \<in> set (pp_tools pp)" "(a, c) \<in> set (tp_arguments tp)"
    for n pp t tp a c
  proof -
    obtain pv where "validate_principal_policy P pv = VOk pp"
      using validate_policy_config_VOk [OF assms] validated_member [OF _ _ m(1)] by blast
    then obtain tv where "validate_tool_policy P tv = VOk tp"
      using validate_principal_policy_VOk validated_member [OF _ _ m(2)] by blast
    then obtain cv where "validate_argument_constraint P cv = VOk c"
      using validate_tool_policy_VOk validated_member [OF _ _ m(3)] by blast
    then show ?thesis by (rule constraint_pattern_ok_VOk)
  qed
  then show ?thesis by (fastforce simp: policy_patterns_ok_def list_all_iff)
qed


lemma load_policy_ok:
  assumes "load_policy P rf sl path = Inr cfg"
  shows "\<exists>text raw. rf path = ReadOk text \<and> sl text = YamlOk raw \<and> type_of raw = TDict \<and>
    config_known raw \<and> validate_policy_config P raw = VOk cfg \<and> policy_patterns_ok P cfg"
  using assms config_known_VOk policy_patterns_ok_VOk
  by (auto simp: load_policy_def split: read_outcome.splits yaml_outcome.splits vres.splits if_splits)

text \<open>
  C27: A policy that loads comes from a readable file whose YAML is a mapping that uses declared
  field names only, at the levels of the document, of a principal, of a tool and of a constraint
  (so an unknown field or an unknown constraint operator prevents startup); and every regular
  expression of the loaded policy compiles.
\<close>

theorem load_policy_fail_closed:
  assumes "load_policy P rf sl path = Inr cfg"
  shows "\<exists>text raw. rf path = ReadOk text \<and> sl text = YamlOk raw \<and> type_of raw = TDict \<and>
    config_known raw \<and> validate_policy_config P raw = VOk cfg \<and> policy_patterns_ok P cfg"
  by (rule load_policy_ok [OF assms])

text \<open>A concrete instance: the conversions on values that already have the type.\<close>

definition plain_pydantic :: "(string \<Rightarrow> re_outcome) \<Rightarrow> pydantic" where
  "plain_pydantic rc =
     \<lparr>pd_bool = (\<lambda>v. case v of PBool b \<Rightarrow> Some b | _ \<Rightarrow> None),
      pd_int = (\<lambda>v. case v of PInt n \<Rightarrow> Some n | _ \<Rightarrow> None),
      pd_float = (\<lambda>v. case v of PFloat x \<Rightarrow> Some x | PInt n \<Rightarrow> Some (float_of_int n) | _ \<Rightarrow> None),
      re_compile = rc, pd_show = (\<lambda>es. ''validation error'')\<rparr>"

definition demo_document :: "string \<Rightarrow> pyval" where
  "demo_document pat =
     PDict [(''principals'', PDict [(''analyst'', PDict
       [(''api_key_env'', PStr ''ANALYST_KEY''),
        (''tools'', PDict [(''echo'', PDict
          [(''effect'', PStr ''allow''), (''required'', PList [PStr ''text'']),
           (''arguments'', PDict [(''text'', PDict
             [(''max_length'', PInt 8), (''pattern'', PStr pat)])])])])])])]"

definition demo_policy :: policy_config where
  "demo_policy = \<lparr>pc_principals = [(''analyst'', \<lparr>pp_api_key_env = ''ANALYST_KEY'', pp_tools =
     [(''echo'', \<lparr>tp_effect = Allow, tp_required = [''text''], tp_forbidden = [], tp_deny_unknown = True,
        tp_arguments = [(''text'', \<lparr>ac_fields_set = [''max_length'', ''pattern''], ac_equals = PNone,
          ac_in = None, ac_min = None, ac_max = None, ac_min_length = None, ac_max_length = Some 8,
          ac_min_items = None, ac_max_items = None, ac_pattern = Some ''[a-z]+''\<rparr>)]\<rparr>)]\<rparr>)]\<rparr>"

lemma demo_document_valid:
  "validate_policy_config (plain_pydantic (\<lambda>_. ReOk)) (demo_document ''[a-z]+'') = VOk demo_policy"
  by code_simp

lemma demo_document_loads:
  "load_policy (plain_pydantic (\<lambda>_. ReOk)) (\<lambda>_. ReadOk ''text'')
     (\<lambda>_. YamlOk (demo_document ''[a-z]+'')) ''policy.yaml'' = Inr demo_policy"
  by (simp add: load_policy_def demo_document_valid) (simp add: demo_document_def)

theorem load_policy_fail_closed_witness:
  "config_known (demo_document ''[a-z]+'') \<and> policy_patterns_ok (plain_pydantic (\<lambda>_. ReOk)) demo_policy"
  using load_policy_fail_closed [OF demo_document_loads] by simp

text \<open>What leaves the loader although it is not a \<open>PolicyLoadError\<close>.\<close>

definition load_escapes ::
  "pydantic \<Rightarrow> (string \<Rightarrow> read_outcome) \<Rightarrow> (string \<Rightarrow> yaml_outcome) \<Rightarrow> string \<Rightarrow> exn \<Rightarrow> bool" where
  "load_escapes P rf sl path e =
     (rf path = ReadRaise e \<or>
      (case rf path of ReadOk text \<Rightarrow>
         sl text = YamlRaise e \<or>
         (case sl text of YamlOk raw \<Rightarrow> validate_policy_config P raw = VRaise e | _ \<Rightarrow> False)
       | _ \<Rightarrow> False))"

lemma validate_policy_config_VRaise: "validate_policy_config P v = VRaise e \<Longrightarrow> type_of v = TDict"
  by (cases v) (simp_all add: validate_policy_config_def v_model_def as_dict_def)

text \<open>
  The loader raises nothing but \<open>PolicyLoadError\<close>, except where the read of the file (text
  that is not UTF-8), PyYAML or \<open>re.compile\<close> raises something other than the \<open>OSError\<close>,
  \<open>YAMLError\<close> and \<open>re.error\<close> it catches: that exception leaves \<open>load_policy\<close> as it is, against
  its docstring ("Raises PolicyLoadError on any problem").
\<close>

lemma load_policy_raises:
  "(load_policy P rf sl path = Inl e \<longrightarrow> (\<exists>m. e = PolicyLoadError m) \<or> load_escapes P rf sl path e) \<and>
    (load_escapes P rf sl path e \<longrightarrow> load_policy P rf sl path = Inl e)"
  using validate_policy_config_VRaise [of P]
  by (auto simp: load_policy_def load_escapes_def
      split: read_outcome.splits yaml_outcome.splits vres.splits if_splits)

end
