(* ===== verification/PolicyEngine.thy ===== *)
theory PolicyEngine
  imports PolicyModels
begin

text \<open>
  Authorization decisions: sentinelmcp/policy/engine.py. The functions keep the order of the
  source's checks and its messages. Parameters: \<open>js\<close>, the outcome of
  \<open>jsonschema.validate\<close> (third-party), and \<open>fullmatch\<close>, Python's \<open>re.fullmatch\<close>. Below the
  definitions stands the declarative reading of a tool policy (\<open>args_satisfy\<close>), which the
  evaluation decides.
\<close>

subsection \<open>Tool authorization\<close>

definition resolve_tool_policy :: "policy_config \<Rightarrow> string \<Rightarrow> string \<Rightarrow> tool_policy option" where
  "resolve_tool_policy policy prin tool_name =
     (case dict_get (pc_principals policy) prin of
        None \<Rightarrow> None
      | Some pp \<Rightarrow>
          (case dict_get (pp_tools pp) tool_name of
             None \<Rightarrow> None
           | Some tp \<Rightarrow> if tp_effect tp \<noteq> Allow then None else Some tp))"

definition is_tool_allowed :: "policy_config \<Rightarrow> string \<Rightarrow> string \<Rightarrow> bool" where
  "is_tool_allowed policy prin tool_name =
     (resolve_tool_policy policy prin tool_name \<noteq> None)"

text \<open>The rule of the policy for a principal and a tool, whatever its effect.\<close>

definition tool_rule :: "policy_config \<Rightarrow> string \<Rightarrow> string \<Rightarrow> tool_policy option" where
  "tool_rule policy prin tool_name =
     Option.bind (dict_get (pc_principals policy) prin) (\<lambda>pp. dict_get (pp_tools pp) tool_name)"


subsection \<open>Upstream schema validation\<close>

datatype js_outcome = JsValid | JsValidationError string | JsSchemaError string | JsRaise exn

definition validate_input_schema ::
  "(pyval \<Rightarrow> pyval \<Rightarrow> js_outcome) \<Rightarrow> pyval option \<Rightarrow> args \<Rightarrow> string option res" where
  "validate_input_schema js input_schema arguments =
     (case input_schema of
        None \<Rightarrow> Inr None
      | Some schema \<Rightarrow>
          (case js (PDict arguments) schema of
             JsValid \<Rightarrow> Inr None
           | JsValidationError m \<Rightarrow> Inr (Some m)
           | JsSchemaError m \<Rightarrow> Inr (Some (''upstream inputSchema is invalid: '' @ m))
           | JsRaise e \<Rightarrow>
               if is_exception e
               then Inr (Some (''upstream inputSchema could not be evaluated: '' @ exn_str e))
               else Inl e))"


subsection \<open>Strict equality and paths\<close>

definition strict_equal :: "pyval \<Rightarrow> pyval \<Rightarrow> bool" where
  "strict_equal a b = (type_of a = type_of b \<and> py_eq a b)"

definition strict_in :: "pyval \<Rightarrow> pyval list \<Rightarrow> bool" where
  "strict_in value candidates = list_ex (strict_equal value) candidates"

fun walk_path :: "pyval \<Rightarrow> string list \<Rightarrow> pyval \<times> bool" where
  "walk_path current [] = (current, True)"
| "walk_path current (segment # segments) =
     (case current of
        PDict d \<Rightarrow> (case dict_get d segment of
            None \<Rightarrow> (PNone, False) | Some v \<Rightarrow> walk_path v segments)
      | _ \<Rightarrow> (PNone, False))"

definition resolve_path :: "args \<Rightarrow> string \<Rightarrow> pyval \<times> bool" where
  "resolve_path arguments path = walk_path (PDict arguments) (py_split (CHR ''.'') path)"

definition known_top_level_fields :: "tool_policy \<Rightarrow> string list" where
  "known_top_level_fields tp =
     tp_required tp @ tp_forbidden tp @ map (py_split_first (CHR ''.'')) (dict_keys (tp_arguments tp))"


subsection \<open>Argument constraints\<close>

text \<open>\<open>len(v)\<close> of a string and of a list, where \<open>isinstance\<close> holds.\<close>

definition str_len :: "pyval \<Rightarrow> int option" where
  "str_len v = (case v of PStr s \<Rightarrow> Some (int (length s)) | _ \<Rightarrow> None)"

definition list_len :: "pyval \<Rightarrow> int option" where
  "list_len v = (case v of PList xs \<Rightarrow> Some (int (length xs)) | _ \<Rightarrow> None)"

text \<open>\<open>constraint.f is not None and not (ok constraint.f)\<close>.\<close>

definition violates :: "'a option \<Rightarrow> ('a \<Rightarrow> bool) \<Rightarrow> bool" where
  "violates bound ok = (case bound of None \<Rightarrow> False | Some b \<Rightarrow> \<not> ok b)"

definition check_constraint ::
  "(string \<Rightarrow> string \<Rightarrow> bool) \<Rightarrow> string \<Rightarrow> pyval \<Rightarrow> argument_constraint \<Rightarrow> string option" where
  "check_constraint fullmatch path value c =
     (if ''equals'' \<in> set (ac_fields_set c) \<and> \<not> strict_equal value (ac_equals c)
      then Some (py_repr path @ '' does not equal the configured value'')
      else if ''in_'' \<in> set (ac_fields_set c) \<and>
              \<not> strict_in value (case ac_in c of None \<Rightarrow> [] | Some xs \<Rightarrow> xs)
      then Some (py_repr path @ '' is not one of the allowed values'')
      else if violates (ac_min c) (\<lambda>b. is_number value \<and> num_ge value b)
      then Some (py_repr path @ '' is below the configured minimum'')
      else if violates (ac_max c) (\<lambda>b. is_number value \<and> num_le value b)
      then Some (py_repr path @ '' is above the configured maximum'')
      else if violates (ac_min_length c) (\<lambda>b. case str_len value of None \<Rightarrow> False | Some n \<Rightarrow> b \<le> n)
      then Some (py_repr path @ '' is shorter than the configured minimum length'')
      else if violates (ac_max_length c) (\<lambda>b. case str_len value of None \<Rightarrow> False | Some n \<Rightarrow> n \<le> b)
      then Some (py_repr path @ '' is longer than the configured maximum length'')
      else if violates (ac_min_items c) (\<lambda>b. case list_len value of None \<Rightarrow> False | Some n \<Rightarrow> b \<le> n)
      then Some (py_repr path @ '' has fewer than the configured minimum items'')
      else if violates (ac_max_items c) (\<lambda>b. case list_len value of None \<Rightarrow> False | Some n \<Rightarrow> n \<le> b)
      then Some (py_repr path @ '' has more than the configured maximum items'')
      else if violates (ac_pattern c) (\<lambda>p. case value of PStr s \<Rightarrow> fullmatch p s | _ \<Rightarrow> False)
      then Some (py_repr path @ '' does not match the configured pattern'')
      else None)"

text \<open>The loop over \<open>tool_policy.arguments.items()\<close>.\<close>

fun check_constraints ::
  "(string \<Rightarrow> string \<Rightarrow> bool) \<Rightarrow> args \<Rightarrow> argument_constraint pydict \<Rightarrow> string option" where
  "check_constraints fullmatch arguments [] = None"
| "check_constraints fullmatch arguments ((path, c) # rest) =
     (case resolve_path arguments path of
        (value, present) \<Rightarrow>
          if \<not> present then check_constraints fullmatch arguments rest
          else (case check_constraint fullmatch path value c of
                  Some reason \<Rightarrow> Some reason
                | None \<Rightarrow> check_constraints fullmatch arguments rest))"

definition evaluate_argument_policy ::
  "(string \<Rightarrow> string \<Rightarrow> bool) \<Rightarrow> tool_policy \<Rightarrow> args \<Rightarrow> string option" where
  "evaluate_argument_policy fullmatch tp arguments =
     (case find (\<lambda>name. \<not> dict_in name arguments) (tp_required tp) of
        Some name \<Rightarrow> Some (''missing required field '' @ py_repr name)
      | None \<Rightarrow>
     (case find (\<lambda>name. dict_in name arguments) (tp_forbidden tp) of
        Some name \<Rightarrow> Some (''forbidden field '' @ py_repr name @ '' was present'')
      | None \<Rightarrow>
     (case (if tp_deny_unknown tp
            then find (\<lambda>name. name \<notin> set (known_top_level_fields tp)) (dict_keys arguments)
            else None) of
        Some name \<Rightarrow> Some (''unknown field '' @ py_repr name)
      | None \<Rightarrow> check_constraints fullmatch arguments (tp_arguments tp))))"


subsection \<open>The declarative reading\<close>

text \<open>The value at a path, as a relation on keys: the specification of \<open>resolve_path\<close>.\<close>

inductive value_at :: "pyval \<Rightarrow> string list \<Rightarrow> pyval \<Rightarrow> bool" where
  here: "value_at v [] v"
| below: "dict_get d k = Some w \<Longrightarrow> value_at w ks v \<Longrightarrow> value_at (PDict d) (k # ks) v"

inductive_cases value_at_NilE [elim!]: "value_at v [] w"
inductive_cases value_at_ConsE [elim!]: "value_at v (k # ks) w"

code_pred value_at .

definition constraint_holds ::
  "(string \<Rightarrow> string \<Rightarrow> bool) \<Rightarrow> pyval \<Rightarrow> argument_constraint \<Rightarrow> bool" where
  "constraint_holds fullmatch v c =
     ((''equals'' \<in> set (ac_fields_set c) \<longrightarrow> strict_equal v (ac_equals c)) \<and>
      (''in_'' \<in> set (ac_fields_set c) \<longrightarrow>
         (\<exists>xs. ac_in c = Some xs \<and> (\<exists>x\<in>set xs. strict_equal v x))) \<and>
      (\<forall>b. ac_min c = Some b \<longrightarrow> is_number v \<and> num_ge v b) \<and>
      (\<forall>b. ac_max c = Some b \<longrightarrow> is_number v \<and> num_le v b) \<and>
      (\<forall>b. ac_min_length c = Some b \<longrightarrow> (\<exists>s. v = PStr s \<and> b \<le> int (length s))) \<and>
      (\<forall>b. ac_max_length c = Some b \<longrightarrow> (\<exists>s. v = PStr s \<and> int (length s) \<le> b)) \<and>
      (\<forall>b. ac_min_items c = Some b \<longrightarrow> (\<exists>xs. v = PList xs \<and> b \<le> int (length xs))) \<and>
      (\<forall>b. ac_max_items c = Some b \<longrightarrow> (\<exists>xs. v = PList xs \<and> int (length xs) \<le> b)) \<and>
      (\<forall>p. ac_pattern c = Some p \<longrightarrow> (\<exists>s. v = PStr s \<and> fullmatch p s)))"

definition args_satisfy ::
  "(string \<Rightarrow> string \<Rightarrow> bool) \<Rightarrow> tool_policy \<Rightarrow> args \<Rightarrow> bool" where
  "args_satisfy fullmatch tp arguments =
     ((\<forall>n\<in>set (tp_required tp). dict_in n arguments) \<and>
      (\<forall>n\<in>set (tp_forbidden tp). \<not> dict_in n arguments) \<and>
      (tp_deny_unknown tp \<longrightarrow>
         (\<forall>n. dict_in n arguments \<longrightarrow>
            n \<in> set (tp_required tp) \<or> n \<in> set (tp_forbidden tp) \<or>
            (\<exists>path\<in>set (dict_keys (tp_arguments tp)). hd (py_split (CHR ''.'') path) = n))) \<and>
      (\<forall>(path, c)\<in>set (tp_arguments tp). \<forall>v.
         value_at (PDict arguments) (py_split (CHR ''.'') path) v \<longrightarrow> constraint_holds fullmatch v c))"


subsection \<open>The evaluation decides the declarative reading\<close>

lemma walk_path_value_at: "walk_path v ks = (w, True) \<longleftrightarrow> value_at v ks w"
  by (induction v ks rule: walk_path.induct)
    (auto split: pyval.splits option.splits intro: value_at.intros)

lemma resolve_path_value_at:
  "resolve_path arguments path = (w, True) \<longleftrightarrow>
    value_at (PDict arguments) (py_split (CHR ''.'') path) w"
  by (simp add: resolve_path_def walk_path_value_at)

lemma value_at_unique: "value_at v ks w \<Longrightarrow> value_at v ks w' \<Longrightarrow> w' = w"
  by (metis walk_path_value_at prod.inject)

lemma violates_False: "\<not> violates b ok \<longleftrightarrow> (\<forall>x. b = Some x \<longrightarrow> ok x)"
  by (simp add: violates_def split: option.split)

lemma str_len_case:
  "(case str_len v of None \<Rightarrow> False | Some n \<Rightarrow> P n) \<longleftrightarrow> (\<exists>s. v = PStr s \<and> P (int (length s)))"
  by (cases v) (simp_all add: str_len_def)

lemma list_len_case:
  "(case list_len v of None \<Rightarrow> False | Some n \<Rightarrow> P n) \<longleftrightarrow> (\<exists>xs. v = PList xs \<and> P (int (length xs)))"
  by (cases v) (simp_all add: list_len_def)

lemma strict_in_case:
  "strict_in v (case o' of None \<Rightarrow> [] | Some xs \<Rightarrow> xs) \<longleftrightarrow>
    (\<exists>xs. o' = Some xs \<and> (\<exists>x\<in>set xs. strict_equal v x))"
  by (cases o') (auto simp: strict_in_def list_ex_iff)

lemma str_case: "(case v of PStr s \<Rightarrow> P s | _ \<Rightarrow> False) \<longleftrightarrow> (\<exists>s. v = PStr s \<and> P s)"
  by (cases v) simp_all

lemma if_Some_None: "(if b then Some x else r) = None \<longleftrightarrow> \<not> b \<and> r = None"
  by simp

lemma check_constraint_None:
  "check_constraint fullmatch path v c = None \<longleftrightarrow> constraint_holds fullmatch v c"
  unfolding check_constraint_def constraint_holds_def if_Some_None violates_False
    str_len_case list_len_case strict_in_case str_case
  by blast

lemma check_constraints_None:
  "check_constraints fullmatch arguments cs = None \<longleftrightarrow>
    (\<forall>(path, c)\<in>set cs. \<forall>v.
       value_at (PDict arguments) (py_split (CHR ''.'') path) v \<longrightarrow> constraint_holds fullmatch v c)"
proof (induction cs)
  case (Cons pc cs)
  obtain path c where pc: "pc = (path, c)" by force
  obtain v b where r: "resolve_path arguments path = (v, b)" by force
  show ?case
  proof (cases b)
    case True
    with r have va: "value_at (PDict arguments) (py_split (CHR ''.'') path) v"
      by (simp add: resolve_path_value_at)
    then have "(\<forall>w. value_at (PDict arguments) (py_split (CHR ''.'') path) w
        \<longrightarrow> constraint_holds fullmatch w c) \<longleftrightarrow> constraint_holds fullmatch v c"
      using value_at_unique by blast
    then show ?thesis
      using Cons check_constraint_None [of fullmatch path v c] True
      by (auto simp: pc r split: option.split)
  next
    case False
    then have "\<not> value_at (PDict arguments) (py_split (CHR ''.'') path) w" for w
      using r by (simp flip: resolve_path_value_at)
    then show ?thesis using Cons False by (simp add: pc r)
  qed
qed simp


subsection \<open>Properties\<close>

text \<open>
  Default deny. A tool policy is resolved exactly when the policy has a rule for that principal
  and that exact tool name whose effect is \<open>allow\<close>; an unknown principal, a tool without a rule
  and an explicit \<open>deny\<close> all give nothing.
\<close>

lemma resolve_default_deny:
  "resolve_tool_policy policy prin tool =
    (case tool_rule policy prin tool of
       Some tp \<Rightarrow> (if tp_effect tp = Allow then Some tp else None) | None \<Rightarrow> None)"
  by (auto simp: resolve_tool_policy_def tool_rule_def split: option.split)

lemma known_field_iff:
  "n \<in> set (known_top_level_fields tp) \<longleftrightarrow>
    n \<in> set (tp_required tp) \<or> n \<in> set (tp_forbidden tp) \<or>
    (\<exists>path\<in>set (dict_keys (tp_arguments tp)). hd (py_split (CHR ''.'') path) = n)"
  by (auto simp: known_top_level_fields_def py_split_hd)

lemma evaluate_None_iff:
  "evaluate_argument_policy fullmatch tp arguments = None \<longleftrightarrow> args_satisfy fullmatch tp arguments"
proof -
  have key: "x \<in> set (dict_keys arguments) \<longleftrightarrow> dict_in x arguments" for x
    by (simp add: dict_in_keys)
  show ?thesis
    unfolding evaluate_argument_policy_def args_satisfy_def check_constraints_None [symmetric]
      known_field_iff [symmetric]
    by (auto simp: find_None_all key split: option.split if_splits)
      (metis find_None_all key not_Some_eq)+
qed

text \<open>
  C22: Evaluating a tool policy on arguments reports no violation exactly when the arguments satisfy
  its declarative reading: every required name present, no forbidden name present, no name outside
  the known ones if unknown names are denied, and every constraint holds of the value at its path,
  where the path leads to one.
\<close>

theorem evaluate_decides:
  "evaluate_argument_policy fullmatch tp arguments = None \<longleftrightarrow> args_satisfy fullmatch tp arguments"
  by (rule evaluate_None_iff)

lemma py_split_nodot: "CHR ''.'' \<notin> set n \<Longrightarrow> py_split (CHR ''.'') n = [n]"
  using py_split_join [of "[n]" "CHR ''.''"] by simp

text \<open>
  Enforcement. If the evaluation reports no violation, every argument that the policy both
  requires and constrains is present and its value, as sent, satisfies the constraint.
\<close>

lemma evaluate_enforces:
  assumes "evaluate_argument_policy fullmatch tp arguments = None"
    and "n \<in> set (tp_required tp)" and "(n, c) \<in> set (tp_arguments tp)"
    and "CHR ''.'' \<notin> set n"
  shows "\<exists>v. dict_get arguments n = Some v \<and> constraint_holds fullmatch v c"
proof -
  from assms(1) have sat: "args_satisfy fullmatch tp arguments" by (simp only: evaluate_None_iff)
  with assms(2) obtain v where v: "dict_get arguments n = Some v"
    by (auto simp: args_satisfy_def dict_in_get)
  then have "value_at (PDict arguments) (py_split (CHR ''.'') n) v"
    using assms(4) by (auto simp: py_split_nodot intro: value_at.intros)
  with sat assms(3) v show ?thesis by (fastforce simp: args_satisfy_def)
qed

definition demo_constraint :: argument_constraint where
  "demo_constraint =
     \<lparr>ac_fields_set = [''min'', ''max''], ac_equals = PNone, ac_in = None,
      ac_min = Some (Fin 1), ac_max = Some (Fin 100), ac_min_length = None, ac_max_length = None,
      ac_min_items = None, ac_max_items = None, ac_pattern = None\<rparr>"

definition demo_tool :: tool_policy where
  "demo_tool =
     \<lparr>tp_effect = Allow, tp_required = [''limit''], tp_forbidden = [], tp_deny_unknown = True,
      tp_arguments = [(''limit'', demo_constraint)]\<rparr>"

lemma demo_evaluates: "evaluate_argument_policy (\<lambda>_ _. False) demo_tool [(''limit'', PInt 10)] = None"
  by code_simp

text \<open>
  C30: No coercion. A numeric bound holds only of an \<open>int\<close> or a \<open>float\<close> (never of a \<open>bool\<close> or a
  numeric string), a length bound or a pattern only of a \<open>str\<close>, an item bound only of a \<open>list\<close>.
\<close>

theorem constraints_do_not_coerce:
  assumes "check_constraint fullmatch path v c = None"
  shows "(ac_min c \<noteq> None \<or> ac_max c \<noteq> None \<longrightarrow> type_of v \<in> {TInt, TFloat}) \<and>
    (ac_min_length c \<noteq> None \<or> ac_max_length c \<noteq> None \<or> ac_pattern c \<noteq> None \<longrightarrow> type_of v = TStr) \<and>
    (ac_min_items c \<noteq> None \<or> ac_max_items c \<noteq> None \<longrightarrow> type_of v = TList)"
proof -
  have num: "is_number v \<Longrightarrow> type_of v \<in> {TInt, TFloat}"
    by (cases v) (simp_all add: is_number_def)
  from assms have "constraint_holds fullmatch v c" by (simp only: check_constraint_None)
  then show ?thesis using num by (auto simp: constraint_holds_def)
qed

theorem constraints_do_not_coerce_witness:
  "ac_min demo_constraint \<noteq> None \<and> type_of (PInt 10) \<in> {TInt, TFloat}"
proof -
  have "check_constraint (\<lambda>_ _. False) ''limit'' (PInt 10) demo_constraint = None" by code_simp
  from constraints_do_not_coerce [OF this] show ?thesis by (simp add: demo_constraint_def)
qed

text \<open>Scalars: every value that is not a container.\<close>

definition is_scalar :: "pyval \<Rightarrow> bool" where
  "is_scalar v = (type_of v \<in> {TNone, TBool, TInt, TFloat, TStr})"

text \<open>
  On scalars strict equality is identity of type and value: \<open>100\<close>, \<open>"100"\<close>, \<open>100.0\<close>, \<open>True\<close>
  and \<open>1\<close> are pairwise different (NaN alone differs from itself).
\<close>

lemma strict_equal_scalar:
  "is_scalar a \<Longrightarrow> strict_equal a b \<longleftrightarrow> a = b \<and> a \<noteq> PFloat NaN"
proof -
  have fe: "f_eq x y \<longleftrightarrow> x = y \<and> x \<noteq> NaN" for x y by (cases x; cases y) auto
  show "is_scalar a \<Longrightarrow> ?thesis"
    by (cases a; cases b) (auto simp: is_scalar_def strict_equal_def fe)
qed


text \<open>
  Schema validation returns instead of raising for every outcome of \<open>jsonschema.validate\<close> but
  an exception that is not an \<open>Exception\<close>, and reports no violation exactly if there is no schema
  or the validation succeeded: a broken upstream schema rejects the call, it does not crash it.
\<close>

lemma schema_validation_total:
  "(\<forall>schema e. input_schema = Some schema \<longrightarrow>
      js (PDict arguments) schema = JsRaise e \<longrightarrow> is_exception e) \<Longrightarrow>
   (\<exists>r. validate_input_schema js input_schema arguments = Inr r \<and>
     (r = None \<longleftrightarrow> input_schema = None \<or>
        (\<exists>schema. input_schema = Some schema \<and> js (PDict arguments) schema = JsValid)))"
  by (auto simp: validate_input_schema_def split: option.split js_outcome.split)

end
