(* ===== verification/Identity.thy ===== *)
theory Identity
  imports PyValue
begin

text \<open>
  Bearer authentication: sentinelmcp/gateway/identity.py. \<open>IdentityResolver\<close> is its digest
  dictionary, built by the constructor's loop (\<open>bind_keys\<close>) and read by \<open>resolve\<close>;
  \<open>BearerAuthMiddleware.__call__\<close> is \<open>middleware_call\<close>, over an ASGI application that reads and
  writes a world and the context variable holding the principal. Header bytes are characters
  (decoding Latin-1 is the identity on them); SHA-256 is the parameter \<open>sha\<close>, from bytes to hex
  digests; \<open>env\<close> is \<open>os.environ.get\<close>.
\<close>

subsection \<open>IdentityResolver\<close>

definition IdentityConfigError :: "string \<Rightarrow> exn" where
  "IdentityConfigError m = Exc ''IdentityConfigError'' m"

type_synonym identity_resolver = "string pydict"  \<comment> \<open>\<open>_digest_to_principal\<close>\<close>

text \<open>The loop of \<open>__init__\<close> over \<open>principal_key_env.items()\<close>.\<close>

fun bind_keys ::
  "(string \<Rightarrow> string) \<Rightarrow> (string \<Rightarrow> string option) \<Rightarrow> string pydict \<Rightarrow> identity_resolver
    \<Rightarrow> identity_resolver res" where
  "bind_keys sha env [] digests = Inr digests"
| "bind_keys sha env ((prin, env_var) # rest) digests =
     (case env env_var of
        None \<Rightarrow> Inl (IdentityConfigError (''principal '' @ py_repr prin @
          '' references environment variable '' @ py_repr env_var @
          '', which is not set (or is empty)''))
      | Some key \<Rightarrow>
          if key = []
          then Inl (IdentityConfigError (''principal '' @ py_repr prin @
            '' references environment variable '' @ py_repr env_var @
            '', which is not set (or is empty)''))
          else
            (let digest = sha (utf8_encode key) in
             case dict_get digests digest of
               Some existing \<Rightarrow> Inl (IdentityConfigError (''principals '' @ py_repr existing @
                 '' and '' @ py_repr prin @ '' resolve to the same API key (via '' @
                 py_repr env_var @ ''); each principal must have a distinct key''))
             | None \<Rightarrow> bind_keys sha env rest (dict_set digests digest prin)))"

definition make_resolver ::
  "(string \<Rightarrow> string) \<Rightarrow> (string \<Rightarrow> string option) \<Rightarrow> string pydict \<Rightarrow> identity_resolver res" where
  "make_resolver sha env principal_key_env = bind_keys sha env principal_key_env []"

definition resolve :: "(string \<Rightarrow> string) \<Rightarrow> identity_resolver \<Rightarrow> string list \<Rightarrow> string option" where
  "resolve sha digests authorization_values =
     (if length authorization_values \<noteq> 1 then None
      else
        (case py_partition (CHR '' '') (hd authorization_values) of
           (scheme, _, token) \<Rightarrow>
             if scheme \<noteq> ''Bearer'' \<or> token = [] then None
             else dict_get digests (sha (utf8_encode token))))"


subsection \<open>BearerAuthMiddleware\<close>

record scope =
  sc_type :: string
  sc_headers :: "(string \<times> string) list"

record response =
  rs_content :: string
  rs_status :: int
  rs_media_type :: string
  rs_headers :: "string pydict"

text \<open>
  An application runs on a world and the current value of \<open>_principal_var\<close>, and returns or raises.
\<close>

type_synonym 'w app = "scope \<Rightarrow> 'w \<times> string option \<Rightarrow> unit res \<times> ('w \<times> string option)"

text \<open>\<open>_UNAUTHENTICATED_BODY\<close>; \<open>INVALID_REQUEST\<close> comes from the SDK and is a parameter.\<close>

definition unauthenticated_body :: "int \<Rightarrow> string" where
  "unauthenticated_body invalid_request =
     ''{\"jsonrpc\": \"2.0\", \"id\": null, \"error\": {\"code\": '' @ int_str invalid_request @
     '', \"message\": \"Missing or invalid credentials\"}}''"

definition unauthenticated_response :: "int \<Rightarrow> response" where
  "unauthenticated_response invalid_request =
     \<lparr>rs_content = unauthenticated_body invalid_request, rs_status = 401,
      rs_media_type = ''application/json'',
      rs_headers = [(''WWW-Authenticate'', ''Bearer realm=\"sentinelmcp\"'')]\<rparr>"

definition authorization_values :: "scope \<Rightarrow> string list" where
  "authorization_values sc =
     map snd (filter (\<lambda>(name, value). py_lower name = ''authorization'') (sc_headers sc))"

text \<open>
  \<open>send\<close> is the delivery of a response, \<open>auth\<close> the resolver's \<open>resolve\<close>. \<open>_principal_var.set\<close>
  stores the principal; the \<open>finally\<close> resets the variable to the value it had, on every exit.
\<close>

definition middleware_call ::
  "(string list \<Rightarrow> string option) \<Rightarrow> (response \<Rightarrow> 'w \<Rightarrow> unit res \<times> 'w) \<Rightarrow> int \<Rightarrow> 'w app \<Rightarrow> 'w app" where
  "middleware_call auth send invalid_request app sc = (\<lambda>(w, var).
     if sc_type sc \<noteq> ''http'' then app sc (w, var)
     else
       (case auth (authorization_values sc) of
          None \<Rightarrow> (case send (unauthenticated_response invalid_request) w of (r, w') \<Rightarrow> (r, (w', var)))
        | Some prin \<Rightarrow> (case app sc (w, Some prin) of (r, (w', _)) \<Rightarrow> (r, (w', var)))))"

definition current_principal :: "string option \<Rightarrow> string res" where
  "current_principal var =
     (case var of
        None \<Rightarrow> Inl (RuntimeError ''current_principal() called with no authenticated principal in context'')
      | Some prin \<Rightarrow> Inr prin)"

text \<open>\<open>with authenticated_as(principal): body\<close>.\<close>

definition authenticated_as ::
  "string \<Rightarrow> ('w \<times> string option \<Rightarrow> 'a res \<times> ('w \<times> string option))
    \<Rightarrow> 'w \<times> string option \<Rightarrow> 'a res \<times> ('w \<times> string option)" where
  "authenticated_as prin body = (\<lambda>(w, var).
     case body (w, Some prin) of (r, (w', _)) \<Rightarrow> (r, (w', var)))"


subsection \<open>What the constructor builds\<close>

definition key_digest :: "(string \<Rightarrow> string) \<Rightarrow> (string \<Rightarrow> string option) \<Rightarrow> string \<Rightarrow> string option" where
  "key_digest sha env env_var =
     (case env env_var of None \<Rightarrow> None | Some key \<Rightarrow> if key = [] then None else Some (sha (utf8_encode key)))"

definition item_digests ::
  "(string \<Rightarrow> string) \<Rightarrow> (string \<Rightarrow> string option) \<Rightarrow> string pydict \<Rightarrow> string option list" where
  "item_digests sha env items = map (\<lambda>(_, ev). key_digest sha env ev) items"

lemma item_digests_Cons:
  "item_digests sha env ((p, ev) # items) = key_digest sha env ev # item_digests sha env items"
  by (simp add: item_digests_def)

text \<open>Every principal's variable is set and the digests are pairwise distinct.\<close>

definition keys_usable ::
  "(string \<Rightarrow> string) \<Rightarrow> (string \<Rightarrow> string option) \<Rightarrow> string pydict \<Rightarrow> bool" where
  "keys_usable sha env items =
     (list_all (\<lambda>d. d \<noteq> None) (item_digests sha env items) \<and> distinct (item_digests sha env items))"

lemma keys_usable_Nil [simp]: "keys_usable sha env []"
  by (simp add: keys_usable_def item_digests_def)

lemma keys_usable_Cons:
  "keys_usable sha env ((p, ev) # items) \<longleftrightarrow>
    (\<exists>d. key_digest sha env ev = Some d \<and> Some d \<notin> set (item_digests sha env items)) \<and>
    keys_usable sha env items"
  by (auto simp: keys_usable_def item_digests_Cons)

lemma bind_keys_step:
  "bind_keys sha env ((prin, ev) # rest) digests = Inr m \<longleftrightarrow>
    (\<exists>d. key_digest sha env ev = Some d \<and> dict_get digests d = None \<and>
       bind_keys sha env rest (dict_set digests d prin) = Inr m)"
  by (auto simp: key_digest_def Let_def split: option.splits)

lemma bind_keys_lookup:
  "bind_keys sha env items digests = Inr m \<Longrightarrow>
    dict_get m d = Some prin \<longleftrightarrow>
      dict_get digests d = Some prin \<or> (\<exists>ev. (prin, ev) \<in> set items \<and> key_digest sha env ev = Some d)"
proof (induction items arbitrary: digests)
  case (Cons it items)
  obtain p ev where it: "it = (p, ev)" by force
  from Cons.prems obtain d' where d': "key_digest sha env ev = Some d'" "dict_get digests d' = None"
    "bind_keys sha env items (dict_set digests d' p) = Inr m"
    unfolding it bind_keys_step by blast
  from Cons.IH [OF d'(3)] d'(1,2) show ?case by (auto simp: it split: if_splits)
qed simp

lemma bind_keys_ok_iff:
  "(\<exists>m. bind_keys sha env items digests = Inr m) \<longleftrightarrow>
    keys_usable sha env items \<and>
    (\<forall>d. Some d \<in> set (item_digests sha env items) \<longrightarrow> dict_get digests d = None)"
proof (induction items arbitrary: digests)
  case (Cons it items)
  obtain p ev where it: "it = (p, ev)" by force
  show ?case
  proof (cases "key_digest sha env ev")
    case None
    then show ?thesis by (simp add: it bind_keys_step keys_usable_Cons del: bind_keys.simps)
  next
    case (Some d)
    have ds: "item_digests sha env ((p, ev) # items) = Some d # item_digests sha env items"
      by (simp add: item_digests_def Some)
    have "(\<exists>m. bind_keys sha env (it # items) digests = Inr m) \<longleftrightarrow>
        dict_get digests d = None \<and> keys_usable sha env items \<and>
        (\<forall>d'. Some d' \<in> set (item_digests sha env items) \<longrightarrow>
           dict_get (dict_set digests d p) d' = None)"
      unfolding it bind_keys_step using Some Cons.IH [of "dict_set digests d p"] by auto
    also have "\<dots> \<longleftrightarrow> keys_usable sha env (it # items) \<and>
        (\<forall>d. Some d \<in> set (item_digests sha env (it # items)) \<longrightarrow> dict_get digests d = None)"
      by (auto simp: it ds keys_usable_Cons Some split: if_splits)
    finally show ?thesis .
  qed
qed (simp add: item_digests_def)


subsection \<open>The authenticator as an interface\<close>

text \<open>
  What the middleware relies on: a list of Authorization values is accepted for a principal only if
  it is the single value \<open>Bearer <token>\<close> with a non-empty token that is bound to that principal,
  and no token is bound to two principals.
\<close>

locale authenticator =
  fixes auth :: "string list \<Rightarrow> string option"
    and bound :: "string \<Rightarrow> string \<Rightarrow> bool"
  assumes auth_iff: "auth vals = Some prin \<longleftrightarrow>
      (\<exists>token. vals = [''Bearer '' @ token] \<and> token \<noteq> [] \<and> bound prin token)"
begin

lemma auth_none: "vals = [] \<or> tl vals \<noteq> [] \<Longrightarrow> auth vals = None"
proof (cases "auth vals")
  case (Some prin)
  then obtain token where "vals = [''Bearer '' @ token]" using auth_iff by blast
  then show "vals = [] \<or> tl vals \<noteq> [] \<Longrightarrow> ?thesis" by simp
qed simp

lemma bound_unique: "bound p token \<Longrightarrow> bound q token \<Longrightarrow> token \<noteq> [] \<Longrightarrow> p = q"
  using auth_iff [of "[''Bearer '' @ token]"] by (metis option.inject)

text \<open>The application matters only to an authenticated request, and then only as its principal.\<close>

lemma middleware_noninterference:
  assumes "sc_type sc = ''http''"
    and "middleware_call auth send ir app sc (w, var) \<noteq> middleware_call auth send ir app' sc (w, var)"
  shows "\<exists>prin token. authorization_values sc = [''Bearer '' @ token] \<and> token \<noteq> [] \<and>
    bound prin token \<and> app sc (w, Some prin) \<noteq> app' sc (w, Some prin)"
proof (cases "auth (authorization_values sc)")
  case None
  with assms show ?thesis by (simp add: middleware_call_def)
next
  case (Some prin)
  with assms have "app sc (w, Some prin) \<noteq> app' sc (w, Some prin)"
    by (auto simp: middleware_call_def)
  with Some auth_iff [of "authorization_values sc" prin] show ?thesis by auto
qed

lemma middleware_restores_context:
  "sc_type sc = ''http'' \<Longrightarrow> snd (snd (middleware_call auth send ir app sc (w, var))) = var"
  by (auto simp: middleware_call_def split: option.split prod.split)

end

text \<open>The gateway's authenticator: the resolver built from the policy's bindings, if it starts.\<close>

definition key_auth ::
  "(string \<Rightarrow> string) \<Rightarrow> (string \<Rightarrow> string option) \<Rightarrow> string pydict \<Rightarrow> string list \<Rightarrow> string option" where
  "key_auth sha env items vals =
     (case make_resolver sha env items of Inl _ \<Rightarrow> None | Inr digests \<Rightarrow> resolve sha digests vals)"

definition key_bound ::
  "(string \<Rightarrow> string) \<Rightarrow> (string \<Rightarrow> string option) \<Rightarrow> string pydict \<Rightarrow> string \<Rightarrow> string \<Rightarrow> bool" where
  "key_bound sha env items prin token =
     (keys_usable sha env items \<and>
      list_ex (\<lambda>(p, ev). p = prin \<and> key_digest sha env ev = Some (sha (utf8_encode token))) items)"

lemma make_resolver_ok: "(\<exists>m. make_resolver sha env items = Inr m) \<longleftrightarrow> keys_usable sha env items"
  by (simp add: make_resolver_def bind_keys_ok_iff)

lemma resolve_Some_iff:
  "resolve sha digests vals = Some prin \<longleftrightarrow>
    (\<exists>token. vals = [''Bearer '' @ token] \<and> token \<noteq> [] \<and>
       dict_get digests (sha (utf8_encode token)) = Some prin)"
proof
  assume "resolve sha digests vals = Some prin"
  then obtain v m token where v: "vals = [v]"
    and p: "py_partition (CHR '' '') v = (''Bearer'', m, token)" and t: "token \<noteq> []"
    and g: "dict_get digests (sha (utf8_encode token)) = Some prin"
    by (auto simp: resolve_def length_Suc_conv split: if_splits prod.splits)
  from py_partition_eq [OF p t] have "v = ''Bearer '' @ token" by simp
  with v t g show "\<exists>token. vals = [''Bearer '' @ token] \<and> token \<noteq> [] \<and>
       dict_get digests (sha (utf8_encode token)) = Some prin" by blast
next
  have "py_partition (CHR '' '') (''Bearer '' @ token) = (''Bearer'', '' '', token)" for token
    using py_partition_append [of "CHR '' ''" "''Bearer''" token] by simp
  then show "\<exists>token. vals = [''Bearer '' @ token] \<and> token \<noteq> [] \<and>
       dict_get digests (sha (utf8_encode token)) = Some prin
     \<Longrightarrow> resolve sha digests vals = Some prin"
    by (auto simp: resolve_def simp del: append.simps)
qed

lemma key_auth_iff:
  "key_auth sha env items vals = Some prin \<longleftrightarrow>
    (\<exists>token. vals = [''Bearer '' @ token] \<and> token \<noteq> [] \<and> key_bound sha env items prin token)"
proof (cases "make_resolver sha env items")
  case (Inl e)
  then have "\<not> keys_usable sha env items" using make_resolver_ok [of sha env items] by auto
  with Inl show ?thesis by (simp add: key_auth_def key_bound_def)
next
  case (Inr m)
  then have "keys_usable sha env items" using make_resolver_ok by blast
  moreover have "dict_get m d = Some prin \<longleftrightarrow>
      (\<exists>ev. (prin, ev) \<in> set items \<and> key_digest sha env ev = Some d)" for d
    using bind_keys_lookup [OF Inr [unfolded make_resolver_def]] by simp
  ultimately show ?thesis
    by (fastforce simp: key_auth_def Inr resolve_Some_iff key_bound_def list_ex_iff)
qed

interpretation keys: authenticator "key_auth sha env items" "key_bound sha env items"
  for sha env items
  by unfold_locales (rule key_auth_iff)



subsection \<open>Properties\<close>

text \<open>
  Startup fails closed. The constructor succeeds exactly when every principal's environment
  variable is set and non-empty and no two principals' keys have the same digest; otherwise it
  raises \<open>IdentityConfigError\<close>.
\<close>

lemma resolver_startup:
  "(if keys_usable sha env items then \<exists>digests. make_resolver sha env items = Inr digests
    else \<exists>m. make_resolver sha env items = Inl (IdentityConfigError m))"
proof (cases "keys_usable sha env items")
  case False
  have "bind_keys sha env its ds = Inl e \<Longrightarrow> \<exists>m. e = IdentityConfigError m" for its ds e
    by (induction its arbitrary: ds) (auto simp: Let_def split: option.splits if_splits)
  moreover obtain e where "make_resolver sha env items = Inl e"
    using False make_resolver_ok [of sha env items] by (cases "make_resolver sha env items") auto
  ultimately show ?thesis using False by (auto simp: make_resolver_def)
qed (simp add: make_resolver_ok)

text \<open>The keys that the environment holds for the configured principals.\<close>

definition configured_keys :: "(string \<Rightarrow> string option) \<Rightarrow> string pydict \<Rightarrow> string set" where
  "configured_keys env items = {key. \<exists>(_, ev)\<in>set items. env ev = Some key}"

lemma resolve_built:
  "make_resolver sha env items = Inr digests \<Longrightarrow>
    resolve sha digests vals = Some prin \<longleftrightarrow>
      (\<exists>token ev. vals = [''Bearer '' @ token] \<and> token \<noteq> [] \<and> (prin, ev) \<in> set items \<and>
         key_digest sha env ev = Some (sha (utf8_encode token)))"
  using bind_keys_lookup [where digests = "[]" and m = digests and prin = prin]
  by (auto simp: resolve_Some_iff make_resolver_def)

text \<open>
  C23: Authentication is exact. As long as SHA-256 does not collide on the presented token and the
  configured keys, one header \<open>Bearer <token>\<close> resolves to a principal exactly when the token is,
  character for character, the non-empty key configured for that principal; a missing header, a
  second header or another scheme resolves to nothing.
\<close>

theorem authentication_exact:
  assumes built: "make_resolver sha env items = Inr digests"
    and inj: "inj_on sha (utf8_encode ` insert token (configured_keys env items))"
  shows "(resolve sha digests [''Bearer '' @ token] = Some prin \<longleftrightarrow>
      token \<noteq> [] \<and> (\<exists>ev. (prin, ev) \<in> set items \<and> env ev = Some token)) \<and>
    ((\<nexists>t. t \<noteq> [] \<and> vals = [''Bearer '' @ t]) \<longrightarrow> resolve sha digests vals = None)"
proof
  have dig: "key_digest sha env ev = Some (sha (utf8_encode token)) \<longleftrightarrow> env ev = Some token"
    if "token \<noteq> []" "(prin, ev) \<in> set items" for ev
  proof -
    have "key = token" if "env ev = Some key" "sha (utf8_encode key) = sha (utf8_encode token)" for key
    proof -
      have "key \<in> configured_keys env items"
        using that \<open>(prin, ev) \<in> set items\<close> by (auto simp: configured_keys_def)
      then have "utf8_encode key = utf8_encode token"
        using inj_onD [OF inj that(2)] by blast
      then show ?thesis by (simp only: utf8_encode_inj)
    qed
    then show ?thesis using that by (auto simp: key_digest_def split: option.splits)
  qed
  show "resolve sha digests [''Bearer '' @ token] = Some prin \<longleftrightarrow>
      token \<noteq> [] \<and> (\<exists>ev. (prin, ev) \<in> set items \<and> env ev = Some token)"
    using dig by (auto simp: resolve_built [OF built])
  show "(\<nexists>t. t \<noteq> [] \<and> vals = [''Bearer '' @ t]) \<longrightarrow> resolve sha digests vals = None"
    using resolve_built [OF built] by (metis not_Some_eq)
qed

theorem authentication_exact_witness:
  "resolve id [(''k1'', ''alice'')] [''Bearer k1''] = Some ''alice'' \<and>
   resolve id [(''k1'', ''alice'')] [''Bearer k2''] = None \<and>
   resolve id [(''k1'', ''alice'')] [''Bearer k1'', ''Bearer k1''] = None"
proof -
  let ?env = "\<lambda>v. if v = ''KEY'' then Some ''k1'' else None"
  have b: "make_resolver id ?env [(''alice'', ''KEY'')] = Inr [(''k1'', ''alice'')]"
    by (simp add: make_resolver_def utf8_encode_def utf8_char_def dict_set_def)
  note exact = authentication_exact [OF b, where token = "''k1''" and prin = "''alice''"
      and vals = "[''Bearer k1'', ''Bearer k1'']"]
  note other = authentication_exact [OF b, where token = "''k2''" and vals = "[]"]
  have "resolve id [(''k1'', ''alice'')] [''Bearer k2''] \<noteq> Some p" for p
    using other [of p] by (auto simp: inj_on_def)
  with exact show ?thesis by (auto simp: inj_on_def)
qed

text \<open>
  A request that reaches the gateway as HTTP runs the application only if it carries exactly
  one \<open>Authorization: Bearer <token>\<close> whose token is bound to a configured principal, and then with
  that principal in the context; to every other request the application is irrelevant, whatever it
  would do.
\<close>

lemma application_runs_only_authenticated:
  assumes "sc_type sc = ''http''"
    and "middleware_call (key_auth sha env items) send ir app sc (w, var) \<noteq>
      middleware_call (key_auth sha env items) send ir app' sc (w, var)"
  shows "\<exists>prin token. authorization_values sc = [''Bearer '' @ token] \<and> token \<noteq> [] \<and>
    key_bound sha env items prin token \<and> app sc (w, Some prin) \<noteq> app' sc (w, Some prin)"
  using assms by (rule keys.middleware_noninterference)

text \<open>
  The context variable is restored on every exit of an HTTP request, returned, raised or
  rejected, so no principal leaks into the next request of the same context; and the variable the
  application starts from never comes from the surrounding context.
\<close>

lemma context_restored:
  assumes "sc_type sc = ''http''"
  shows "snd (snd (middleware_call (key_auth sha env items) send ir app sc (w, var))) = var \<and>
    fst (middleware_call (key_auth sha env items) send ir app sc (w, var)) =
      fst (middleware_call (key_auth sha env items) send ir app sc (w, var'))"
  using keys.middleware_restores_context [OF assms] assms
  by (auto simp: middleware_call_def split: option.split prod.split)

lemma utf8_char_length: "1 \<le> length (utf8_char c) \<and> (length (utf8_char c) = 1 \<longleftrightarrow> utf8_char c = [c])"
  by (simp add: utf8_char_def Let_def)

lemma utf8_encode_length:
  "length s \<le> length (utf8_encode s) \<and> (length (utf8_encode s) = length s \<longrightarrow> utf8_encode s = s)"
proof (induction s)
  case (Cons c s)
  then show ?case using utf8_char_length [of c] by (auto simp: utf8_encode_def)
qed (simp add: utf8_encode_def)

lemma utf8_encode_double: "utf8_encode s \<noteq> s \<Longrightarrow> utf8_encode (utf8_encode s) \<noteq> utf8_encode s"
  by (simp add: utf8_encode_inj)



end
