(* ===== verification/GatewayLimits.thy ===== *)
theory GatewayLimits
  imports PyFloat
begin

text \<open>
  Rate limiting and concurrency control: sentinelmcp/gateway/limits.py. Clock readings are
  arguments, in the order the code reads the clock. The critical sections of the three classes
  contain no \<open>await\<close>, so an \<open>asyncio.Lock\<close> around them is never contended and each operation is
  one atomic step: a function from the old state to the new one.

  The locale \<open>slot_pool\<close> is the contract of the concurrency limiter that the bridge uses (a slot
  is granted below the ceiling only, a release gives back what an acquisition took);
  \<open>bounded_rounding\<close> extends \<open>rounding\<close> by an error bound and carries the token accounting.
\<close>

subsection \<open>TokenBucket\<close>

record token_bucket =
  tb_capacity :: pyfloat
  tb_refill_rate :: pyfloat
  tb_tokens :: pyfloat
  tb_last_refill :: pyfloat

definition make_bucket :: "pyfloat \<Rightarrow> pyfloat \<Rightarrow> pyfloat \<Rightarrow> token_bucket res" where
  "make_bucket capacity refill_rate now =
     (if f_le capacity (Fin 0) then Inl (ValueError ''capacity must be positive'')
      else if f_le refill_rate (Fin 0) then Inl (ValueError ''refill_rate must be positive'')
      else Inr \<lparr>tb_capacity = capacity, tb_refill_rate = refill_rate,
                tb_tokens = capacity, tb_last_refill = now\<rparr>)"

text \<open>The refill computed at the start of \<open>try_consume\<close> and by \<open>available_tokens\<close>.\<close>

definition refilled :: "token_bucket \<Rightarrow> pyfloat \<Rightarrow> pyfloat" where
  "refilled b now =
     (let elapsed = py_max (Fin 0) (f_sub now (tb_last_refill b))
      in py_min (tb_capacity b) (f_add (tb_tokens b) (f_mul elapsed (tb_refill_rate b))))"

definition try_consume :: "pyfloat \<Rightarrow> pyfloat \<Rightarrow> token_bucket \<Rightarrow> bool \<times> token_bucket" where
  "try_consume amount now b =
     (let b1 = b\<lparr>tb_tokens := refilled b now, tb_last_refill := now\<rparr>
      in if f_le amount (tb_tokens b1)
         then (True, b1\<lparr>tb_tokens := f_sub (tb_tokens b1) amount\<rparr>)
         else (False, b1))"

definition available_tokens :: "pyfloat \<Rightarrow> token_bucket \<Rightarrow> pyfloat" where
  "available_tokens now b = refilled b now"

text \<open>A sequence of \<open>try_consume()\<close> calls (the default amount is 1.0) at the given times.\<close>

fun bucket_run :: "token_bucket \<Rightarrow> pyfloat list \<Rightarrow> bool list \<times> token_bucket" where
  "bucket_run b [] = ([], b)"
| "bucket_run b (now # ts) =
     (case try_consume (Fin 1) now b of (ok, b') \<Rightarrow>
        (case bucket_run b' ts of (oks, b'') \<Rightarrow> (ok # oks, b'')))"


subsection \<open>RateLimiter\<close>

record rate_limiter =
  rl_capacity :: pyfloat
  rl_refill_rate :: pyfloat
  rl_buckets :: "token_bucket pydict"

definition make_rate_limiter :: "pyfloat \<Rightarrow> pyfloat \<Rightarrow> rate_limiter" where
  "make_rate_limiter capacity refill_rate =
     \<lparr>rl_capacity = capacity, rl_refill_rate = refill_rate, rl_buckets = []\<rparr>"

definition bucket_for ::
  "string \<Rightarrow> pyfloat \<Rightarrow> rate_limiter \<Rightarrow> token_bucket res \<times> rate_limiter" where
  "bucket_for prin now rl =
     (case dict_get (rl_buckets rl) prin of
        Some b \<Rightarrow> (Inr b, rl)
      | None \<Rightarrow>
          (case make_bucket (rl_capacity rl) (rl_refill_rate rl) now of
             Inl e \<Rightarrow> (Inl e, rl)
           | Inr b \<Rightarrow> (Inr b, rl\<lparr>rl_buckets := dict_set (rl_buckets rl) prin b\<rparr>)))"

text \<open>
  \<open>now0\<close> is the reading a new bucket starts from (unused if there is one), \<open>now\<close> the reading of
  \<open>try_consume\<close>. The bucket object is shared with the dictionary, so its update is stored there.
\<close>

definition rate_try_acquire ::
  "string \<Rightarrow> pyfloat \<Rightarrow> pyfloat \<Rightarrow> rate_limiter \<Rightarrow> bool res \<times> rate_limiter" where
  "rate_try_acquire prin now0 now rl =
     (case bucket_for prin now0 rl of
        (Inl e, rl') \<Rightarrow> (Inl e, rl')
      | (Inr b, rl') \<Rightarrow>
          (case try_consume (Fin 1) now b of (ok, b') \<Rightarrow>
             (Inr ok, rl'\<lparr>rl_buckets := dict_set (rl_buckets rl') prin b'\<rparr>)))"

text \<open>A sequence of attempts by any principals, each with its two clock readings.\<close>

fun rate_run ::
  "rate_limiter \<Rightarrow> (string \<times> pyfloat \<times> pyfloat) list \<Rightarrow> (string \<times> bool res) list \<times> rate_limiter" where
  "rate_run rl [] = ([], rl)"
| "rate_run rl ((prin, now0, now) # es) =
     (case rate_try_acquire prin now0 now rl of (ok, rl') \<Rightarrow>
        (case rate_run rl' es of (oks, rl'') \<Rightarrow> ((prin, ok) # oks, rl'')))"


subsection \<open>ConcurrencyLimiter\<close>

record concurrency_limiter =
  cl_max_concurrent :: int
  cl_active :: "int pydict"
  cl_peak :: "int pydict"

definition make_concurrency_limiter :: "int \<Rightarrow> concurrency_limiter res" where
  "make_concurrency_limiter max_concurrent =
     (if max_concurrent \<le> 0 then Inl (ValueError ''max_concurrent must be positive'')
      else Inr \<lparr>cl_max_concurrent = max_concurrent, cl_active = [], cl_peak = []\<rparr>)"

definition slot_try_acquire :: "string \<Rightarrow> concurrency_limiter \<Rightarrow> bool \<times> concurrency_limiter" where
  "slot_try_acquire prin cl =
     (let current = dict_get_or (cl_active cl) prin 0
      in if cl_max_concurrent cl \<le> current then (False, cl)
         else
           (let current' = current + 1;
                cl1 = cl\<lparr>cl_active := dict_set (cl_active cl) prin current'\<rparr>
            in (True, if dict_get_or (cl_peak cl1) prin 0 < current'
                      then cl1\<lparr>cl_peak := dict_set (cl_peak cl1) prin current'\<rparr> else cl1)))"

definition slot_release :: "string \<Rightarrow> concurrency_limiter \<Rightarrow> concurrency_limiter" where
  "slot_release prin cl =
     (let current = dict_get_or (cl_active cl) prin 0
      in cl\<lparr>cl_active := dict_set (cl_active cl) prin (max 0 (current - 1))\<rparr>)"

definition active_count :: "concurrency_limiter \<Rightarrow> string \<Rightarrow> int" where
  "active_count cl prin = dict_get_or (cl_active cl) prin 0"

definition peak_count :: "concurrency_limiter \<Rightarrow> string \<Rightarrow> int" where
  "peak_count cl prin = dict_get_or (cl_peak cl) prin 0"

text \<open>
  \<open>async with limiter.acquire(prin) as acquired: body\<close>: the body runs whether or not a slot was
  acquired; the slot is given back on every exit.
\<close>

definition with_slot ::
  "string \<Rightarrow> (bool \<Rightarrow> 'w \<times> concurrency_limiter \<Rightarrow> 'a res \<times> ('w \<times> concurrency_limiter))
    \<Rightarrow> 'w \<times> concurrency_limiter \<Rightarrow> 'a res \<times> ('w \<times> concurrency_limiter)" where
  "with_slot prin body = (\<lambda>(w, cl).
     case slot_try_acquire prin cl of (acquired, cl1) \<Rightarrow>
       (case body acquired (w, cl1) of (r, (w', cl2)) \<Rightarrow>
          (r, (w', if acquired then slot_release prin cl2 else cl2))))"

text \<open>A sequence of operations of any callers.\<close>

datatype slot_op = Acquire string | Release string

fun slot_step :: "slot_op \<Rightarrow> concurrency_limiter \<Rightarrow> concurrency_limiter" where
  "slot_step (Acquire p) cl = snd (slot_try_acquire p cl)"
| "slot_step (Release p) cl = slot_release p cl"

fun slot_run :: "concurrency_limiter \<Rightarrow> slot_op list \<Rightarrow> concurrency_limiter" where
  "slot_run cl [] = cl"
| "slot_run cl (x # xs) = slot_run (slot_step x cl) xs"



subsection \<open>The contract of a pool of slots\<close>

locale slot_pool =
  fixes acquire :: "'k \<Rightarrow> 's \<Rightarrow> bool \<times> 's"
    and release :: "'k \<Rightarrow> 's \<Rightarrow> 's"
    and active :: "'s \<Rightarrow> 'k \<Rightarrow> int"
    and ceiling_of :: "'s \<Rightarrow> int"
  assumes acquire_granted: "fst (acquire k s) \<longleftrightarrow> active s k < ceiling_of s"
    and acquire_active: "active (snd (acquire k s)) j =
      (if j = k \<and> active s k < ceiling_of s then active s j + 1 else active s j)"
    and acquire_ceiling: "ceiling_of (snd (acquire k s)) = ceiling_of s"
    and release_active: "active (release k s) j =
      (if j = k then max 0 (active s j - 1) else active s j)"
    and release_ceiling: "ceiling_of (release k s) = ceiling_of s"
begin

lemma acquire_within:
  "0 \<le> active s j \<and> active s j \<le> ceiling_of s \<Longrightarrow>
    0 \<le> active (snd (acquire k s)) j \<and>
    active (snd (acquire k s)) j \<le> ceiling_of (snd (acquire k s))"
  by (auto simp: acquire_active acquire_ceiling)

lemma release_within:
  "0 \<le> active s j \<and> active s j \<le> ceiling_of s \<Longrightarrow>
    0 \<le> active (release k s) j \<and> active (release k s) j \<le> ceiling_of (release k s)"
  by (auto simp: release_active release_ceiling)

text \<open>A granted slot, given back, leaves every count as it was.\<close>

lemma release_undoes:
  "fst (acquire k s) \<Longrightarrow> 0 \<le> active s k \<Longrightarrow> active (release k (snd (acquire k s))) j = active s j"
  by (simp add: acquire_granted acquire_active release_active)

lemma refusal_changes_nothing: "\<not> fst (acquire k s) \<Longrightarrow> active (snd (acquire k s)) j = active s j"
  by (simp add: acquire_granted acquire_active)

end

lemma slot_try_acquire_granted: "fst (slot_try_acquire p cl) \<longleftrightarrow> active_count cl p < cl_max_concurrent cl"
  by (simp add: slot_try_acquire_def Let_def active_count_def)

lemma slot_try_acquire_active:
  "active_count (snd (slot_try_acquire p cl)) q =
    (if q = p \<and> active_count cl p < cl_max_concurrent cl then active_count cl q + 1
     else active_count cl q)"
  by (simp add: slot_try_acquire_def Let_def active_count_def)

lemma slot_try_acquire_peak:
  "peak_count (snd (slot_try_acquire p cl)) q =
    (if q = p \<and> active_count cl p < cl_max_concurrent cl
     then max (peak_count cl q) (active_count cl q + 1) else peak_count cl q)"
  by (simp add: slot_try_acquire_def Let_def active_count_def peak_count_def)

lemma slot_try_acquire_max [simp]:
  "cl_max_concurrent (snd (slot_try_acquire p cl)) = cl_max_concurrent cl"
  by (simp add: slot_try_acquire_def Let_def)

lemma slot_release_active:
  "active_count (slot_release p cl) q = (if q = p then max 0 (active_count cl q - 1) else active_count cl q)"
  by (simp add: slot_release_def Let_def active_count_def)

lemma slot_release_peak [simp]: "peak_count (slot_release p cl) q = peak_count cl q"
  by (simp add: slot_release_def Let_def peak_count_def)

lemma slot_release_max [simp]: "cl_max_concurrent (slot_release p cl) = cl_max_concurrent cl"
  by (simp add: slot_release_def Let_def)

interpretation slots: slot_pool slot_try_acquire slot_release active_count cl_max_concurrent
  by unfold_locales
    (simp_all add: slot_try_acquire_granted slot_try_acquire_active slot_release_active)


subsection \<open>Concurrency: ceiling, peak and release\<close>

text \<open>The states that a sequence of operations passes through, the first one included.\<close>

fun slot_trace :: "concurrency_limiter \<Rightarrow> slot_op list \<Rightarrow> concurrency_limiter list" where
  "slot_trace cl [] = [cl]"
| "slot_trace cl (x # xs) = cl # slot_trace (slot_step x cl) xs"

definition limiter_inv :: "concurrency_limiter \<Rightarrow> bool" where
  "limiter_inv cl \<longleftrightarrow>
     (\<forall>p. 0 \<le> active_count cl p \<and> active_count cl p \<le> peak_count cl p \<and>
          peak_count cl p \<le> cl_max_concurrent cl)"

lemma limiter_invD:
  assumes "limiter_inv cl"
  shows "0 \<le> active_count cl p" "active_count cl p \<le> peak_count cl p"
    "peak_count cl p \<le> cl_max_concurrent cl" "0 \<le> peak_count cl p"
  using assms by (auto simp: limiter_inv_def intro: order_trans)

lemma limiter_inv_init: "make_concurrency_limiter m = Inr cl \<Longrightarrow> limiter_inv cl"
  by (auto simp: make_concurrency_limiter_def limiter_inv_def active_count_def peak_count_def
      dict_get_or_def split: if_splits)

lemma fresh_limiter:
  assumes "make_concurrency_limiter m = Inr cl"
  shows "limiter_inv cl" "cl_max_concurrent cl = m" "active_count cl p = 0" "0 < m"
  using limiter_inv_init [OF assms] assms
  by (auto simp: make_concurrency_limiter_def active_count_def dict_get_or_def split: if_splits)

lemma limiter_inv_step: "limiter_inv cl \<Longrightarrow> limiter_inv (slot_step x cl)"
  unfolding limiter_inv_def
proof
  fix q
  assume "\<forall>p. 0 \<le> active_count cl p \<and> active_count cl p \<le> peak_count cl p \<and>
    peak_count cl p \<le> cl_max_concurrent cl"
  then have "0 \<le> active_count cl q" "active_count cl q \<le> peak_count cl q"
    "peak_count cl q \<le> cl_max_concurrent cl" by simp_all
  then show "0 \<le> active_count (slot_step x cl) q \<and>
      active_count (slot_step x cl) q \<le> peak_count (slot_step x cl) q \<and>
      peak_count (slot_step x cl) q \<le> cl_max_concurrent (slot_step x cl)"
    by (cases x)
      (auto simp: slot_try_acquire_active slot_try_acquire_peak slot_release_active)
qed

lemma limiter_inv_run: "limiter_inv cl \<Longrightarrow> limiter_inv (slot_run cl ops)"
  by (induction ops arbitrary: cl) (auto intro: limiter_inv_step)

lemma slot_run_max [simp]: "cl_max_concurrent (slot_run cl ops) = cl_max_concurrent cl"
proof (induction ops arbitrary: cl)
  case (Cons x ops)
  then show ?case by (cases x) simp_all
qed simp

lemma slot_trace_not_Nil [simp]: "slot_trace cl ops \<noteq> []"
  by (cases ops) simp_all

lemma slot_step_peak:
  "limiter_inv cl \<Longrightarrow> peak_count (slot_step x cl) p = max (peak_count cl p) (active_count (slot_step x cl) p)"
  using limiter_invD [of cl p]
  by (cases x) (auto simp: slot_try_acquire_active slot_try_acquire_peak slot_release_active max_def)

lemma slot_run_peak:
  "limiter_inv cl \<Longrightarrow>
    peak_count (slot_run cl ops) p =
      max (peak_count cl p) (Max (set (map (\<lambda>c. active_count c p) (slot_trace cl ops))))"
proof (induction ops arbitrary: cl)
  case Nil
  then show ?case by (simp add: limiter_inv_def max_absorb1)
next
  case (Cons x ops)
  have act: "active_count cl p \<le> peak_count cl p" using Cons.prems by (simp add: limiter_inv_def)
  let ?M = "Max (set (map (\<lambda>c. active_count c p) (slot_trace (slot_step x cl) ops)))"
  have "active_count (slot_step x cl) p \<in> set (map (\<lambda>c. active_count c p) (slot_trace (slot_step x cl) ops))"
    by (cases ops) simp_all
  then have "active_count (slot_step x cl) p \<le> ?M" by (intro Max_ge) simp_all
  then have "peak_count (slot_run cl (x # ops)) p = max (peak_count cl p) ?M"
    using Cons.IH [OF limiter_inv_step [OF Cons.prems]] slot_step_peak [OF Cons.prems, of x p]
    by (simp add: max_def)
  then show ?case using act by (simp add: max_def)
qed

text \<open>
  The ceiling holds under every interleaving. From a fresh limiter, after any sequence of
  acquisitions and releases by any callers, every principal's active count lies between 0 and the
  ceiling, and \<open>peak_count\<close> is exactly the largest active count that occurred.
\<close>

lemma ceiling_never_exceeded:
  assumes "make_concurrency_limiter m = Inr cl"
  shows "0 \<le> active_count (slot_run cl ops) p \<and> active_count (slot_run cl ops) p \<le> m \<and>
    peak_count (slot_run cl ops) p =
      Max (set (map (\<lambda>c. active_count c p) (slot_trace cl ops))) \<and>
    peak_count (slot_run cl ops) p \<le> m"
proof -
  have inv: "limiter_inv cl" using assms by (rule limiter_inv_init)
  have m: "cl_max_concurrent cl = m" and z: "peak_count cl p = 0" "active_count cl p = 0"
    using assms by (auto simp: make_concurrency_limiter_def peak_count_def active_count_def
        dict_get_or_def split: if_splits)
  have "active_count cl p \<in> set (map (\<lambda>c. active_count c p) (slot_trace cl ops))"
    by (cases ops) simp_all
  then have "0 \<le> Max (set (map (\<lambda>c. active_count c p) (slot_trace cl ops)))"
    using z by (intro Max_ge) simp_all
  then have "peak_count (slot_run cl ops) p =
      Max (set (map (\<lambda>c. active_count c p) (slot_trace cl ops)))"
    using slot_run_peak [OF inv, of ops p] z by simp
  moreover have "0 \<le> active_count (slot_run cl ops) p"
    and "peak_count (slot_run cl ops) p \<le> m" and "active_count (slot_run cl ops) p \<le> m"
    using limiter_invD [OF limiter_inv_run [OF inv], of ops p] m by simp_all
  ultimately show ?thesis by blast
qed

text \<open>
  A slot is given back exactly once on every exit of \<open>async with limiter.acquire(...)\<close>:
  whatever the body returns or raises, and whatever other callers did to the limiter meanwhile, the
  result is the body's, a granted slot is subtracted from the caller's count once, a refused one not
  at all, and no other principal's count changes.
\<close>

lemma slot_released_on_every_exit:
  assumes "body (active_count cl p < cl_max_concurrent cl) (w, snd (slot_try_acquire p cl)) = (r, (w', cl2))"
    and "0 \<le> active_count cl2 q"
  shows "fst (with_slot p body (w, cl)) = r \<and>
    active_count (snd (snd (with_slot p body (w, cl)))) q =
      active_count cl2 q -
        (if q = p \<and> active_count cl p < cl_max_concurrent cl \<and> 0 < active_count cl2 q then 1 else 0)"
proof -
  obtain a cl1 where a: "slot_try_acquire p cl = (a, cl1)" by force
  then have "a \<longleftrightarrow> active_count cl p < cl_max_concurrent cl"
    using slot_try_acquire_granted [of p cl] by simp
  with assms a show ?thesis by (auto simp: with_slot_def slot_release_active)
qed



subsection \<open>Accounting of tokens\<close>

text \<open>
  A rounding with a relative error \<open>u\<close> and an absolute one \<open>h\<close> (for results below the normal
  range): what the token accounting needs of floating point.
\<close>

locale bounded_rounding = rounding rnd for rnd :: "rat \<Rightarrow> rat" +
  fixes u h :: rat
  assumes u_nonneg: "0 \<le> u" and h_nonneg: "0 \<le> h"
    and rnd_upper: "0 \<le> x \<Longrightarrow> rnd x \<le> x + x * u + h"
begin

text \<open>The refill in exact terms: capacity \<open>c\<close>, rate \<open>r\<close>, tokens \<open>t\<close>, time passed \<open>d\<close>.\<close>

lemma refill_bounds:
  assumes "rnd c = c" "rnd t = t" "0 \<le> t" "t \<le> c" "0 \<le> r" "0 \<le> d"
  shows "t \<le> min c (rnd (t + rnd (rnd d * r)))" "min c (rnd (t + rnd (rnd d * r))) \<le> c"
proof -
  have "0 \<le> rnd (rnd d * r)" using assms by (simp add: rnd_nonneg)
  then have "t \<le> rnd (t + rnd (rnd d * r))" using assms by (simp add: rnd_ge_fixed)
  with assms show "t \<le> min c (rnd (t + rnd (rnd d * r)))" by simp
qed simp

lemma refill_gain:
  assumes "0 \<le> t" "t \<le> c" "0 \<le> r" "0 \<le> d"
  shows "rnd (t + rnd (rnd d * r)) - t \<le>
    r * d * (1 + u) * (1 + u) * (1 + u) + (h * r * (1 + u) * (1 + u) + h * (1 + u) + h + c * u)"
proof -
  have d1: "0 \<le> rnd d" "rnd d \<le> d * (1 + u) + h"
    using assms rnd_upper [of d] by (simp_all add: rnd_nonneg algebra_simps)
  then have dr: "rnd d * r \<le> (d * (1 + u) + h) * r" using assms by (intro mult_right_mono)
  have p0: "0 \<le> rnd d * r" using d1 assms by simp
  have "rnd d * r * (1 + u) \<le> (d * (1 + u) + h) * r * (1 + u)"
    by (rule mult_right_mono [OF dr]) (use u_nonneg in simp)
  moreover have "rnd (rnd d * r) \<le> rnd d * r * (1 + u) + h"
    using rnd_upper [OF p0] by (simp add: algebra_simps)
  ultimately have y: "rnd (rnd d * r) \<le> (d * (1 + u) + h) * r * (1 + u) + h" by simp
  have y0: "0 \<le> rnd (rnd d * r)" using p0 by (rule rnd_nonneg)
  have "rnd (t + rnd (rnd d * r)) - t \<le> rnd (rnd d * r) * (1 + u) + t * u + h"
    using rnd_upper [of "t + rnd (rnd d * r)"] assms y0 by (simp add: algebra_simps)
  also have "\<dots> \<le> ((d * (1 + u) + h) * r * (1 + u) + h) * (1 + u) + c * u + h"
    using y u_nonneg assms by (intro add_mono mult_right_mono) simp_all
  finally show ?thesis by (simp add: algebra_simps)
qed

end

text \<open>The constants of binary64: half a unit in the last place, and the least positive float.\<close>

definition f64_u :: rat where
  "f64_u = 1 / 2 ^ 53"

definition f64_h :: rat where
  "f64_h = 2 powi (- 1074)"

lemma f64_u_nonneg: "0 \<le> f64_u" and f64_h_nonneg: "0 \<le> f64_h"
  unfolding f64_u_def f64_h_def by (simp, simp only: powi_pos order_less_imp_le)

lemma rnd64_upper: "0 \<le> x \<Longrightarrow> rnd64 x \<le> x + x * f64_u + f64_h"
proof -
  assume x: "0 \<le> x"
  show ?thesis
  proof (cases "2 powi (- 1022) \<le> x")
    case True
    then have "rnd64 x - x \<le> \<bar>x\<bar> / 2 ^ 53"
      using x by (intro order_trans [OF abs_ge_self rnd64_error]) simp
    also have "\<dots> = x * f64_u" using x by (simp add: f64_u_def)
    finally show ?thesis using f64_h_nonneg by linarith
  next
    case False
    show ?thesis
    proof (cases "x = 0")
      case False
      then have pos: "0 < x" using x by simp
      have "ilog2 x < - 1022" using \<open>\<not> 2 powi (- 1022) \<le> x\<close> pos by (simp add: ilog2_less_iff)
      then have e: "f64_exponent x = - 1074" using pos by (simp add: f64_exponent_def)
      have nz: "f64_h \<noteq> 0" unfolding f64_h_def by (rule powi_nonzero)
      have "of_int (round_half_even (x / f64_h)) \<le> x / f64_h + 1 / 2"
        using round_half_even_bounds(1) [of "x / f64_h"] by simp
      then have "of_int (round_half_even (x / f64_h)) * f64_h \<le> (x / f64_h + 1 / 2) * f64_h"
        using f64_h_nonneg by (rule mult_right_mono)
      also have "\<dots> = x + f64_h / 2" using nz by (simp add: field_simps)
      finally have "rnd64 x \<le> x + f64_h / 2"
        using pos unfolding rnd64_def e f64_h_def by auto
      moreover have "0 \<le> x * f64_u" using x f64_u_nonneg by simp
      ultimately show ?thesis using f64_h_nonneg by linarith
    qed (use f64_h_nonneg in simp)
  qed
qed

interpretation f64b: bounded_rounding rnd64 f64_u f64_h
  by unfold_locales (simp_all add: rnd64_upper f64_u_nonneg f64_h_nonneg)



subsection \<open>The token bucket over floats\<close>

text \<open>
  A bucket as the constructor and \<open>try_consume\<close> leave it, for a capacity up to \<open>2 ^ 53\<close>, where
  subtracting one token is exact, and clock readings of at most \<open>2 ^ 53\<close> seconds.
\<close>

definition clock_ok :: "rat \<Rightarrow> bool" where
  "clock_ok l = (\<bar>l\<bar> \<le> 2 ^ 53)"

definition bucket_at :: "rat \<Rightarrow> rat \<Rightarrow> rat \<Rightarrow> rat \<Rightarrow> token_bucket" where
  "bucket_at c r t l =
     \<lparr>tb_capacity = Fin c, tb_refill_rate = Fin r, tb_tokens = Fin t, tb_last_refill = Fin l\<rparr>"

definition bucket_ok :: "rat \<Rightarrow> rat \<Rightarrow> rat \<Rightarrow> rat \<Rightarrow> bool" where
  "bucket_ok c r t l =
     (0 < c \<and> c \<le> 2 ^ 53 \<and> rnd64 c = c \<and> 0 < r \<and> 0 \<le> t \<and> t \<le> c \<and> rnd64 t = t \<and> clock_ok l)"

text \<open>The refill of \<open>try_consume\<close> in exact terms.\<close>

definition refill_to :: "rat \<Rightarrow> rat \<Rightarrow> rat \<Rightarrow> rat \<Rightarrow> rat" where
  "refill_to c r t d = min c (rnd64 (t + rnd64 (rnd64 d * r)))"

lemma small_le_big: "x \<le> 2 ^ 53 \<Longrightarrow> x \<le> (2::rat) powi 1000"
proof -
  have "(2::rat) powi 53 \<le> 2 powi 1000" by (simp only: powi_le_iff)
  then show "x \<le> 2 ^ 53 \<Longrightarrow> x \<le> 2 powi 1000" by (simp del: power_int_numeral) simp
qed

lemma f_sub_clock:
  assumes "clock_ok now" "clock_ok l"
  shows "f_sub (Fin now) (Fin l) = Fin (rnd64 (now - l))"
  using assms f_round_small [of "now - l"] by (simp add: f_sub_def clock_ok_def abs_le_iff)

lemma py_max_0: "py_max (Fin 0) (Fin x) = Fin (max 0 x)"
  by (simp add: py_max_def max_def)

lemma py_min_Fin: "py_min (Fin c) (Fin x) = Fin (min c x)"
  by (simp add: py_min_def min_def)

lemma py_min_PInf: "py_min (Fin c) PInf = Fin c"
  by (simp add: py_min_def)

lemma rnd64_max_0: "max 0 (rnd64 x) = rnd64 (max 0 x)"
  using rnd64_mono [of x 0] rnd64_mono [of 0 x] by (cases "0 \<le> x") (simp_all add: max_def)

lemma capped_round:
  assumes "c \<le> 2 powi 1000" "0 \<le> q"
  shows "py_min (Fin c) (f_round q) = Fin (min c (rnd64 q))"
proof -
  have "(2::rat) powi 1000 \<le> 2 powi 1024" by (simp only: powi_le_iff)
  then have big: "2 powi 1024 \<le> rnd64 q \<Longrightarrow> c \<le> rnd64 q" using assms(1) by linarith
  with f_round_nonneg_cases [OF assms(2)] show ?thesis
    by (auto simp: py_min_Fin py_min_PInf min_absorb1 simp del: power_int_numeral)
qed

lemma refilled_exact:
  assumes "bucket_ok c r t l" "clock_ok now"
  shows "refilled (bucket_at c r t l) (Fin now) = Fin (refill_to c r t (max 0 (now - l)))"
proof -
  let ?d = "rnd64 (max 0 (now - l))" and ?y = "rnd64 (rnd64 (max 0 (now - l)) * r)"
  have c: "c \<le> 2 powi 1000" and t: "0 \<le> t" and r: "0 < r" and l: "clock_ok l"
    using assms(1) small_le_big by (simp_all add: bucket_ok_def del: power_int_numeral)
  have el: "py_max (Fin 0) (f_sub (Fin now) (Fin l)) = Fin ?d"
    using f_sub_clock [OF assms(2) l] by (simp add: py_max_0 rnd64_max_0)
  have y0: "0 \<le> ?d * r" using r by (simp add: rnd64_nonneg)
  from f_round_nonneg_cases [OF this]
  have "py_min (Fin c) (f_add (Fin t) (f_mul (Fin ?d) (Fin r))) = Fin (min c (rnd64 (t + ?y)))"
  proof
    assume "f_round (?d * r) = Fin ?y"
    then show ?thesis using capped_round [OF c, of "t + ?y"] t y0 by (simp add: rnd64_nonneg)
  next
    assume inf: "f_round (?d * r) = PInf \<and> 2 powi 1024 \<le> ?y"
    have "?y \<le> rnd64 (t + ?y)" using t rnd64_mono [of ?y "t + ?y"] by (simp add: rnd64_idem)
    moreover have "(2::rat) powi 1000 \<le> 2 powi 1024" by (simp only: powi_le_iff)
    ultimately have "c \<le> rnd64 (t + ?y)" using inf c by linarith
    then show ?thesis using inf by (simp add: py_min_PInf min_absorb1 del: power_int_numeral)
  qed
  then show ?thesis
    by (simp add: refilled_def Let_def bucket_at_def el refill_to_def)
qed

lemma refill_to_ok:
  assumes "bucket_ok c r t l" "0 \<le> d"
  shows "t \<le> refill_to c r t d" "refill_to c r t d \<le> c" "rnd64 (refill_to c r t d) = refill_to c r t d"
    "refill_to c r t d - t \<le> r * d * (1 + f64_u) * (1 + f64_u) * (1 + f64_u) +
       (f64_h * r * (1 + f64_u) * (1 + f64_u) + f64_h * (1 + f64_u) + f64_h + c * f64_u)"
proof -
  show "t \<le> refill_to c r t d" "refill_to c r t d \<le> c"
    using f64b.refill_bounds [of c t r d] assms by (simp_all add: bucket_ok_def refill_to_def)
  show "rnd64 (refill_to c r t d) = refill_to c r t d"
    using assms by (simp add: bucket_ok_def refill_to_def min_def rnd64_idem)
  have "refill_to c r t d - t \<le> rnd64 (t + rnd64 (rnd64 d * r)) - t" by (simp add: refill_to_def)
  also have "\<dots> \<le> r * d * (1 + f64_u) * (1 + f64_u) * (1 + f64_u) +
       (f64_h * r * (1 + f64_u) * (1 + f64_u) + f64_h * (1 + f64_u) + f64_h + c * f64_u)"
    using assms by (intro f64b.refill_gain) (simp_all add: bucket_ok_def)
  finally show "refill_to c r t d - t \<le> r * d * (1 + f64_u) * (1 + f64_u) * (1 + f64_u) +
       (f64_h * r * (1 + f64_u) * (1 + f64_u) + f64_h * (1 + f64_u) + f64_h + c * f64_u)" .
qed


text \<open>Subtracting one token from a representable amount up to \<open>2 ^ 53\<close> is exact.\<close>

lemma sub_one_exact:
  assumes "rnd64 t = t" "1 \<le> t" "t \<le> 2 ^ 53"
  shows "rnd64 (t - 1) = t - 1"
proof -
  let ?e = "f64_exponent t" and ?m = "round_half_even (t / 2 powi f64_exponent t)"
  have t: "t = of_int ?m * 2 powi ?e" and m: "\<bar>?m\<bar> \<le> 2 ^ 53" and e: "- 1074 \<le> ?e"
    using assms rnd64_mantissa [of t] f64_exponent_ge [of t] by (simp_all add: rnd64_def)
  show ?thesis
  proof (cases "0 \<le> ?e")
    case True
    then have "t - 1 = of_int (?m * 2 ^ nat ?e - 1)"
      by (subst t) (simp add: powi_nat del: of_int_power)
    moreover from this have "\<bar>rat_of_int (?m * 2 ^ nat ?e - 1)\<bar> \<le> of_int (2 ^ 53)"
      using assms by simp
    then have "\<bar>?m * 2 ^ nat ?e - 1\<bar> \<le> 2 ^ 53"
      by (simp only: of_int_abs [symmetric] of_int_le_iff)
    ultimately show ?thesis by (simp only: rnd64_of_int)
  next
    case False
    let ?k = "2 ^ nat (- ?e) :: int"
    have k: "rat_of_int ?k * 2 powi ?e = 1"
      using False powi_nat [of "- ?e"] powi_add [of "- ?e" ?e] by (simp del: of_int_power)
    then have t1: "t - 1 = of_int (?m - ?k) * 2 powi ?e"
      by (subst t) (simp only: of_int_diff left_diff_distrib)
    have "rat_of_int ?k * 2 powi ?e \<le> of_int ?m * 2 powi ?e" using assms(2) k t by simp
    then have "rat_of_int ?k \<le> of_int ?m" by (rule mult_right_le_imp_le) (rule powi_pos)
    then have "?k \<le> ?m" by (simp only: of_int_le_iff)
    moreover have "0 < ?k" by simp
    ultimately have "\<bar>?m - ?k\<bar> \<le> 2 ^ 53" using m by linarith
    then show ?thesis using rnd64_grid [OF _ e] by (simp only: t1)
  qed
qed

lemma try_consume_exact:
  assumes "bucket_ok c r t l" "clock_ok now"
  defines "t' \<equiv> refill_to c r t (max 0 (now - l))"
  shows "try_consume (Fin 1) (Fin now) (bucket_at c r t l) =
    (1 \<le> t', bucket_at c r (if 1 \<le> t' then t' - 1 else t') now)"
    and "bucket_ok c r (if 1 \<le> t' then t' - 1 else t') now"
proof -
  have T: "t \<le> t'" "t' \<le> c" "rnd64 t' = t'"
    using refill_to_ok [OF assms(1), of "max 0 (now - l)"] by (simp_all add: t'_def)
  have b: "0 < c" "c \<le> 2 ^ 53" "rnd64 c = c" "0 < r" "0 \<le> t"
    using assms(1) by (simp_all add: bucket_ok_def)
  have s1: "rnd64 (t' - 1) = t' - 1" if "1 \<le> t'"
    using sub_one_exact [OF T(3) that] T(2) b(2) by simp
  have "\<not> f64_overflows (t' - 1)" if "1 \<le> t'"
    using that T(2) b(2) small_le_big [of "t' - 1"] by (intro not_overflow_small) (simp del: power_int_numeral)
  then have sub: "f_sub (Fin t') (Fin 1) = Fin (t' - 1)" if "1 \<le> t'"
    using s1 that by (simp add: f_sub_def f_round_def Let_def)
  show "try_consume (Fin 1) (Fin now) (bucket_at c r t l) =
    (1 \<le> t', bucket_at c r (if 1 \<le> t' then t' - 1 else t') now)"
    using sub refilled_exact [OF assms(1,2)]
    by (simp add: try_consume_def t'_def [symmetric] Let_def) (simp add: bucket_at_def)
  show "bucket_ok c r (if 1 \<le> t' then t' - 1 else t') now"
    using b T s1 assms(2) by (auto simp: bucket_ok_def)
qed

lemma bucket_run_ok:
  assumes "bucket_ok c r t l" "\<forall>x\<in>set ts. clock_ok x"
  shows "\<exists>t' l'. snd (bucket_run (bucket_at c r t l) (map Fin ts)) = bucket_at c r t' l' \<and> bucket_ok c r t' l'"
  using assms
proof (induction ts arbitrary: t l)
  case (Cons now ts)
  then show ?case
    using try_consume_exact [of c r t l now] by (simp add: case_prod_beta)
qed auto

lemma make_bucket_at:
  assumes "0 < c" "0 < r"
  shows "make_bucket (Fin c) (Fin r) (Fin t0) = Inr (bucket_at c r c t0)"
  using assms by (simp add: make_bucket_def bucket_at_def)

text \<open>
  The bucket never holds a negative number of tokens and never more than its capacity, in
  floating-point arithmetic, after any sequence of \<open>try_consume()\<close> calls at any clock readings, even
  readings that go backwards.
\<close>

lemma bucket_within_capacity:
  assumes "0 < c" "c \<le> 2 ^ 53" "rnd64 c = c" "0 < r" "clock_ok t0" "\<forall>x\<in>set ts. clock_ok x"
    and "make_bucket (Fin c) (Fin r) (Fin t0) = Inr b"
  shows "\<exists>t. tb_tokens (snd (bucket_run b (map Fin ts))) = Fin t \<and> 0 \<le> t \<and> t \<le> c"
proof -
  have "b = bucket_at c r c t0" and ok: "bucket_ok c r c t0"
    using assms make_bucket_at by (simp_all add: bucket_ok_def)
  then obtain t' l' where "snd (bucket_run b (map Fin ts)) = bucket_at c r t' l'" "bucket_ok c r t' l'"
    using bucket_run_ok [OF ok assms(6)] by blast
  then show ?thesis by (simp add: bucket_at_def bucket_ok_def)
qed

lemma rnd64_small_int: "rnd64 20 = 20" "rnd64 2 = 2" "rnd64 5 = 5"
  using rnd64_of_int [of 20] rnd64_of_int [of 2] rnd64_of_int [of 5] by simp_all


text \<open>The number of accepted calls.\<close>

definition accepted :: "bool list \<Rightarrow> rat" where
  "accepted oks = of_nat (length (filter id oks))"

lemma accepted_simps [simp]:
  "accepted [] = 0" "accepted (True # oks) = 1 + accepted oks" "accepted (False # oks) = accepted oks"
  by (simp_all add: accepted_def)

text \<open>What rounding can add to one refill, for a capacity of at least one token.\<close>

definition refill_slack :: "rat \<Rightarrow> rat \<Rightarrow> rat" where
  "refill_slack c r =
     f64_h * r * (1 + f64_u) * (1 + f64_u) + f64_h * (1 + f64_u) + f64_h + c * f64_u"

fun last_time :: "rat \<Rightarrow> rat list \<Rightarrow> rat" where
  "last_time l [] = l"
| "last_time l (x # xs) = last_time x xs"

lemma last_time_ge: "sorted (l # ts) \<Longrightarrow> l \<le> last_time l ts"
  by (induction ts arbitrary: l) fastforce+

lemma accepted_bound:
  assumes "bucket_ok c r t l" "\<forall>x\<in>set ts. clock_ok x" "sorted (l # ts)"
  shows "accepted (fst (bucket_run (bucket_at c r t l) (map Fin ts))) \<le>
    t + r * (last_time l ts - l) * (1 + f64_u) ^ 3 + of_nat (length ts) * refill_slack c r"
  using assms
proof (induction ts arbitrary: t l)
  case Nil
  then show ?case by (simp add: bucket_ok_def)
next
  case (Cons now ts)
  define T where "T = refill_to c r t (max 0 (now - l))"
  define T' where "T' = (if 1 \<le> T then T - 1 else T)"
  have le: "l \<le> now" and ok: "clock_ok now" using Cons.prems by auto
  have step: "try_consume (Fin 1) (Fin now) (bucket_at c r t l) = (1 \<le> T, bucket_at c r T' now)"
    using try_consume_exact(1) [OF Cons.prems(1) ok] unfolding T_def T'_def .
  have ok': "bucket_ok c r T' now"
    using try_consume_exact(2) [OF Cons.prems(1) ok] unfolding T_def T'_def .
  have gain: "T \<le> t + r * (now - l) * (1 + f64_u) ^ 3 + refill_slack c r"
    using refill_to_ok(4) [OF Cons.prems(1), of "now - l"] le
    by (simp add: T_def refill_slack_def power3_eq_cube mult.assoc)
  have "accepted (fst (bucket_run (bucket_at c r T' now) (map Fin ts))) \<le>
      T' + r * (last_time now ts - now) * (1 + f64_u) ^ 3 + of_nat (length ts) * refill_slack c r"
    using Cons.prems ok' by (intro Cons.IH) simp_all
  moreover have "fst (bucket_run (bucket_at c r t l) (map Fin (now # ts))) =
      (1 \<le> T) # fst (bucket_run (bucket_at c r T' now) (map Fin ts))"
    by (simp add: step case_prod_beta)
  ultimately have "accepted (fst (bucket_run (bucket_at c r t l) (map Fin (now # ts)))) \<le>
      T + r * (last_time now ts - now) * (1 + f64_u) ^ 3 + of_nat (length ts) * refill_slack c r"
    by (cases "1 \<le> T") (simp_all add: T'_def)
  with gain show ?case by (simp add: algebra_simps)
qed

lemma f64_u_cube: "(1 + f64_u) ^ 3 \<le> 1 + 1 / 2 ^ 51"
  by (simp add: f64_u_def power3_eq_cube)

lemma refill_slack_small:
  assumes "1 \<le> c" "r \<le> 2 ^ 53" "0 < r"
  shows "refill_slack c r \<le> c / 2 ^ 52"
proof -
  have "(2::rat) powi (- 1074) \<le> 2 powi (- 200)" by (simp only: powi_le_iff)
  moreover have "(2::rat) powi (- 200) = 1 / 2 ^ 200" by (simp add: power_int_def power_divide)
  ultimately have h: "f64_h \<le> 1 / 2 ^ 200" by (simp only: f64_h_def)
  have u: "1 + f64_u \<le> 2" "0 \<le> 1 + f64_u" by (simp_all add: f64_u_def)
  have A: "f64_h * r \<le> 1 / 2 ^ 200 * 2 ^ 53"
    using assms by (intro mult_mono h) simp_all
  have "f64_h * r * (1 + f64_u) * (1 + f64_u) \<le> 1 / 2 ^ 200 * 2 ^ 53 * 2 * 2"
    by (intro mult_mono [OF mult_mono [OF A u(1) _ u(2)] u(1) _ u(2)]) simp_all
  moreover have "f64_h * (1 + f64_u) \<le> 1 / 2 ^ 200 * 2"
    by (intro mult_mono h u) simp_all
  moreover have "1 / 2 ^ 200 * 2 ^ 53 * 2 * 2 + 1 / 2 ^ 200 * 2 + 1 / 2 ^ 200 \<le> (1::rat) / 2 ^ 53"
    by simp
  moreover have "1 / 2 ^ 53 \<le> c / 2 ^ 53" using assms by simp
  moreover have "c * f64_u = c / 2 ^ 53" "c / 2 ^ 53 + c / 2 ^ 53 = c / 2 ^ 52"
    by (simp_all add: f64_u_def)
  ultimately show ?thesis using h unfolding refill_slack_def by linarith
qed

text \<open>The bound for a bucket that has just been filled.\<close>

lemma bucket_rate:
  assumes "1 \<le> c" "c \<le> 2 ^ 53" "rnd64 c = c" "0 < r" "r \<le> 2 ^ 53"
    and "sorted (t0 # ts)" "clock_ok t0" "\<forall>x\<in>set ts. clock_ok x"
  shows "accepted (fst (bucket_run (bucket_at c r c t0) (map Fin ts))) \<le>
    c + r * (last_time t0 ts - t0) * (1 + 1 / 2 ^ 51) + of_nat (length ts) * (c / 2 ^ 52)"
proof -
  have ok: "bucket_ok c r c t0"
    using assms by (simp_all add: bucket_ok_def)
  have "accepted (fst (bucket_run (bucket_at c r c t0) (map Fin ts))) \<le>
      c + r * (last_time t0 ts - t0) * (1 + f64_u) ^ 3 + of_nat (length ts) * refill_slack c r"
    using ok assms by (intro accepted_bound) simp_all
  moreover have "r * (last_time t0 ts - t0) * (1 + f64_u) ^ 3 \<le>
      r * (last_time t0 ts - t0) * (1 + 1 / 2 ^ 51)"
    using f64_u_cube last_time_ge [OF assms(6)] assms by (intro mult_left_mono) simp_all
  moreover have "of_nat (length ts) * refill_slack c r \<le> of_nat (length ts) * (c / 2 ^ 52)"
    using refill_slack_small assms by (intro mult_left_mono) simp_all
  ultimately show ?thesis by linarith
qed

text \<open>
  C21: The rate limit. Over a bucket of capacity \<open>c\<close> and rate \<open>r\<close> filled at \<open>t0\<close>, any \<open>n\<close> calls at
  non-decreasing clock readings up to \<open>t0 + T\<close> have at most \<open>c + r * T\<close> of them accepted, up to the
  rounding of binary64: a factor \<open>1 + 2 powi - 51\<close> on \<open>r * T\<close> and \<open>c * 2 powi - 52\<close> per call.
\<close>

theorem rate_bound:
  assumes "1 \<le> c" "c \<le> 2 ^ 53" "rnd64 c = c" "0 < r" "r \<le> 2 ^ 53"
    and "sorted (t0 # ts)" "clock_ok t0" "\<forall>x\<in>set ts. clock_ok x"
    and "make_bucket (Fin c) (Fin r) (Fin t0) = Inr b"
  shows "accepted (fst (bucket_run b (map Fin ts))) \<le>
    c + r * (last_time t0 ts - t0) * (1 + 1 / 2 ^ 51) + of_nat (length ts) * (c / 2 ^ 52)"
  using bucket_rate [OF assms(1-8)] make_bucket_at [of c r t0] assms by simp

theorem rate_bound_witness:
  "accepted (fst (bucket_run (bucket_at 2 5 2 0) (map Fin [0, 0, 0, 1]))) \<le>
    2 + 5 * (1 - 0) * (1 + 1 / 2 ^ 51) + 4 * (2 / 2 ^ 52)"
  using rate_bound [of 2 5 0 "[0, 0, 0, 1]" "bucket_at 2 5 2 0"]
  by (simp add: rnd64_small_int clock_ok_def make_bucket_at del: bucket_run.simps)

text \<open>With no time passing, the tokens count down one by one.\<close>

lemma refill_to_0: "bucket_ok c r t l \<Longrightarrow> refill_to c r t 0 = t"
  by (simp add: refill_to_def bucket_ok_def)

lemma frozen_run:
  assumes "bucket_ok c r t l"
  shows "fst (bucket_run (bucket_at c r t l) (replicate n (Fin l))) = map (\<lambda>i. of_nat (Suc i) \<le> t) [0..<n]"
  using assms
proof (induction n arbitrary: t)
  case (Suc n)
  have l: "clock_ok l" using Suc.prems by (simp add: bucket_ok_def)
  let ?t = "if 1 \<le> t then t - 1 else t"
  have stay: "refill_to c r t (max 0 (l - l)) = t" using refill_to_0 [OF Suc.prems] by simp
  have step: "try_consume (Fin 1) (Fin l) (bucket_at c r t l) = (1 \<le> t, bucket_at c r ?t l)"
    using try_consume_exact(1) [OF Suc.prems l] unfolding stay .
  have ok: "bucket_ok c r ?t l"
    using try_consume_exact(2) [OF Suc.prems l] unfolding stay .
  have "[0..<Suc n] = 0 # map Suc [0..<n]" by (simp only: upt_conv_Cons map_Suc_upt zero_less_Suc)
  then have "map (\<lambda>i. of_nat (Suc i) \<le> t) [0..<Suc n] = (1 \<le> t) # map (\<lambda>i. of_nat (Suc i) \<le> ?t) [0..<n]"
    using Suc.prems by (auto simp: bucket_ok_def)
  with step Suc.IH [OF ok] show ?case by (simp add: case_prod_beta del: upt_Suc)
qed simp

text \<open>
  The burst while the clock stands still: of consecutive calls on a fresh bucket the first
  \<open>\<lfloor>c\<rfloor>\<close> are accepted and every later one is refused, exactly.
\<close>

lemma burst_exact:
  assumes "0 < c" "c \<le> 2 ^ 53" "rnd64 c = c" "0 < r" "clock_ok t0"
    and "make_bucket (Fin c) (Fin r) (Fin t0) = Inr b"
  shows "fst (bucket_run b (replicate n (Fin t0))) = map (\<lambda>i. int (Suc i) \<le> \<lfloor>c\<rfloor>) [0..<n]"
proof -
  have b: "b = bucket_at c r c t0" and "bucket_ok c r c t0"
    using assms make_bucket_at by (simp_all add: bucket_ok_def)
  then have "fst (bucket_run b (replicate n (Fin t0))) = map (\<lambda>i. of_nat (Suc i) \<le> c) [0..<n]"
    by (simp add: frozen_run del: of_nat_Suc)
  moreover have "of_nat k \<le> c \<longleftrightarrow> int k \<le> \<lfloor>c\<rfloor>" for k
    by (metis le_floor_iff of_int_of_nat_eq)
  ultimately show ?thesis by (simp del: of_nat_Suc)
qed

text \<open>
  What a bucket holds at least. No assumption on the clock: a reading may be NaN, infinite or earlier
  than the last one. \<open>stocked b c x\<close>: the bucket has capacity \<open>c\<close>, an accepted refill rate and
  \<open>x\<close> tokens.
\<close>

definition stocked :: "token_bucket \<Rightarrow> rat \<Rightarrow> rat \<Rightarrow> bool" where
  "stocked b c x =
     (tb_capacity b = Fin c \<and> tb_tokens b = Fin x \<and> \<not> f_le (tb_refill_rate b) (Fin 0) \<and>
      c \<le> 2 ^ 53 \<and> rnd64 c = c \<and> 0 \<le> x \<and> x \<le> c \<and> rnd64 x = x)"

lemma elapsed_cases: "py_max (Fin 0) d = PInf \<or> (\<exists>e. py_max (Fin 0) d = Fin e \<and> 0 \<le> e)"
  by (cases d) (auto simp: py_max_def)

lemma gain_cases:
  assumes "el = PInf \<or> (\<exists>e. el = Fin e \<and> 0 \<le> e)" "\<not> f_le r (Fin 0)"
  shows "f_mul el r = NaN \<or> f_mul el r = PInf \<or> (\<exists>g. f_mul el r = Fin g \<and> 0 \<le> g)"
proof (cases r)
  case (Fin q)
  then have q: "0 < q" using assms(2) by simp
  from assms(1) show ?thesis
  proof
    assume "\<exists>e. el = Fin e \<and> 0 \<le> e"
    then obtain e where "el = Fin e" "0 \<le> e * q" using q by auto
    then show ?thesis
      using f_round_nonneg_cases [of "e * q"] rnd64_nonneg [of "e * q"] Fin by auto
  qed (use Fin q in \<open>simp add: f_inf_signed_def\<close>)
qed (use assms in \<open>auto simp: f_inf_signed_def f_le_def sgn_if\<close>)

lemma refill_stocked:
  assumes "stocked b c x"
  shows "\<exists>y. refilled b now = Fin y \<and> x \<le> y \<and> y \<le> c \<and> rnd64 y = y"
proof -
  have s: "tb_capacity b = Fin c" "tb_tokens b = Fin x" "\<not> f_le (tb_refill_rate b) (Fin 0)"
    "c \<le> 2 ^ 53" "rnd64 c = c" "0 \<le> x" "x \<le> c" "rnd64 x = x"
    using assms by (simp_all add: stocked_def)
  let ?g = "f_mul (py_max (Fin 0) (f_sub now (tb_last_refill b))) (tb_refill_rate b)"
  consider "?g = NaN" | "?g = PInf" | g where "?g = Fin g" "0 \<le> g"
    using gain_cases [OF elapsed_cases s(3)] by blast
  then show ?thesis
  proof cases
    case (3 g)
    then have "refilled b now = Fin (min c (rnd64 (x + g)))" "x \<le> rnd64 (x + g)"
      using capped_round [of c "x + g"] small_le_big [OF s(4)] rnd64_mono [of x "x + g"] s
      by (simp_all add: refilled_def Let_def)
    then show ?thesis using s by (auto simp: min_def rnd64_idem)
  qed (use s in \<open>simp_all add: refilled_def Let_def py_min_def\<close>)
qed

lemma consume_stocked:
  assumes "stocked b c x" "1 \<le> x"
  shows "\<exists>y b'. try_consume (Fin 1) now b = (True, b') \<and> stocked b' c y \<and> x - 1 \<le> y"
proof -
  obtain y where y: "refilled b now = Fin y" "x \<le> y" "y \<le> c" "rnd64 y = y"
    using refill_stocked [OF assms(1)] by blast
  then have y1: "1 \<le> y" "y \<le> 2 ^ 53" using assms by (auto simp: stocked_def)
  have "\<not> f64_overflows (y - 1)"
    using y1 small_le_big [of "y - 1"] by (intro not_overflow_small) (simp del: power_int_numeral)
  then have "f_sub (Fin y) (Fin 1) = Fin (y - 1)"
    using sub_one_exact [OF y(4) y1] by (simp add: f_sub_def f_round_def Let_def)
  then show ?thesis
    using y y1 assms(1) sub_one_exact [OF y(4) y1] by (auto simp: try_consume_def stocked_def)
qed

lemma run_stocked:
  assumes "stocked b c x" "i < length ts" "of_nat (Suc i) \<le> x"
  shows "fst (bucket_run b ts) ! i"
  using assms
proof (induction ts arbitrary: b x i)
  case (Cons now ts)
  have "1 \<le> x" using Cons.prems(3) by simp
  then obtain y b' where b': "try_consume (Fin 1) now b = (True, b')" "stocked b' c y" "x - 1 \<le> y"
    using consume_stocked [OF Cons.prems(1)] by blast
  show ?case
  proof (cases i)
    case (Suc j)
    then show ?thesis using Cons.IH [OF b'(2), of j] Cons.prems b' by (simp add: case_prod_beta)
  qed (simp add: b' case_prod_beta)
qed simp

text \<open>
  The burst is guaranteed. Whatever the clock shows, NaN, infinities and readings that go
  backwards included, and whatever refill rate the constructor accepted, the first \<open>\<lfloor>c\<rfloor>\<close>
  calls on a fresh bucket are accepted: rounding never takes a token away.
\<close>

lemma burst_guaranteed:
  assumes "0 < c" "c \<le> 2 ^ 53" "rnd64 c = c" "make_bucket (Fin c) r t0 = Inr b"
    and "i < length ts" "int (Suc i) \<le> \<lfloor>c\<rfloor>"
  shows "fst (bucket_run b ts) ! i"
proof -
  have "stocked b c c"
    using assms(1-4) by (auto simp: make_bucket_def stocked_def split: if_splits)
  moreover have "of_nat (Suc i) \<le> c"
    using assms(6) by (metis le_floor_iff of_int_of_nat_eq)
  ultimately show ?thesis using run_stocked assms(5) by blast
qed


subsection \<open>One bucket per principal\<close>

text \<open>The two clock readings of each attempt by one principal, in order.\<close>

definition attempts_of :: "string \<Rightarrow> (string \<times> pyfloat \<times> pyfloat) list \<Rightarrow> (pyfloat \<times> pyfloat) list" where
  "attempts_of p es = map snd (filter (\<lambda>e. fst e = p) es)"

definition outcomes_of :: "string \<Rightarrow> (string \<times> bool res) list \<Rightarrow> bool res list" where
  "outcomes_of p rs = map snd (filter (\<lambda>r. fst r = p) rs)"

text \<open>What a principal alone with its own bucket would get.\<close>

definition solo_outcomes :: "rate_limiter \<Rightarrow> (pyfloat \<times> pyfloat) list \<Rightarrow> bool res list" where
  "solo_outcomes rl ts =
     (case ts of
        [] \<Rightarrow> []
      | (now0, _) # _ \<Rightarrow>
          (case make_bucket (rl_capacity rl) (rl_refill_rate rl) now0 of
             Inl e \<Rightarrow> map (\<lambda>_. Inl e) ts
           | Inr b \<Rightarrow> map Inr (fst (bucket_run b (map snd ts)))))"

lemma attempts_of_simps [simp]:
  "attempts_of p [] = []"
  "attempts_of p ((q, ts) # es) = (if q = p then ts # attempts_of p es else attempts_of p es)"
  by (simp_all add: attempts_of_def)

lemma outcomes_of_simps [simp]:
  "outcomes_of p [] = []"
  "outcomes_of p ((q, r) # rs) = (if q = p then r # outcomes_of p rs else outcomes_of p rs)"
  by (simp_all add: outcomes_of_def)

lemma rate_try_acquire_config [simp]:
  "rl_capacity (snd (rate_try_acquire q n0 n rl)) = rl_capacity rl"
  "rl_refill_rate (snd (rate_try_acquire q n0 n rl)) = rl_refill_rate rl"
  by (simp_all add: rate_try_acquire_def bucket_for_def split: option.split sum.split prod.split)

lemma rate_try_acquire_other [simp]:
  "p \<noteq> q \<Longrightarrow> dict_get (rl_buckets (snd (rate_try_acquire q n0 n rl))) p = dict_get (rl_buckets rl) p"
  by (simp add: rate_try_acquire_def bucket_for_def split: option.split sum.split prod.split)

lemma rate_try_acquire_known:
  "dict_get (rl_buckets rl) p = Some b \<Longrightarrow>
    fst (rate_try_acquire p n0 n rl) = Inr (fst (try_consume (Fin 1) n b)) \<and>
    dict_get (rl_buckets (snd (rate_try_acquire p n0 n rl))) p = Some (snd (try_consume (Fin 1) n b))"
  by (simp add: rate_try_acquire_def bucket_for_def split: prod.split)

lemma rate_run_known:
  "dict_get (rl_buckets rl) p = Some b \<Longrightarrow>
    outcomes_of p (fst (rate_run rl es)) = map Inr (fst (bucket_run b (map snd (attempts_of p es))))"
proof (induction es arbitrary: rl b)
  case (Cons e es)
  obtain q n0 n where e: "e = (q, n0, n)" by (cases e) auto
  show ?case
    using Cons.IH [of "snd (rate_try_acquire q n0 n rl)"] rate_try_acquire_known [OF Cons.prems, of n0 n]
      Cons.prems
    by (cases "q = p") (simp_all add: e case_prod_beta)
qed simp

lemma rate_try_acquire_new:
  assumes "dict_get (rl_buckets rl) p = None"
    and "make_bucket (rl_capacity rl) (rl_refill_rate rl) n0 = Inr b"
  shows "fst (rate_try_acquire p n0 n rl) = Inr (fst (try_consume (Fin 1) n b))"
    and "dict_get (rl_buckets (snd (rate_try_acquire p n0 n rl))) p = Some (snd (try_consume (Fin 1) n b))"
  using assms by (simp_all add: rate_try_acquire_def bucket_for_def split: prod.split)

lemma rate_try_acquire_refused:
  assumes "dict_get (rl_buckets rl) p = None"
    and "make_bucket (rl_capacity rl) (rl_refill_rate rl) n0 = Inl e"
  shows "rate_try_acquire p n0 n rl = (Inl e, rl)"
  using assms by (simp add: rate_try_acquire_def bucket_for_def)

text \<open>The validation of \<open>TokenBucket.__init__\<close> does not depend on the clock.\<close>

lemma make_bucket_error_any_time: "make_bucket c r n0 = Inl e \<Longrightarrow> make_bucket c r n1 = Inl e"
  by (simp add: make_bucket_def split: if_splits)

lemma rate_run_refused:
  assumes "dict_get (rl_buckets rl) p = None"
    and "make_bucket (rl_capacity rl) (rl_refill_rate rl) n0 = Inl e"
  shows "outcomes_of p (fst (rate_run rl es)) = map (\<lambda>_. Inl e) (attempts_of p es)"
  using assms
proof (induction es arbitrary: rl)
  case (Cons x es)
  obtain q m0 m where x: "x = (q, m0, m)" by (cases x) auto
  show ?case
  proof (cases "q = p")
    case True
    have "rate_try_acquire p m0 m rl = (Inl e, rl)"
      using Cons.prems make_bucket_error_any_time by (intro rate_try_acquire_refused) blast+
    then show ?thesis using True Cons by (simp add: x case_prod_beta)
  next
    case False
    then show ?thesis
      using Cons.IH [of "snd (rate_try_acquire q m0 m rl)"] Cons.prems by (simp add: x case_prod_beta)
  qed
qed simp

lemma solo_outcomes_config [simp]:
  "solo_outcomes (snd (rate_try_acquire q n0 n rl)) ts = solo_outcomes rl ts"
  unfolding solo_outcomes_def rate_try_acquire_config ..

lemma rate_run_new:
  "dict_get (rl_buckets rl) p = None \<Longrightarrow>
    outcomes_of p (fst (rate_run rl es)) = solo_outcomes rl (attempts_of p es)"
proof (induction es arbitrary: rl)
  case (Cons x es)
  obtain q m0 m where x: "x = (q, m0, m)" by (cases x) auto
  show ?case
  proof (cases "q = p")
    case False
    then show ?thesis
      using Cons.IH [of "snd (rate_try_acquire q m0 m rl)"] Cons.prems
      by (simp add: x case_prod_beta)
  next
    case True
    show ?thesis
    proof (cases "make_bucket (rl_capacity rl) (rl_refill_rate rl) m0")
      case (Inl e)
      then show ?thesis
        using rate_run_refused [OF Cons.prems Inl, of "x # es"] True by (simp add: x solo_outcomes_def)
    next
      case (Inr b)
      then show ?thesis
        using rate_try_acquire_new [OF Cons.prems Inr, of m] True
        by (simp add: x case_prod_beta solo_outcomes_def rate_run_known)
    qed
  qed
qed (simp add: solo_outcomes_def)

text \<open>
  C28: Principals do not share a budget. Whatever the other principals do and however the attempts
  interleave, the answers one principal gets from a fresh \<open>RateLimiter\<close> are those of a single
  \<open>TokenBucket\<close> of its own, created at its first attempt and used by its attempts alone.
\<close>

theorem rate_limits_are_per_principal:
  "outcomes_of p (fst (rate_run (make_rate_limiter capacity refill_rate) es)) =
    solo_outcomes (make_rate_limiter capacity refill_rate) (attempts_of p es)"
  by (rule rate_run_new) (simp add: make_rate_limiter_def)


text \<open>A principal that has at least \<open>n\<close> more attempts, at any clock readings.\<close>

definition tokens_left :: "string \<Rightarrow> nat \<Rightarrow> rate_limiter \<Rightarrow> bool" where
  "tokens_left p n rl =
     (\<exists>c. rl_capacity rl = Fin c \<and> 0 < c \<and> c \<le> 2 ^ 53 \<and> rnd64 c = c \<and> of_nat n \<le> c \<and>
        \<not> f_le (rl_refill_rate rl) (Fin 0) \<and>
        (\<forall>b. dict_get (rl_buckets rl) p = Some b \<longrightarrow> (\<exists>x. stocked b c x \<and> of_nat n \<le> x)))"

lemma tokens_left_acquire:
  assumes "tokens_left p (Suc n) rl"
  shows "fst (rate_try_acquire p t0 t1 rl) = Inr True \<and> tokens_left p n (snd (rate_try_acquire p t0 t1 rl))"
proof -
  obtain c where c: "rl_capacity rl = Fin c" "0 < c" "c \<le> 2 ^ 53" "rnd64 c = c" "of_nat (Suc n) \<le> c"
    "\<not> f_le (rl_refill_rate rl) (Fin 0)"
    "\<And>b. dict_get (rl_buckets rl) p = Some b \<Longrightarrow> \<exists>x. stocked b c x \<and> of_nat (Suc n) \<le> x"
    using assms unfolding tokens_left_def by blast
  obtain b rl1 where b: "bucket_for p t0 rl = (Inr b, rl1)" "\<exists>x. stocked b c x \<and> of_nat (Suc n) \<le> x"
    "rl_capacity rl1 = Fin c" "rl_refill_rate rl1 = rl_refill_rate rl"
    using c by (cases "dict_get (rl_buckets rl) p") (auto simp: bucket_for_def make_bucket_def stocked_def)
  then obtain x where x: "stocked b c x" "of_nat n + 1 \<le> x" by auto
  then have "1 \<le> x" by (meson le_add_same_cancel2 of_nat_0_le_iff order_trans)
  then obtain y b' where "try_consume (Fin 1) t1 b = (True, b')" "stocked b' c y" "x - 1 \<le> y"
    using consume_stocked [OF x(1)] by blast
  moreover from this have "of_nat n \<le> y" using x(2) by linarith
  ultimately show ?thesis
    using b c by (auto simp: rate_try_acquire_def tokens_left_def)
qed

lemma tokens_left_other:
  "q \<noteq> p \<Longrightarrow> tokens_left q n (snd (rate_try_acquire p t0 t1 rl)) \<longleftrightarrow> tokens_left q n rl"
  by (simp add: tokens_left_def)


subsection \<open>Configurations the constructors accept\<close>

text \<open>
  C39: A refill rate of NaN passes \<open>refill_rate <= 0\<close> and turns the limit off: every call on such a
  bucket of capacity at least one is accepted, at any clock readings, because \<open>min(capacity, nan)\<close>
  is the capacity.
\<close>

theorem nan_refill_rate_disables_the_limit:
  assumes "1 \<le> c" "\<not> f64_overflows c" "make_bucket (Fin c) NaN t0 = Inr b"
  shows "fst (bucket_run b ts) = replicate (length ts) True"
proof -
  have "fst (bucket_run b ts) = replicate (length ts) True"
    if "tb_capacity b = Fin c" "tb_refill_rate b = NaN" for b
    using that
  proof (induction ts arbitrary: b)
    case (Cons now ts)
    have "refilled b now = Fin c" using Cons.prems by (simp add: refilled_def Let_def py_min_def)
    then have "fst (try_consume (Fin 1) now b)"
      and "tb_capacity (snd (try_consume (Fin 1) now b)) = Fin c"
      and "tb_refill_rate (snd (try_consume (Fin 1) now b)) = NaN"
      using assms(1) Cons.prems by (simp_all add: try_consume_def Let_def)
    then show ?case using Cons.IH by (simp add: case_prod_beta)
  qed simp
  moreover have "tb_capacity b = Fin c" "tb_refill_rate b = NaN"
    using assms by (auto simp: make_bucket_def split: if_splits)
  ultimately show ?thesis by blast
qed

theorem nan_refill_rate_disables_the_limit_witness:
  "fst (bucket_run \<lparr>tb_capacity = Fin 2, tb_refill_rate = NaN, tb_tokens = Fin 2, tb_last_refill = Fin 0\<rparr>
     [Fin 0, Fin 0, Fin 0, Fin 0, Fin 0]) = [True, True, True, True, True]"
  using nan_refill_rate_disables_the_limit [of 2 "Fin 0"
      "\<lparr>tb_capacity = Fin 2, tb_refill_rate = NaN, tb_tokens = Fin 2, tb_last_refill = Fin 0\<rparr>"
      "[Fin 0, Fin 0, Fin 0, Fin 0, Fin 0]"]
    not_overflow_small [of 2]
  by (simp add: make_bucket_def numeral_eq_Suc)

text \<open>
  \<open>RateLimiter.__init__\<close> does not validate: with a capacity that is not positive the limiter is
  built, and then no attempt of any principal ever succeeds; each one raises \<open>ValueError\<close>.
\<close>

lemma bad_capacity_fails_every_call:
  assumes "f_le capacity (Fin 0)"
  shows "fst (rate_try_acquire p now0 now (snd (rate_run (make_rate_limiter capacity r) es))) =
    Inl (ValueError ''capacity must be positive'')"
proof -
  have stuck: "rate_try_acquire q n0 n (make_rate_limiter capacity r) =
      (Inl (ValueError ''capacity must be positive''), make_rate_limiter capacity r)" for q n0 n
    using assms by (intro rate_try_acquire_refused) (simp_all add: make_rate_limiter_def make_bucket_def)
  have "snd (rate_run (make_rate_limiter capacity r) es) = make_rate_limiter capacity r"
    by (induction es) (auto simp: stuck case_prod_beta)
  then show ?thesis by (simp add: stuck)
qed

end
