(* ===== verification/AuditLog.thy ===== *)
theory AuditLog
  imports PyValue
begin

text \<open>
  The audit trail: sentinelmcp/telemetry/audit.py. \<open>represent_arguments\<close> and the functions under it
  are the redaction; \<open>audit_record\<close> is the dataclass, \<open>json_dumps\<close> the serialization that
  \<open>json.dumps\<close> performs on it (with \<open>repr\<close> of floats written out), \<open>logger_emit\<close> is
  \<open>AuditLogger.emit\<close> on the text of the log file. Inputs from outside are the time stamp, and how
  the write in the worker thread ends (\<open>write_outcome\<close>).

  The locale \<open>line_log\<close> is the contract of an append-only file of lines; it is interpreted on the
  model's file, and the framing properties rest on it.
\<close>

subsection \<open>Outcomes and stage results\<close>

datatype audit_outcome =
    RateLimited | PolicyDenied | SchemaRejected | ConcurrencyRejected
  | UpstreamSuccess | UpstreamError | UpstreamTimeout | OutcomeCancelled | InternalError

fun outcome_value :: "audit_outcome \<Rightarrow> string" where
  "outcome_value RateLimited = ''rate_limited''"
| "outcome_value PolicyDenied = ''policy_denied''"
| "outcome_value SchemaRejected = ''schema_rejected''"
| "outcome_value ConcurrencyRejected = ''concurrency_rejected''"
| "outcome_value UpstreamSuccess = ''upstream_success''"
| "outcome_value UpstreamError = ''upstream_error''"
| "outcome_value UpstreamTimeout = ''upstream_timeout''"
| "outcome_value OutcomeCancelled = ''cancelled''"
| "outcome_value InternalError = ''internal_error''"

datatype stage_result = Passed | Failed | NotEvaluated

fun stage_value :: "stage_result \<Rightarrow> string" where
  "stage_value Passed = ''passed''"
| "stage_value Failed = ''failed''"
| "stage_value NotEvaluated = ''not_evaluated''"

datatype upstream_category = CatSuccess | CatError | CatTimeout | CatCancelled

fun category_value :: "upstream_category \<Rightarrow> string" where
  "category_value CatSuccess = ''success''"
| "category_value CatError = ''error''"
| "category_value CatTimeout = ''timeout''"
| "category_value CatCancelled = ''cancelled''"


subsection \<open>Redaction\<close>

definition sensitive_name_fragments :: "string list" where
  "sensitive_name_fragments =
     [''password'', ''secret'', ''token'', ''api_key'', ''authorization'', ''credential'']"

definition redacted_placeholder :: string where
  "redacted_placeholder = ''***REDACTED***''"

definition normalize_name :: "string \<Rightarrow> string" where
  "normalize_name name = filter (\<lambda>c. c \<notin> {CHR ''_'', CHR ''-''}) (py_lower name)"

definition normalized_sensitive_fragments :: "string list" where
  "normalized_sensitive_fragments = map normalize_name sensitive_name_fragments"

definition is_sensitive_name :: "string \<Rightarrow> bool" where
  "is_sensitive_name name =
     list_ex (\<lambda>fragment. str_contains fragment (normalize_name name)) normalized_sensitive_fragments"

function (sequential) redact :: "pyval \<Rightarrow> pyval" where
  "redact (PDict kvs) =
     PDict (map (\<lambda>(key, val). (key, if is_sensitive_name key then PStr redacted_placeholder
                                    else redact val)) kvs)"
| "redact (PList items) = PList (map redact items)"
| "redact (PTuple items) = PList (map redact items)"
| "redact v = v"
  by pat_completeness auto
termination
  by (relation "measure size") (auto dest!: size_list_elem size_dict_value)

function (sequential) keys_only :: "pyval \<Rightarrow> pyval" where
  "keys_only (PDict kvs) = PDict (map (\<lambda>(key, val). (key, keys_only val)) kvs)"
| "keys_only (PList items) = PList (map (\<lambda>_. PStr ''<item>'') items)"
| "keys_only (PTuple items) = PList (map (\<lambda>_. PStr ''<item>'') items)"
| "keys_only v = PStr ''<value>''"
  by pat_completeness auto
termination
  by (relation "measure size") (auto dest!: size_dict_value)

definition represent_arguments :: "args \<Rightarrow> string \<Rightarrow> pyval res" where
  "represent_arguments arguments mode =
     (if mode = ''none'' then Inr PNone
      else if mode = ''keys_only'' then Inr (keys_only (PDict arguments))
      else if mode = ''redacted'' then Inr (redact (PDict arguments))
      else if mode = ''full'' then Inr (PDict arguments)
      else Inl (ValueError (''unknown redaction mode: '' @ py_repr mode)))"

definition default_redaction_mode :: string where
  "default_redaction_mode = ''redacted''"


subsection \<open>The record\<close>

record audit_record =
  ar_correlation_id :: string
  ar_principal :: string
  ar_session_id :: "string option"
  ar_tool_name :: string
  ar_arguments :: args
  ar_outcome :: audit_outcome
  ar_matched_rule :: "string option"
  ar_schema_result :: stage_result
  ar_policy_result :: stage_result
  ar_rate_limit_result :: stage_result
  ar_concurrency_result :: stage_result
  ar_upstream_attempted :: bool
  ar_upstream_category :: "upstream_category option"
  ar_policy_latency_ms :: "pyfloat option"
  ar_upstream_latency_ms :: "pyfloat option"
  ar_total_latency_ms :: pyfloat
  ar_timestamp :: string

definition opt_val :: "('a \<Rightarrow> pyval) \<Rightarrow> 'a option \<Rightarrow> pyval" where
  "opt_val f x = (case x of None \<Rightarrow> PNone | Some y \<Rightarrow> f y)"

text \<open>The payload: \<open>asdict(record)\<close> with \<open>outcome\<close> and \<open>arguments\<close> replaced in place.\<close>

definition record_payload :: "audit_record \<Rightarrow> pyval \<Rightarrow> pyval" where
  "record_payload r represented = PDict
     [(''correlation_id'', PStr (ar_correlation_id r)),
      (''principal'', PStr (ar_principal r)),
      (''session_id'', opt_val PStr (ar_session_id r)),
      (''tool_name'', PStr (ar_tool_name r)),
      (''arguments'', represented),
      (''outcome'', PStr (outcome_value (ar_outcome r))),
      (''matched_rule'', opt_val PStr (ar_matched_rule r)),
      (''schema_result'', PStr (stage_value (ar_schema_result r))),
      (''policy_result'', PStr (stage_value (ar_policy_result r))),
      (''rate_limit_result'', PStr (stage_value (ar_rate_limit_result r))),
      (''concurrency_result'', PStr (stage_value (ar_concurrency_result r))),
      (''upstream_attempted'', PBool (ar_upstream_attempted r)),
      (''upstream_result_category'', opt_val (PStr \<circ> category_value) (ar_upstream_category r)),
      (''policy_latency_ms'', opt_val PFloat (ar_policy_latency_ms r)),
      (''upstream_latency_ms'', opt_val PFloat (ar_upstream_latency_ms r)),
      (''total_latency_ms'', PFloat (ar_total_latency_ms r)),
      (''timestamp'', PStr (ar_timestamp r))]"


subsection \<open>json.dumps\<close>

text \<open>
  \<open>repr\<close> of a finite float: the shortest decimal that reads back as the same binary64 number, of
  those with as few digits the nearest; in exponent notation below \<open>1e-4\<close> and from \<open>1e16\<close> on.
\<close>

definition pow10 :: "int \<Rightarrow> rat" where
  "pow10 e = (if 0 \<le> e then 10 ^ nat e else 1 / 10 ^ nat (- e))"

definition dec_exponent :: "rat \<Rightarrow> int" where
  "dec_exponent x =
     (if 1 \<le> x then int (length (nat_digits \<lfloor>x\<rfloor>)) - 1
      else - int (length (nat_digits (\<lceil>1 / x\<rceil> - 1))))"

definition decimal_candidate :: "rat \<Rightarrow> nat \<Rightarrow> (int \<times> int) option" where
  "decimal_candidate x n =
     (let s = dec_exponent x - int n + 1; lo = \<lfloor>x / pow10 s\<rfloor>; hi = lo + 1;
          ok = (\<lambda>m. f_round (of_int m * pow10 s) = Fin x);
          dlo = x - of_int lo * pow10 s; dhi = of_int hi * pow10 s - x
      in if ok lo \<and> (\<not> ok hi \<or> dlo < dhi \<or> (dlo = dhi \<and> even lo)) then Some (lo, s)
         else if ok hi then Some (hi, s) else None)"

fun first_some :: "('a \<Rightarrow> 'b option) \<Rightarrow> 'a list \<Rightarrow> 'b option" where
  "first_some f [] = None"
| "first_some f (x # xs) = (case f x of Some y \<Rightarrow> Some y | None \<Rightarrow> first_some f xs)"

definition shortest_decimal :: "rat \<Rightarrow> int \<times> int" where
  "shortest_decimal x =
     (case first_some (decimal_candidate x) [1..<18] of Some ms \<Rightarrow> ms | None \<Rightarrow> (0, 0))"

definition strip_zeros :: "string \<Rightarrow> string" where
  "strip_zeros ds = rev (dropWhile (\<lambda>c. c = CHR ''0'') (rev ds))"

definition zeros :: "nat \<Rightarrow> string" where
  "zeros n = replicate n (CHR ''0'')"

text \<open>Digits \<open>ds\<close> with the decimal point after \<open>point\<close> of them.\<close>

definition format_repr :: "string \<Rightarrow> int \<Rightarrow> string" where
  "format_repr ds point =
     (if - 4 < point \<and> point \<le> 16 then
        (if point \<le> 0 then ''0.'' @ zeros (nat (- point)) @ ds
         else if int (length ds) \<le> point then ds @ zeros (nat point - length ds) @ ''.0''
         else take (nat point) ds @ ''.'' @ drop (nat point) ds)
      else
        (let e = point - 1; es = nat_digits \<bar>e\<bar>
         in take 1 ds @ (if length ds = 1 then [] else CHR ''.'' # drop 1 ds) @ ''e'' @
            (if e < 0 then ''-'' else ''+'') @ (if length es = 1 then ''0'' else []) @ es))"

definition positive_repr :: "rat \<Rightarrow> string" where
  "positive_repr x =
     (case shortest_decimal x of (m, s) \<Rightarrow>
        let ds = nat_digits m in format_repr (strip_zeros ds) (int (length ds) + s))"

definition float_repr :: "rat \<Rightarrow> string" where
  "float_repr x =
     (if x = 0 then ''0.0'' else if x < 0 then CHR ''-'' # positive_repr (- x) else positive_repr x)"

definition json_float :: "pyfloat \<Rightarrow> string" where
  "json_float x =
     (case x of NaN \<Rightarrow> ''NaN'' | PInf \<Rightarrow> ''Infinity'' | NInf \<Rightarrow> ''-Infinity''
      | Fin q \<Rightarrow> float_repr q)"

text \<open>A string under \<open>ensure_ascii\<close>: everything but printable ASCII is escaped.\<close>

definition json_char :: "char \<Rightarrow> string" where
  "json_char c =
     (let n = of_char c :: nat
      in if n = 34 \<or> n = 92 then [CHR 0x5C, c]
         else if n = 10 then [CHR 0x5C, CHR ''n'']
         else if n = 13 then [CHR 0x5C, CHR ''r'']
         else if n = 9 then [CHR 0x5C, CHR ''t'']
         else if n = 12 then [CHR 0x5C, CHR ''f'']
         else if n = 8 then [CHR 0x5C, CHR ''b'']
         else if n < 32 \<or> 126 < n
           then [CHR 0x5C, CHR ''u'', CHR ''0'', CHR ''0'', hex_digit (n div 16), hex_digit (n mod 16)]
         else [c])"

definition json_string :: "string \<Rightarrow> string" where
  "json_string s = CHR 0x22 # concat (map json_char s) @ [CHR 0x22]"

function json_dumps :: "pyval \<Rightarrow> string" where
  "json_dumps PNone = ''null''"
| "json_dumps (PBool b) = (if b then ''true'' else ''false'')"
| "json_dumps (PInt n) = int_str n"
| "json_dumps (PFloat x) = json_float x"
| "json_dumps (PStr s) = json_string s"
| "json_dumps (PList xs) = ''['' @ py_join '','' (map json_dumps xs) @ '']''"
| "json_dumps (PTuple xs) = ''['' @ py_join '','' (map json_dumps xs) @ '']''"
| "json_dumps (PDict kvs) =
     ''{'' @ py_join '','' (map (\<lambda>(k, v). json_string k @ '':'' @ json_dumps v) kvs) @ ''}''"
  by pat_completeness auto
termination
  by (relation "measure size") (auto dest!: size_list_elem size_dict_value)


subsection \<open>AuditLogger\<close>

record audit_logger =
  al_redaction_mode :: string
  al_file :: string

definition make_logger :: "string \<Rightarrow> audit_logger" where
  "make_logger mode = \<lparr>al_redaction_mode = mode, al_file = []\<rparr>"

definition serialize :: "string \<Rightarrow> audit_record \<Rightarrow> string res" where
  "serialize mode r =
     (case represent_arguments (ar_arguments r) mode of
        Inl e \<Rightarrow> Inl e
      | Inr represented \<Rightarrow> Inr (json_dumps (record_payload r represented)))"

definition append_line :: "string \<Rightarrow> audit_logger \<Rightarrow> audit_logger" where
  "append_line line lg = lg\<lparr>al_file := al_file lg @ line\<rparr>"

text \<open>
  How the write ends: it succeeds; it raises, a part of the line being on disk; or the task is
  cancelled while it waits for the lock or the thread, and the thread, which is not interrupted,
  does the write all the same or never started.
\<close>

datatype write_outcome = Written | WriteFails exn nat | WriteCancelled bool

definition logger_emit ::
  "audit_record \<Rightarrow> write_outcome \<Rightarrow> audit_logger \<Rightarrow> unit res \<times> audit_logger" where
  "logger_emit r outcome lg =
     (case serialize (al_redaction_mode lg) r of
        Inl e \<Rightarrow> (Inl e, lg)
      | Inr text \<Rightarrow>
          (let line = text @ [CHR 0x0A] in
           case outcome of
             Written \<Rightarrow> (Inr (), append_line line lg)
           | WriteFails e n \<Rightarrow> (Inl e, append_line (take n line) lg)
           | WriteCancelled written \<Rightarrow>
               (Inl Cancelled, if written then append_line line lg else lg)))"

text \<open>A sequence of \<open>emit\<close> calls.\<close>

fun emit_all :: "(audit_record \<times> write_outcome) list \<Rightarrow> audit_logger \<Rightarrow> audit_logger" where
  "emit_all [] lg = lg"
| "emit_all ((r, w) # rs) lg = emit_all rs (snd (logger_emit r w lg))"


subsection \<open>LatencyTimer\<close>

record latency_timer =
  lt_start :: pyfloat

definition make_timer :: "pyfloat \<Rightarrow> latency_timer" where
  "make_timer now = \<lparr>lt_start = now\<rparr>"

definition elapsed_ms :: "pyfloat \<Rightarrow> latency_timer \<Rightarrow> pyfloat" where
  "elapsed_ms now t = f_mul (f_sub now (lt_start t)) (Fin 1000)"


subsection \<open>What redaction hides\<close>

definition seq_items :: "pyval \<Rightarrow> pyval list option" where
  "seq_items v = (case v of PList xs \<Rightarrow> Some xs | PTuple xs \<Rightarrow> Some xs | _ \<Rightarrow> None)"

definition is_leaf :: "pyval \<Rightarrow> bool" where
  "is_leaf v = (type_of v \<notin> {TList, TTuple, TDict})"

lemma is_leaf_simps [simp]:
  "is_leaf PNone" "is_leaf (PBool b)" "is_leaf (PInt n)" "is_leaf (PFloat x)" "is_leaf (PStr s)"
  "\<not> is_leaf (PList xs)" "\<not> is_leaf (PTuple xs)" "\<not> is_leaf (PDict kvs)"
  by (simp_all add: is_leaf_def)

lemma seq_items_simps [simp]:
  "seq_items (PList xs) = Some xs" "seq_items (PTuple xs) = Some xs" "seq_items (PDict kvs) = None"
  "is_leaf v \<Longrightarrow> seq_items v = None"
  by (simp_all add: seq_items_def) (cases v; simp)

lemma redact_leaf [simp]: "is_leaf v \<Longrightarrow> redact v = v"
  by (cases v) simp_all

lemma keys_only_leaf [simp]: "is_leaf v \<Longrightarrow> keys_only v = PStr ''<value>''"
  by (cases v) simp_all

text \<open>Every entry of every dictionary inside a value, at any depth.\<close>

inductive entry_of :: "pyval \<Rightarrow> string \<Rightarrow> pyval \<Rightarrow> bool" where
  entry_here: "(k, v) \<in> set kvs \<Longrightarrow> entry_of (PDict kvs) k v"
| entry_in_dict: "(l, w) \<in> set kvs \<Longrightarrow> entry_of w k v \<Longrightarrow> entry_of (PDict kvs) k v"
| entry_in_seq: "seq_items a = Some xs \<Longrightarrow> x \<in> set xs \<Longrightarrow> entry_of x k v \<Longrightarrow> entry_of a k v"

inductive_simps entry_of_Dict: "entry_of (PDict kvs) k v"
inductive_simps entry_of_List: "entry_of (PList xs) k v"

lemma entry_of_leaf: "entry_of a k v \<Longrightarrow> \<not> is_leaf a"
  by (induction rule: entry_of.induct) (auto simp: seq_items_def split: pyval.splits)

lemma redact_entry:
  "entry_of (redact v) k w \<Longrightarrow> is_sensitive_name k \<Longrightarrow> w = PStr redacted_placeholder"
proof (induction v rule: pyval_induct)
  case (PDict kvs)
  let ?f = "\<lambda>(key, val). (key, if is_sensitive_name key then PStr redacted_placeholder else redact val)"
  have "(k, w) \<in> set (map ?f kvs) \<or> (\<exists>l x. (l, x) \<in> set (map ?f kvs) \<and> entry_of x k w)"
    using PDict.prems(1) by (simp add: entry_of_Dict del: set_map)
  then consider (here) v where "(k, v) \<in> set kvs" "w = (if is_sensitive_name k then PStr redacted_placeholder else redact v)"
    | (inside) l v where "(l, v) \<in> set kvs" "entry_of (if is_sensitive_name l then PStr redacted_placeholder else redact v) k w"
    by auto
  then show ?case
  proof cases
    case inside
    then have "entry_of (redact v) k w" using entry_of_leaf [of "PStr redacted_placeholder"] by (auto split: if_splits)
    then show ?thesis using PDict inside by blast
  qed (use PDict.prems(2) in simp)
qed (auto simp: entry_of_List dest: entry_of_leaf)

lemma redact_idem: "redact (redact v) = redact v"
  by (induction v rule: pyval_induct) auto

text \<open>
  C13: In \<open>redacted\<close> mode no sensitive value survives: in the redacted arguments every entry of
  every dictionary, at any depth and inside lists, whose key is sensitive has the placeholder as its
  value; and redacting twice changes nothing more.
\<close>

theorem redaction_complete:
  "(\<forall>k w. entry_of (redact v) k w \<longrightarrow> is_sensitive_name k \<longrightarrow> w = PStr redacted_placeholder) \<and>
    redact (redact v) = redact v"
  using redact_entry redact_idem by blast

theorem redaction_complete_witness:
  "entry_of (redact (PDict [(''user'', PList [PDict [(''dbPassword'', PStr ''hunter2'')]])]))
     ''dbPassword'' (PStr redacted_placeholder) \<and>
   \<not> entry_of (redact (PDict [(''user'', PList [PDict [(''dbPassword'', PStr ''hunter2'')]])]))
     ''dbPassword'' (PStr ''hunter2'')"
proof -
  let ?a = "PDict [(''user'', PList [PDict [(''dbPassword'', PStr ''hunter2'')]])]"
  have s: "is_sensitive_name ''dbPassword''" "\<not> is_sensitive_name ''user''" by code_simp+
  have "\<not> entry_of (redact ?a) ''dbPassword'' (PStr ''hunter2'')"
    using redaction_complete [of ?a] s by (fastforce simp: redacted_placeholder_def)
  moreover have "entry_of (redact ?a) ''dbPassword'' (PStr redacted_placeholder)"
    using s by (auto simp: entry_of_Dict entry_of_List)
  ultimately show ?thesis by simp
qed

text \<open>Equality of two values up to what stands under sensitive keys.\<close>

inductive public_eq :: "pyval \<Rightarrow> pyval \<Rightarrow> bool" where
  public_leaf: "is_leaf v \<Longrightarrow> public_eq v v"
| public_seq: "seq_items a = Some xs \<Longrightarrow> seq_items b = Some ys \<Longrightarrow> list_all2 public_eq xs ys \<Longrightarrow>
    public_eq a b"
| public_dict: "list_all2 (\<lambda>d e. fst d = fst e \<and> (is_sensitive_name (fst d) \<or> public_eq (snd d) (snd e))) ds es \<Longrightarrow>
    public_eq (PDict ds) (PDict es)"

inductive_simps public_eq_DictL: "public_eq (PDict ds) b"
inductive_simps public_eq_ListL: "public_eq (PList xs) b"
inductive_simps public_eq_TupleL: "public_eq (PTuple xs) b"

lemma public_eq_leafL: "is_leaf a \<Longrightarrow> public_eq a b \<longleftrightarrow> b = a"
  by (auto elim: public_eq.cases intro: public_leaf)

lemma redact_eq_leaf: "is_leaf a \<Longrightarrow> redact b = a \<longleftrightarrow> b = a"
  by (cases b) auto

lemma map_eq_iff_list_all2: "map f xs = map g ys \<longleftrightarrow> list_all2 (\<lambda>x y. f x = g y) xs ys"
  by (auto simp: list_eq_iff_nth_eq list_all2_conv_all_nth)

lemma list_all2_cong_left:
  "(\<And>x y. x \<in> set xs \<Longrightarrow> P x y = Q x y) \<Longrightarrow> list_all2 P xs ys = list_all2 Q xs ys"
  by (auto simp: list_all2_conv_all_nth)

lemma redact_seq: "seq_items b = Some ys \<Longrightarrow> redact b = PList (map redact ys)"
  by (cases b) (simp_all add: seq_items_def)

lemma redact_eq_PList: "redact b = PList zs \<longleftrightarrow> (\<exists>ys. seq_items b = Some ys \<and> zs = map redact ys)"
  by (cases b) auto

text \<open>
  Non-interference. Two argument values have the same redacted form exactly if they agree
  outside the sensitive keys: the redacted form says nothing about a sensitive value (not its length
  or its type, not even that it is the same twice), and it loses nothing else.
\<close>

lemma redact_eq_iff: "redact a = redact b \<longleftrightarrow> public_eq a b"
proof (induction a arbitrary: b rule: pyval_induct)
  case (PList xs)
  have "redact (PList xs) = redact b \<longleftrightarrow>
      (\<exists>ys. seq_items b = Some ys \<and> list_all2 (\<lambda>x y. redact x = redact y) xs ys)"
    by (auto simp: redact_eq_PList map_eq_iff_list_all2 redact_seq eq_commute [of "PList _" "redact b"])
  then show ?case by (auto simp: public_eq_ListL PList.IH cong: list_all2_cong_left)
next
  case (PTuple xs)
  have "redact (PTuple xs) = redact b \<longleftrightarrow>
      (\<exists>ys. seq_items b = Some ys \<and> list_all2 (\<lambda>x y. redact x = redact y) xs ys)"
    by (auto simp: redact_eq_PList map_eq_iff_list_all2 redact_seq eq_commute [of "PList _" "redact b"])
  then show ?case by (auto simp: public_eq_TupleL PTuple.IH cong: list_all2_cong_left)
next
  case (PDict ds)
  show ?case
  proof (cases b)
    case (PDict es)
    have entry: "(case d of (key, val) \<Rightarrow> (key, if is_sensitive_name key then PStr redacted_placeholder else redact val)) =
        (case e of (key, val) \<Rightarrow> (key, if is_sensitive_name key then PStr redacted_placeholder else redact val)) \<longleftrightarrow>
        fst d = fst e \<and> (is_sensitive_name (fst d) \<or> public_eq (snd d) (snd e))" if "d \<in> set ds" for d e
      using PDict.IH [of "fst d" "snd d"] that by (cases d; cases e) auto
    show ?thesis
      by (simp add: public_eq_DictL PDict map_eq_iff_list_all2 list_all2_cong_left [OF entry])
  qed (auto simp: public_eq_DictL)
qed (auto simp: public_eq_leafL redact_eq_leaf eq_commute [of _ "redact _"])

text \<open>Equal up to the leaves and the items of lists.\<close>

inductive same_shape :: "pyval \<Rightarrow> pyval \<Rightarrow> bool" where
  shape_leaf: "is_leaf a \<Longrightarrow> is_leaf b \<Longrightarrow> same_shape a b"
| shape_seq: "seq_items a = Some xs \<Longrightarrow> seq_items b = Some ys \<Longrightarrow> length xs = length ys \<Longrightarrow> same_shape a b"
| shape_dict: "list_all2 (\<lambda>d e. fst d = fst e \<and> same_shape (snd d) (snd e)) ds es \<Longrightarrow>
    same_shape (PDict ds) (PDict es)"

inductive_simps same_shape_DictL: "same_shape (PDict ds) b"

lemma same_shape_leafL: "is_leaf a \<Longrightarrow> same_shape a b \<longleftrightarrow> is_leaf b"
  by (auto elim: same_shape.cases intro: shape_leaf)

lemma same_shape_seqL:
  "seq_items a = Some xs \<Longrightarrow> same_shape a b \<longleftrightarrow> (\<exists>ys. seq_items b = Some ys \<and> length xs = length ys)"
  by (auto elim: same_shape.cases intro: shape_seq)

lemma keys_only_seq: "seq_items a = Some xs \<Longrightarrow> keys_only a = PList (replicate (length xs) (PStr ''<item>''))"
  by (cases a) (simp_all add: seq_items_def map_replicate_const)

lemma keys_only_eq_value: "keys_only b = PStr ''<value>'' \<longleftrightarrow> is_leaf b"
  by (cases b) simp_all

lemma keys_only_eq_PList:
  "keys_only b = PList (replicate n (PStr ''<item>'')) \<longleftrightarrow> (\<exists>ys. seq_items b = Some ys \<and> n = length ys)"
  by (cases b) (auto simp: keys_only_seq map_replicate_const)

text \<open>
  \<open>keys_only\<close> mode shows the key names and nesting of dictionaries and the lengths of lists, and
  nothing else: two values are represented alike exactly if they have the same shape.
\<close>

lemma keys_only_shape: "keys_only a = keys_only b \<longleftrightarrow> same_shape a b"
proof (induction a arbitrary: b rule: pyval_induct)
  case (PList xs)
  then show ?case
    by (simp add: same_shape_seqL keys_only_eq_PList map_replicate_const eq_commute [of "PList _" "keys_only b"])
next
  case (PTuple xs)
  then show ?case
    by (simp add: same_shape_seqL keys_only_eq_PList map_replicate_const eq_commute [of "PList _" "keys_only b"])
next
  case (PDict ds)
  show ?case
  proof (cases b)
    case (PDict es)
    have entry: "fst d = fst e \<and> keys_only (snd d) = keys_only (snd e) \<longleftrightarrow>
        fst d = fst e \<and> same_shape (snd d) (snd e)" if "d \<in> set ds" for d e
      using PDict.IH [of "fst d" "snd d"] that by simp
    have "keys_only (PDict ds) = keys_only b \<longleftrightarrow>
        list_all2 (\<lambda>d e. fst d = fst e \<and> keys_only (snd d) = keys_only (snd e)) ds es"
      by (auto simp: PDict map_eq_iff_list_all2 case_prod_beta)
    also have "\<dots> \<longleftrightarrow> same_shape (PDict ds) b"
      by (simp add: same_shape_DictL PDict list_all2_cong_left [OF entry])
    finally show ?thesis .
  qed (auto simp: same_shape_DictL)
qed (auto simp: same_shape_leafL keys_only_eq_value eq_commute [of "PStr _" "keys_only _"])


text \<open>Which names are sensitive.\<close>

lemma normalize_name_append: "normalize_name (a @ b) = normalize_name a @ normalize_name b"
  by (simp add: normalize_name_def py_lower_def)

lemma str_contains_middle: "str_contains f (a @ f @ b)"
  by (simp add: str_contains_sublist)

text \<open>
  A name is sensitive if some spelling of a sensitive fragment occurs in it: any mix of upper and
  lower case, with \<open>_\<close> and \<open>-\<close> inserted or left out anywhere, and any text before and after it.
\<close>

lemma sensitive_spellings:
  assumes "f \<in> set sensitive_name_fragments" "normalize_name spelling = normalize_name f"
  shows "is_sensitive_name (prefix_text @ spelling @ suffix_text)"
  using assms str_contains_middle [of "normalize_name f"]
  by (auto simp: is_sensitive_name_def normalized_sensitive_fragments_def normalize_name_append list_ex_iff)


subsection \<open>One line per record\<close>

definition printable :: "string \<Rightarrow> bool" where
  "printable s = list_all (\<lambda>c. 32 \<le> (of_char c :: nat) \<and> (of_char c :: nat) < 127) s"

lemma printable_append [simp]: "printable (a @ b) \<longleftrightarrow> printable a \<and> printable b"
  by (simp add: printable_def)

lemma printable_Cons [simp]:
  "printable (c # s) \<longleftrightarrow> 32 \<le> (of_char c :: nat) \<and> (of_char c :: nat) < 127 \<and> printable s"
  by (auto simp: printable_def)

lemma printable_Nil [simp]: "printable []"
  by (simp add: printable_def)

lemma printable_subset: "set a \<subseteq> set b \<Longrightarrow> printable b \<Longrightarrow> printable a"
  by (auto simp: printable_def list_all_iff)

lemma printable_concat: "(\<And>x. x \<in> set xs \<Longrightarrow> printable x) \<Longrightarrow> printable (concat xs)"
  by (induction xs) auto

lemma printable_join: "printable sep \<Longrightarrow> (\<And>x. x \<in> set xs \<Longrightarrow> printable x) \<Longrightarrow> printable (py_join sep xs)"
  by (induction sep xs rule: py_join.induct) auto

lemma printable_no_newline: "printable s \<Longrightarrow> CHR 0x0A \<notin> set s"
  by (auto simp: printable_def list_all_iff)

lemma printable_take [simp]: "printable s \<Longrightarrow> printable (take n s)"
  by (rule printable_subset [OF set_take_subset])

lemma printable_drop [simp]: "printable s \<Longrightarrow> printable (drop n s)"
  by (rule printable_subset [OF set_drop_subset])

lemma printable_zeros [simp]: "printable (zeros n)"
  by (induction n) (simp_all add: zeros_def)

lemma printable_strip [simp]: "printable s \<Longrightarrow> printable (strip_zeros s)"
  by (rule printable_subset [of _ s]) (auto simp: strip_zeros_def dest: set_dropWhileD)

lemma digit_char: "n < 10 \<Longrightarrow> (of_char (char_of (48 + n) :: char) :: nat) = 48 + n"
  by simp

lemma printable_nat_digits [simp]: "printable (nat_digits n)"
proof (induction n rule: nat_digits.induct)
  case (1 n)
  have "n < 10 \<Longrightarrow> nat n < 10" "nat (n mod 10) < 10" by linarith+
  then show ?case using 1 by (subst nat_digits.simps) (auto simp: digit_char simp del: of_char_of)
qed

lemma printable_hex_digit: "n < 16 \<Longrightarrow> 32 \<le> (of_char (hex_digit n) :: nat) \<and> (of_char (hex_digit n) :: nat) < 127"
  by (simp add: hex_digit_def)

lemma printable_json_char: "printable (json_char c)"
proof -
  have "(of_char c :: nat) div 16 < 16" using of_char_lt [of c] by linarith
  then show ?thesis
    using printable_hex_digit [of "of_char c div 16"] printable_hex_digit [of "of_char c mod 16"]
    by (auto simp: json_char_def Let_def)
qed

lemma printable_json_string [simp]: "printable (json_string s)"
  using printable_json_char by (auto simp: json_string_def intro!: printable_concat)

lemma printable_json_float [simp]: "printable (json_float x)"
  by (cases x) (simp_all add: json_float_def float_repr_def positive_repr_def format_repr_def Let_def
      split: prod.split)

lemma printable_json: "printable (json_dumps v)"
  by (induction v rule: pyval_induct) (auto simp: int_str_def intro!: printable_join)

text \<open>The contract of an append-only log of lines.\<close>

locale line_log =
  fixes ok :: "'s \<Rightarrow> bool"
    and fits :: "'l \<Rightarrow> bool"
    and append :: "'l \<Rightarrow> 's \<Rightarrow> 's"
    and log_lines :: "'s \<Rightarrow> 'l list"
  assumes ok_append: "ok s \<Longrightarrow> fits l \<Longrightarrow> ok (append l s)"
    and lines_append: "ok s \<Longrightarrow> fits l \<Longrightarrow> log_lines (append l s) = log_lines s @ [l]"
begin

lemma ok_fold: "ok s \<Longrightarrow> (\<And>l. l \<in> set ls \<Longrightarrow> fits l) \<Longrightarrow> ok (fold append ls s)"
  by (induction ls arbitrary: s) (simp_all add: ok_append)

lemma lines_fold:
  "ok s \<Longrightarrow> (\<And>l. l \<in> set ls \<Longrightarrow> fits l) \<Longrightarrow> log_lines (fold append ls s) = log_lines s @ ls"
  by (induction ls arbitrary: s) (simp_all add: ok_append lines_append)

lemma earlier_lines_kept:
  "ok s \<Longrightarrow> (\<And>l. l \<in> set ls \<Longrightarrow> fits l) \<Longrightarrow> prefix (log_lines s) (log_lines (fold append ls s))"
  by (simp add: lines_fold)

end

text \<open>The text of the log file as lines: what precedes each newline.\<close>

definition file_lines :: "string \<Rightarrow> string list" where
  "file_lines f = butlast (py_split (CHR 0x0A) f)"

definition file_complete :: "string \<Rightarrow> bool" where
  "file_complete f = (f = [] \<or> last f = CHR 0x0A)"

lemma py_split_snoc: "sep \<notin> set l \<Longrightarrow> py_split sep (l @ [sep]) = [l, []]"
  by (induction l) auto

lemma py_split_append_line: "py_split sep (f @ [sep]) = py_split sep f @ [[]]"
  by (induction f) (auto split: list.splits)

lemma py_split_after: "py_split sep (f @ [sep] @ g) = py_split sep f @ py_split sep g"
  by (induction f) (auto split: list.splits)

lemma file_lines_append:
  assumes "file_complete f" "CHR 0x0A \<notin> set l"
  shows "file_lines (f @ l @ [CHR 0x0A]) = file_lines f @ [l]"
proof (cases f rule: rev_cases)
  case (snoc g c)
  then have f: "f = g @ [CHR 0x0A]" using assms(1) by (simp add: file_complete_def)
  have "py_split (CHR 0x0A) (f @ l @ [CHR 0x0A]) = py_split (CHR 0x0A) g @ [l, []]"
    unfolding f using py_split_after [of "CHR 0x0A" g "l @ [CHR 0x0A]"] py_split_snoc [OF assms(2)] by simp
  moreover have "py_split (CHR 0x0A) f = py_split (CHR 0x0A) g @ [[]]" by (simp add: f py_split_append_line)
  ultimately show ?thesis by (simp add: file_lines_def butlast_append)
qed (simp add: file_lines_def py_split_snoc assms)

interpretation jsonl: line_log "\<lambda>lg. file_complete (al_file lg)" "\<lambda>l. CHR 0x0A \<notin> set l"
    "\<lambda>l. append_line (l @ [CHR 0x0A])" "\<lambda>lg. file_lines (al_file lg)"
  by unfold_locales (simp_all add: append_line_def file_lines_append file_complete_def)

text \<open>The line of a record, and the records of a run that reached the file.\<close>

definition audit_line :: "string \<Rightarrow> audit_record \<Rightarrow> string" where
  "audit_line mode r = (case serialize mode r of Inr l \<Rightarrow> l | Inl _ \<Rightarrow> [])"

definition reached :: "write_outcome \<Rightarrow> bool" where
  "reached w = (w = Written \<or> w = WriteCancelled True)"

definition known_mode :: "string \<Rightarrow> bool" where
  "known_mode mode = (mode \<in> {''none'', ''keys_only'', ''redacted'', ''full''})"

lemma represent_arguments_known: "known_mode mode \<longleftrightarrow> (\<exists>v. represent_arguments a mode = Inr v)"
  by (auto simp: known_mode_def represent_arguments_def)

lemma serialize_known: "known_mode mode \<Longrightarrow> serialize mode r = Inr (audit_line mode r)"
  using represent_arguments_known [of mode "ar_arguments r"]
  by (auto simp: audit_line_def serialize_def)

lemma audit_line_no_newline: "CHR 0x0A \<notin> set (audit_line mode r)"
  by (auto simp: audit_line_def serialize_def printable_json printable_no_newline split: sum.splits)

lemma logger_emit_mode [simp]: "al_redaction_mode (snd (logger_emit r w lg)) = al_redaction_mode lg"
  by (simp add: logger_emit_def append_line_def Let_def split: sum.split write_outcome.split)

lemma logger_emit_whole:
  assumes "known_mode (al_redaction_mode lg)" "\<forall>e n. w \<noteq> WriteFails e n"
  shows "snd (logger_emit r w lg) =
    (if reached w then append_line (audit_line (al_redaction_mode lg) r @ [CHR 0x0A]) lg else lg)"
  using assms serialize_known [OF assms(1), of r]
  by (cases w) (simp_all add: logger_emit_def reached_def Let_def)

lemma emit_all_fold:
  assumes "known_mode mode" "al_redaction_mode lg = mode" "\<forall>r e n. (r, WriteFails e n) \<notin> set rs"
  shows "emit_all rs lg = fold (\<lambda>l. append_line (l @ [CHR 0x0A]))
    (map (audit_line mode \<circ> fst) (filter (reached \<circ> snd) rs)) lg"
  using assms
proof (induction rs arbitrary: lg)
  case (Cons rw rs)
  obtain r w where rw: "rw = (r, w)" by force
  then have "\<forall>e n. w \<noteq> WriteFails e n" using Cons.prems(3) by auto
  then have "snd (logger_emit r w lg) =
      (if reached w then append_line (audit_line mode r @ [CHR 0x0A]) lg else lg)"
    using Cons.prems logger_emit_whole by blast
  then show ?case using Cons by (auto simp: rw append_line_def)
qed simp

text \<open>
  The log is JSON lines. After any sequence of \<open>emit\<close> calls on a new log, some of them cancelled
  but none cut short by a failing write, the lines of the file are, one for one and in order, the
  serializations of the records that were written: no record spreads over two lines, whatever
  characters its strings contain, and none is lost or interleaved.
\<close>

lemma one_line_per_record:
  assumes "known_mode mode" "\<forall>r e n. (r, WriteFails e n) \<notin> set rs"
  shows "file_lines (al_file (emit_all rs (make_logger mode))) =
      map (audit_line mode \<circ> fst) (filter (reached \<circ> snd) rs)"
proof -
  have "emit_all rs (make_logger mode) = fold (\<lambda>l. append_line (l @ [CHR 0x0A]))
      (map (audit_line mode \<circ> fst) (filter (reached \<circ> snd) rs)) (make_logger mode)"
    using assms by (intro emit_all_fold) (simp_all add: make_logger_def)
  moreover have "file_lines (al_file (make_logger mode)) = []"
    by (simp add: make_logger_def file_lines_def)
  ultimately show ?thesis
    using jsonl.lines_fold [of "make_logger mode"
        "map (audit_line mode \<circ> fst) (filter (reached \<circ> snd) rs)"] audit_line_no_newline
    by (auto simp: make_logger_def file_complete_def)
qed

definition demo_record :: audit_record where
  "demo_record =
     \<lparr>ar_correlation_id = ''c1'', ar_principal = ''analyst'', ar_session_id = None, ar_tool_name = ''echo'',
      ar_arguments = [(''text'', PStr [CHR ''a'', CHR 0x0A, CHR ''b'']), (''token'', PStr ''t0'')],
      ar_outcome = UpstreamSuccess, ar_matched_rule = Some ''echo'', ar_schema_result = Passed,
      ar_policy_result = Passed, ar_rate_limit_result = Passed, ar_concurrency_result = Passed,
      ar_upstream_attempted = True, ar_upstream_category = Some CatSuccess,
      ar_policy_latency_ms = Some (Fin 1), ar_upstream_latency_ms = Some (Fin 2),
      ar_total_latency_ms = Fin 4, ar_timestamp = ''2025-01-01T00:00:00+00:00''\<rparr>"

text \<open>Two records that agree on all fields but the arguments, and on these up to sensitive values.\<close>

definition public_eq_record :: "audit_record \<Rightarrow> audit_record \<Rightarrow> bool" where
  "public_eq_record r s =
     (public_eq (PDict (ar_arguments r)) (PDict (ar_arguments s)) \<and>
      s = r\<lparr>ar_arguments := ar_arguments s\<rparr>)"

text \<open>
  C24: End to end, the default log file carries no sensitive argument value: two runs whose records
  agree up to the values under sensitive keys, and whose writes end alike (failing and cancelled ones
  included), leave byte for byte the same file.
\<close>

theorem log_file_noninterference:
  assumes "list_all2 (\<lambda>a b. public_eq_record (fst a) (fst b) \<and> snd a = snd b) rs ss"
  shows "al_file (emit_all rs (make_logger default_redaction_mode)) =
    al_file (emit_all ss (make_logger default_redaction_mode))"
proof -
  have line: "serialize default_redaction_mode r = serialize default_redaction_mode s"
    if m: "public_eq_record r s" for r s
  proof -
    obtain a where s: "s = r\<lparr>ar_arguments := a\<rparr>" using m unfolding public_eq_record_def by blast
    then have "redact (PDict (ar_arguments r)) = redact (PDict a)"
      using m by (simp add: public_eq_record_def redact_eq_iff del: redact.simps)
    then show ?thesis
      by (simp add: s serialize_def represent_arguments_def default_redaction_mode_def record_payload_def
          del: redact.simps)
  qed
  have emit: "logger_emit r w lg = logger_emit s w lg"
    if "public_eq_record r s" "al_redaction_mode lg = default_redaction_mode" for r s w lg
    using line [OF that(1)] that(2) by (simp add: logger_emit_def)
  have "al_redaction_mode lg = default_redaction_mode \<Longrightarrow> emit_all rs lg = emit_all ss lg" for lg
    using assms
  proof (induction arbitrary: lg rule: list_all2_induct)
    case (Cons a rs b ss)
    then show ?case using emit by (cases a; cases b) auto
  qed simp
  then show ?thesis by (simp add: make_logger_def)
qed

theorem log_file_noninterference_witness:
  "al_file (emit_all [(demo_record, Written)] (make_logger default_redaction_mode)) =
   al_file (emit_all [(demo_record\<lparr>ar_arguments :=
      [(''text'', PStr [CHR ''a'', CHR 0x0A, CHR ''b'']), (''token'', PInt 7)]\<rparr>, Written)]
      (make_logger default_redaction_mode))"
proof (rule log_file_noninterference)
  have "is_sensitive_name ''token''" by code_simp
  then have "public_eq_record demo_record (demo_record\<lparr>ar_arguments :=
      [(''text'', PStr [CHR ''a'', CHR 0x0A, CHR ''b'']), (''token'', PInt 7)]\<rparr>)"
    by (simp add: public_eq_record_def demo_record_def public_eq_DictL public_eq_leafL)
  then show "list_all2 (\<lambda>a b. public_eq_record (fst a) (fst b) \<and> snd a = snd b) [(demo_record, Written)]
    [(demo_record\<lparr>ar_arguments :=
      [(''text'', PStr [CHR ''a'', CHR 0x0A, CHR ''b'']), (''token'', PInt 7)]\<rparr>, Written)]" by simp
qed

end
