(* ===== verification/Bridge.thy ===== *)
theory Bridge
  imports PolicyEngine Identity GatewayLimits AuditLog
begin

text \<open>
  The bridge: sentinelmcp/gateway/bridge.py. A call of \<open>handle_call_tool\<close> is a computation over the
  gateway's shared state (rate limiter, tool cache, audit logger), the handler's local variables and
  the concurrency limiter, which returns or raises (\<open>'a act\<close>); one definition per stage of the
  pipeline, in the order of the source. What comes from outside the program is in \<open>call_env\<close>: the
  answers of the upstream client, the clock readings, how each audit write ends. The calls of
  \<open>upstream.call_tool\<close> and \<open>upstream.list_tools\<close> are recorded in the state.

  One call runs at a time here; a cancellation reaches the handler at the three places where it
  suspends: the fetch of the tool list, the upstream call and the audit write. (No other \<open>await\<close> of
  the handler suspends: the locks of the limiters are never contended.)

  The locale \<open>step_relation\<close> carries what a relation between the states before and after is kept by
  every act that is put together from acts that keep it.
\<close>

subsection \<open>Data of the SDK that the bridge handles\<close>

record tool =
  tl_name :: string
  tl_input_schema :: "pyval option"
  tl_rest :: args

datatype content = TextContent string | OtherContent pyval

record call_result =
  cr_content :: "content list"
  cr_is_error :: bool
  cr_meta :: "args option"
  cr_rest :: args

record call_params =
  cp_name :: string
  cp_arguments :: "args option"


subsection \<open>UpstreamToolCache\<close>

type_synonym tool_cache = "tool list option"

text \<open>\<open>fetched\<close> is the outcome of \<open>upstream.list_tools()\<close>, used if the cache is empty.\<close>

definition cache_get :: "tool list res \<Rightarrow> tool_cache \<Rightarrow> tool list res \<times> tool_cache" where
  "cache_get fetched cache =
     (case cache of
        Some tools \<Rightarrow> (Inr tools, cache)
      | None \<Rightarrow> (case fetched of Inl e \<Rightarrow> (Inl e, None) | Inr tools \<Rightarrow> (Inr tools, Some tools)))"

definition cache_invalidate :: "tool_cache \<Rightarrow> tool_cache" where
  "cache_invalidate cache = None"


subsection \<open>Results\<close>

definition error_result :: "string \<Rightarrow> call_result" where
  "error_result text =
     \<lparr>cr_content = [TextContent text], cr_is_error = True, cr_meta = None, cr_rest = []\<rparr>"

definition denied_result :: "string \<Rightarrow> call_result" where
  "denied_result tool_name = error_result (''Unknown tool: '' @ tool_name)"

definition schema_invalid_result :: "string \<Rightarrow> string \<Rightarrow> call_result" where
  "schema_invalid_result tool_name reason =
     error_result (''Schema-invalid arguments for '' @ tool_name @ '': '' @ reason)"

definition policy_invalid_result :: "string \<Rightarrow> string \<Rightarrow> call_result" where
  "policy_invalid_result tool_name reason =
     error_result (''Argument policy violation for '' @ tool_name @ '': '' @ reason)"

definition rate_limited_result :: "string \<Rightarrow> call_result" where
  "rate_limited_result tool_name = error_result (''Rate limit exceeded for '' @ tool_name)"

definition concurrency_rejected_result :: "string \<Rightarrow> call_result" where
  "concurrency_rejected_result tool_name = error_result (''Concurrency limit exceeded for '' @ tool_name)"

definition upstream_timeout_result :: "string \<Rightarrow> call_result" where
  "upstream_timeout_result tool_name = error_result (''Upstream timeout for '' @ tool_name)"

definition upstream_error_result :: "string \<Rightarrow> string \<Rightarrow> call_result" where
  "upstream_error_result tool_name reason =
     error_result (''Upstream error for '' @ tool_name @ '': '' @ reason)"

definition finalize :: "string \<Rightarrow> call_result \<Rightarrow> call_result" where
  "finalize correlation_id result =
     result\<lparr>cr_meta := Some (dict_set (case cr_meta result of None \<Rightarrow> [] | Some m \<Rightarrow> m)
       ''correlation_id'' (PStr correlation_id))\<rparr>"


subsection \<open>State and environment of the handlers\<close>

record gateway =
  gw_rate :: rate_limiter
  gw_cache :: tool_cache
  gw_audit :: audit_logger
  gw_forwarded :: "(string \<times> args) list"  \<comment> \<open>calls of \<open>upstream.call_tool\<close>\<close>
  gw_fetches :: nat  \<comment> \<open>calls of \<open>upstream.list_tools\<close>\<close>

text \<open>The local variables of \<open>handle_call_tool\<close>, and how many clock readings and writes it made.\<close>

record call_locals =
  lo_rate_limit_result :: stage_result
  lo_schema_result :: stage_result
  lo_policy_result :: stage_result
  lo_concurrency_result :: stage_result
  lo_matched_rule :: "string option"
  lo_policy_latency_ms :: "pyfloat option"
  lo_upstream_latency_ms :: "pyfloat option"
  lo_audit_emitted :: bool
  lo_readings :: nat
  lo_writes :: nat

definition initial_locals :: call_locals where
  "initial_locals =
     \<lparr>lo_rate_limit_result = Failed, lo_schema_result = NotEvaluated, lo_policy_result = NotEvaluated,
      lo_concurrency_result = NotEvaluated, lo_matched_rule = None, lo_policy_latency_ms = None,
      lo_upstream_latency_ms = None, lo_audit_emitted = False, lo_readings = 0, lo_writes = 0\<rparr>"

text \<open>What the handler is built from, and the two third-party functions it uses.\<close>

record bridge_config =
  bc_policy :: policy_config
  bc_timeout :: "pyfloat option"
  bc_js :: "pyval \<Rightarrow> pyval \<Rightarrow> js_outcome"
  bc_fullmatch :: "string \<Rightarrow> string \<Rightarrow> bool"

record call_env =
  ce_principal :: "string option"
  ce_session_id :: "string option"
  ce_correlation_id :: string
  ce_rate_new :: pyfloat
  ce_rate_now :: pyfloat
  ce_list_tools :: "tool list res"
  ce_answer :: "string \<Rightarrow> args \<Rightarrow> call_result res"
  ce_duration :: rat
  ce_monotonic :: "nat \<Rightarrow> pyfloat"
  ce_timestamp :: "nat \<Rightarrow> string"
  ce_write :: "nat \<Rightarrow> write_outcome"

type_synonym call_state = "(gateway \<times> call_locals) \<times> concurrency_limiter"
type_synonym 'a act = "call_state \<Rightarrow> 'a res \<times> call_state"

definition act_return :: "'a \<Rightarrow> 'a act" where
  "act_return x = (\<lambda>s. (Inr x, s))"

definition act_raise :: "exn \<Rightarrow> 'a act" where
  "act_raise e = (\<lambda>s. (Inl e, s))"

definition act_bind :: "'a act \<Rightarrow> ('a \<Rightarrow> 'b act) \<Rightarrow> 'b act" where
  "act_bind m f = (\<lambda>s. case m s of (Inl e, s') \<Rightarrow> (Inl e, s') | (Inr x, s') \<Rightarrow> f x s')"

definition act_then :: "'a act \<Rightarrow> 'b act \<Rightarrow> 'b act" where
  "act_then m n = act_bind m (\<lambda>_. n)"

text \<open>\<open>try: m except ... as e: handler e\<close>.\<close>

definition act_try :: "'a act \<Rightarrow> (exn \<Rightarrow> 'a act) \<Rightarrow> 'a act" where
  "act_try m handler = (\<lambda>s. case m s of (Inl e, s') \<Rightarrow> handler e s' | (Inr x, s') \<Rightarrow> (Inr x, s'))"

definition set_local :: "(call_locals \<Rightarrow> call_locals) \<Rightarrow> unit act" where
  "set_local f = (\<lambda>((g, l), cl). (Inr (), ((g, f l), cl)))"

definition read_clock :: "call_env \<Rightarrow> pyfloat act" where
  "read_clock E = (\<lambda>((g, l), cl).
     (Inr (ce_monotonic E (lo_readings l)), ((g, l\<lparr>lo_readings := Suc (lo_readings l)\<rparr>), cl)))"


subsection \<open>The handler's helpers\<close>

text \<open>What one call works on: the values fixed at the top of \<open>handle_call_tool\<close>.\<close>

record call_context =
  cx_principal :: string
  cx_tool_name :: string
  cx_arguments :: args
  cx_total_timer :: latency_timer

definition make_record ::
  "call_env \<Rightarrow> call_context \<Rightarrow> call_locals \<Rightarrow> audit_outcome \<Rightarrow> bool \<Rightarrow> upstream_category option
    \<Rightarrow> pyfloat \<Rightarrow> audit_record" where
  "make_record E X l outcome attempted category now =
     \<lparr>ar_correlation_id = ce_correlation_id E, ar_principal = cx_principal X,
      ar_session_id = ce_session_id E, ar_tool_name = cx_tool_name X, ar_arguments = cx_arguments X,
      ar_outcome = outcome, ar_matched_rule = lo_matched_rule l,
      ar_schema_result = lo_schema_result l, ar_policy_result = lo_policy_result l,
      ar_rate_limit_result = lo_rate_limit_result l,
      ar_concurrency_result = lo_concurrency_result l, ar_upstream_attempted = attempted,
      ar_upstream_category = category, ar_policy_latency_ms = lo_policy_latency_ms l,
      ar_upstream_latency_ms = lo_upstream_latency_ms l,
      ar_total_latency_ms = elapsed_ms now (cx_total_timer X),
      ar_timestamp = ce_timestamp E (lo_writes l)\<rparr>"

text \<open>\<open>await audit_logger.emit(record)\<close>.\<close>

definition write_record :: "call_env \<Rightarrow> audit_record \<Rightarrow> unit act" where
  "write_record E r = (\<lambda>((g, l), cl).
     case logger_emit r (ce_write E (lo_writes l)) (gw_audit g) of (res, lg) \<Rightarrow>
       (res, ((g\<lparr>gw_audit := lg\<rparr>, l\<lparr>lo_writes := Suc (lo_writes l)\<rparr>), cl)))"

definition get_locals :: "call_locals act" where
  "get_locals = (\<lambda>((g, l), cl). (Inr l, ((g, l), cl)))"

definition emit ::
  "call_env \<Rightarrow> call_context \<Rightarrow> audit_outcome \<Rightarrow> bool \<Rightarrow> upstream_category option \<Rightarrow> unit act" where
  "emit E X outcome attempted category =
     act_bind (read_clock E) (\<lambda>now.
     act_bind get_locals (\<lambda>l.
     act_then (write_record E (make_record E X l outcome attempted category now))
              (set_local (\<lambda>l. l\<lparr>lo_audit_emitted := True\<rparr>))))"

text \<open>\<open>await emit(...); return finalize(...)\<close>.\<close>

definition emit_and_return ::
  "call_env \<Rightarrow> call_context \<Rightarrow> audit_outcome \<Rightarrow> bool \<Rightarrow> upstream_category option \<Rightarrow> call_result
    \<Rightarrow> call_result act" where
  "emit_and_return E X outcome attempted category result =
     act_then (emit E X outcome attempted category)
              (act_return (finalize (ce_correlation_id E) result))"


subsection \<open>The stages\<close>

text \<open>\<open>await rate_limiter.try_acquire(principal)\<close>.\<close>

definition acquire_token :: "call_env \<Rightarrow> call_context \<Rightarrow> bool act" where
  "acquire_token E X = (\<lambda>((g, l), cl).
     case rate_try_acquire (cx_principal X) (ce_rate_new E) (ce_rate_now E) (gw_rate g) of (ok, rl) \<Rightarrow>
       (ok, ((g\<lparr>gw_rate := rl\<rparr>, l), cl)))"

text \<open>\<open>await cache.get(upstream)\<close>.\<close>

definition get_tools :: "call_env \<Rightarrow> tool list act" where
  "get_tools E = (\<lambda>((g, l), cl).
     case cache_get (ce_list_tools E) (gw_cache g) of (tools, cache) \<Rightarrow>
       (tools, ((g\<lparr>gw_cache := cache,
                   gw_fetches := gw_fetches g + (if gw_cache g = None then 1 else 0)\<rparr>, l), cl)))"

text \<open>
  The upstream call, under the timeout if there is one; the outcome is a value, for the \<open>except\<close>
  clauses around the call alone. \<open>asyncio.wait_for\<close> gives up once the timeout has passed.
\<close>

definition upstream_reply :: "bridge_config \<Rightarrow> call_env \<Rightarrow> string \<Rightarrow> args \<Rightarrow> call_result res" where
  "upstream_reply C E tool_name arguments =
     (case bc_timeout C of
        None \<Rightarrow> ce_answer E tool_name arguments
      | Some t \<Rightarrow> if f_less t (Fin (ce_duration E)) then Inl (TimeoutErr '''')
                  else ce_answer E tool_name arguments)"

definition call_upstream :: "bridge_config \<Rightarrow> call_env \<Rightarrow> call_context \<Rightarrow> call_result res act" where
  "call_upstream C E X = (\<lambda>((g, l), cl).
     (Inr (upstream_reply C E (cx_tool_name X) (cx_arguments X)),
      ((g\<lparr>gw_forwarded := gw_forwarded g @ [(cx_tool_name X, cx_arguments X)]\<rparr>, l), cl)))"

definition stop_upstream_timer :: "call_env \<Rightarrow> latency_timer \<Rightarrow> unit act" where
  "stop_upstream_timer E t =
     act_bind (read_clock E) (\<lambda>now.
       set_local (\<lambda>l. l\<lparr>lo_upstream_latency_ms := Some (elapsed_ms now t)\<rparr>))"

definition stop_policy_timer :: "call_env \<Rightarrow> latency_timer \<Rightarrow> unit act" where
  "stop_policy_timer E t =
     act_bind (read_clock E) (\<lambda>now.
       set_local (\<lambda>l. l\<lparr>lo_policy_latency_ms := Some (elapsed_ms now t)\<rparr>))"

text \<open>The reply of the upstream, clause by clause.\<close>

definition handle_reply ::
  "call_env \<Rightarrow> call_context \<Rightarrow> latency_timer \<Rightarrow> call_result res \<Rightarrow> call_result act" where
  "handle_reply E X t reply =
     (case reply of
        Inl (TimeoutErr _) \<Rightarrow>
          act_then (stop_upstream_timer E t)
            (emit_and_return E X UpstreamTimeout True (Some CatTimeout)
               (upstream_timeout_result (cx_tool_name X)))
      | Inl Cancelled \<Rightarrow>
          act_then (stop_upstream_timer E t)
            (act_then (emit E X OutcomeCancelled True (Some CatCancelled)) (act_raise Cancelled))
      | Inl (Exc cls m) \<Rightarrow>
          act_then (stop_upstream_timer E t)
            (emit_and_return E X UpstreamError True (Some CatError)
               (upstream_error_result (cx_tool_name X) (exn_str (Exc cls m))))
      | Inl (BaseExc m) \<Rightarrow> act_raise (BaseExc m)
      | Inr result \<Rightarrow>
          act_then (stop_upstream_timer E t)
            (emit_and_return E X UpstreamSuccess True (Some CatSuccess) result))"

text \<open>The body of \<open>async with concurrency_limiter.acquire(principal) as acquired\<close>.\<close>

definition stage_forward :: "bridge_config \<Rightarrow> call_env \<Rightarrow> call_context \<Rightarrow> bool \<Rightarrow> call_result act" where
  "stage_forward C E X acquired =
     (if \<not> acquired then
        act_then (set_local (\<lambda>l. l\<lparr>lo_concurrency_result := Failed\<rparr>))
          (emit_and_return E X ConcurrencyRejected False None
             (concurrency_rejected_result (cx_tool_name X)))
      else
        act_then (set_local (\<lambda>l. l\<lparr>lo_concurrency_result := Passed\<rparr>))
          (act_bind (read_clock E) (\<lambda>start.
             act_bind (call_upstream C E X) (handle_reply E X (make_timer start)))))"

text \<open>The constraints of the policy on the arguments, then the concurrency ceiling.\<close>

definition stage_arguments ::
  "bridge_config \<Rightarrow> call_env \<Rightarrow> call_context \<Rightarrow> tool_policy \<Rightarrow> latency_timer \<Rightarrow> call_result act" where
  "stage_arguments C E X tp policy_timer =
     (let policy_violation = evaluate_argument_policy (bc_fullmatch C) tp (cx_arguments X) in
      act_then (stop_policy_timer E policy_timer)
        (case policy_violation of
           Some reason \<Rightarrow>
             act_then (set_local (\<lambda>l. l\<lparr>lo_policy_result := Failed\<rparr>))
               (emit_and_return E X PolicyDenied False None
                  (policy_invalid_result (cx_tool_name X) reason))
         | None \<Rightarrow>
             act_then (set_local (\<lambda>l. l\<lparr>lo_policy_result := Passed\<rparr>))
               (with_slot (cx_principal X) (stage_forward C E X))))"

definition stage_schema ::
  "bridge_config \<Rightarrow> call_env \<Rightarrow> call_context \<Rightarrow> tool_policy \<Rightarrow> tool \<Rightarrow> call_result act" where
  "stage_schema C E X tp upstream_tool =
     act_bind (read_clock E) (\<lambda>start.
       case validate_input_schema (bc_js C) (tl_input_schema upstream_tool) (cx_arguments X) of
         Inl e \<Rightarrow> act_raise e
       | Inr (Some reason) \<Rightarrow>
           act_then (set_local (\<lambda>l. l\<lparr>lo_schema_result := Failed\<rparr>))
             (act_then (stop_policy_timer E (make_timer start))
               (emit_and_return E X SchemaRejected False None
                  (schema_invalid_result (cx_tool_name X) reason)))
       | Inr None \<Rightarrow>
           act_then (set_local (\<lambda>l. l\<lparr>lo_schema_result := Passed\<rparr>))
             (stage_arguments C E X tp (make_timer start)))"

text \<open>The rejection shared by an unauthorized and an unknown tool.\<close>

definition deny_as_unknown :: "call_env \<Rightarrow> call_context \<Rightarrow> call_result act" where
  "deny_as_unknown E X =
     act_then (set_local (\<lambda>l. l\<lparr>lo_policy_result := Failed\<rparr>))
       (emit_and_return E X PolicyDenied False None (denied_result (cx_tool_name X)))"

definition stage_authorize :: "bridge_config \<Rightarrow> call_env \<Rightarrow> call_context \<Rightarrow> call_result act" where
  "stage_authorize C E X =
     (let tool_policy = resolve_tool_policy (bc_policy C) (cx_principal X) (cx_tool_name X);
          named = (case dict_get (pc_principals (bc_policy C)) (cx_principal X) of
                     None \<Rightarrow> False
                   | Some pp \<Rightarrow> dict_get (pp_tools pp) (cx_tool_name X) \<noteq> None)
      in act_then (set_local (\<lambda>l. if named then l\<lparr>lo_matched_rule := Some (cx_tool_name X)\<rparr> else l))
        (case tool_policy of
           None \<Rightarrow> deny_as_unknown E X
         | Some tp \<Rightarrow>
             act_bind (get_tools E) (\<lambda>upstream_tools.
               case find (\<lambda>t. tl_name t = cx_tool_name X) upstream_tools of
                 None \<Rightarrow> deny_as_unknown E X
               | Some upstream_tool \<Rightarrow> stage_schema C E X tp upstream_tool)))"

definition stage_rate :: "bridge_config \<Rightarrow> call_env \<Rightarrow> call_context \<Rightarrow> call_result act" where
  "stage_rate C E X =
     act_bind (acquire_token E X) (\<lambda>ok.
       if \<not> ok then
         emit_and_return E X RateLimited False None (rate_limited_result (cx_tool_name X))
       else
         act_then (set_local (\<lambda>l. l\<lparr>lo_rate_limit_result := Passed\<rparr>)) (stage_authorize C E X))"

text \<open>The outer \<open>except\<close> clauses.\<close>

definition emit_unless_emitted :: "call_env \<Rightarrow> call_context \<Rightarrow> audit_outcome \<Rightarrow> unit act" where
  "emit_unless_emitted E X outcome =
     act_bind get_locals (\<lambda>l.
       if lo_audit_emitted l then act_return () else emit E X outcome False None)"

definition handle_escape :: "call_env \<Rightarrow> call_context \<Rightarrow> exn \<Rightarrow> call_result act" where
  "handle_escape E X e =
     (if e = Cancelled then act_then (emit_unless_emitted E X OutcomeCancelled) (act_raise e)
      else if is_exception e then act_then (emit_unless_emitted E X InternalError) (act_raise e)
      else act_raise e)"

definition run_call :: "bridge_config \<Rightarrow> call_env \<Rightarrow> call_context \<Rightarrow> call_result act" where
  "run_call C E X = act_try (stage_rate C E X) (handle_escape E X)"


subsection \<open>The handlers\<close>

type_synonym gateway_state = "gateway \<times> concurrency_limiter"

definition call_arguments :: "call_params \<Rightarrow> args" where
  "call_arguments params = (case cp_arguments params of None \<Rightarrow> [] | Some a \<Rightarrow> a)"

definition call_ctx :: "call_env \<Rightarrow> call_params \<Rightarrow> string \<Rightarrow> call_context" where
  "call_ctx E params prin =
     \<lparr>cx_principal = prin, cx_tool_name = cp_name params, cx_arguments = call_arguments params,
      cx_total_timer = make_timer (ce_monotonic E 0)\<rparr>"

definition handle_call_tool ::
  "bridge_config \<Rightarrow> call_env \<Rightarrow> call_params \<Rightarrow> gateway_state \<Rightarrow> call_result res \<times> gateway_state" where
  "handle_call_tool C E params = (\<lambda>(g, cl).
     case current_principal (ce_principal E) of
       Inl e \<Rightarrow> (Inl e, (g, cl))
     | Inr prin \<Rightarrow>
         (case run_call C E (call_ctx E params prin) ((g, initial_locals\<lparr>lo_readings := 1\<rparr>), cl) of
            (r, ((g', _), cl')) \<Rightarrow> (r, (g', cl'))))"

definition handle_list_tools ::
  "bridge_config \<Rightarrow> call_env \<Rightarrow> gateway_state \<Rightarrow> tool list res \<times> gateway_state" where
  "handle_list_tools C E = (\<lambda>(g, cl).
     case current_principal (ce_principal E) of
       Inl e \<Rightarrow> (Inl e, (g, cl))
     | Inr prin \<Rightarrow>
         (case get_tools E ((g, initial_locals), cl) of
            (Inl e, ((g', _), cl')) \<Rightarrow> (Inl e, (g', cl'))
          | (Inr tools, ((g', _), cl')) \<Rightarrow>
              (Inr (filter (\<lambda>tool. is_tool_allowed (bc_policy C) prin (tl_name tool)) tools), (g', cl'))))"


subsection \<open>A concrete gateway\<close>

definition demo_bridge :: bridge_config where
  "demo_bridge =
     \<lparr>bc_policy = demo_policy, bc_timeout = None, bc_js = (\<lambda>_ _. JsValid), bc_fullmatch = (\<lambda>_ _. True)\<rparr>"

definition demo_call_env :: call_env where
  "demo_call_env =
     \<lparr>ce_principal = Some ''analyst'', ce_session_id = None, ce_correlation_id = ''c1'',
      ce_rate_new = Fin 0, ce_rate_now = Fin 0,
      ce_list_tools = Inr [\<lparr>tl_name = ''echo'', tl_input_schema = None, tl_rest = []\<rparr>],
      ce_answer = (\<lambda>_ _. Inr \<lparr>cr_content = [TextContent ''hi''], cr_is_error = False, cr_meta = None, cr_rest = []\<rparr>),
      ce_duration = 1, ce_monotonic = (\<lambda>n. Fin (of_nat n)), ce_timestamp = (\<lambda>_. ''t''),
      ce_write = (\<lambda>_. Written)\<rparr>"

definition demo_params :: call_params where
  "demo_params = \<lparr>cp_name = ''echo'', cp_arguments = Some [(''text'', PStr ''hi'')]\<rparr>"

definition demo_gateway :: gateway where
  "demo_gateway =
     \<lparr>gw_rate = make_rate_limiter (Fin 2) (Fin 1), gw_cache = None, gw_audit = make_logger ''redacted'',
      gw_forwarded = [], gw_fetches = 0\<rparr>"

definition demo_limiter :: concurrency_limiter where
  "demo_limiter = \<lparr>cl_max_concurrent = 2, cl_active = [], cl_peak = []\<rparr>"

definition demo_result :: "call_result res \<times> gateway_state" where
  "demo_result = handle_call_tool demo_bridge demo_call_env demo_params (demo_gateway, demo_limiter)"

lemma demo_call_env_simps [simp]:
  "ce_principal demo_call_env = Some ''analyst''" "ce_write demo_call_env n = Written" "ce_correlation_id demo_call_env = ''c1''"
  by (simp_all add: demo_call_env_def)

lemma demo_gateway_mode [simp]: "known_mode (al_redaction_mode (gw_audit demo_gateway))"
  by (simp add: demo_gateway_def make_logger_def known_mode_def)

lemma demo_limiter_inv: "limiter_inv demo_limiter"
  by (rule limiter_inv_init [of 2]) (simp add: make_concurrency_limiter_def demo_limiter_def)

lemma demo_result_collapse:
  "handle_call_tool demo_bridge demo_call_env demo_params (demo_gateway, demo_limiter) =
    (fst demo_result, (fst (snd demo_result), snd (snd demo_result)))"
  by (simp add: demo_result_def)

text \<open>A policy with the same principal and no tools.\<close>

definition demo_bridge_denying :: bridge_config where
  "demo_bridge_denying = demo_bridge\<lparr>bc_policy := \<lparr>pc_principals =
     [(''analyst'', \<lparr>pp_api_key_env = ''ANALYST_KEY'', pp_tools = []\<rparr>)]\<rparr>\<rparr>"

lemma demo_denied:
  "resolve_tool_policy (bc_policy demo_bridge_denying) ''analyst'' ''echo'' = None"
  "resolve_tool_policy (bc_policy demo_bridge) ''analyst'' ''echo'' \<noteq> None"
  "fst (rate_try_acquire ''analyst'' (ce_rate_new demo_call_env) (ce_rate_now demo_call_env) (gw_rate demo_gateway)) = Inr True"
  by code_simp+

end
