(* ===== verification/BridgeEffects.thy ===== *)
theory BridgeEffects
  imports Bridge
begin

text \<open>
  What a call does besides answering: which relations between the states before and after every step
  of the bridge keeps (the locales \<open>step_relation\<close>, \<open>emission_relation\<close> and
  \<open>pipeline_relation\<close>, interpreted on the relations below), that a call gives back its concurrency
  slot, and exactly which calls reach the upstream.
\<close>

subsection \<open>Relations kept by every step\<close>

abbreviation st_gw :: "call_state \<Rightarrow> gateway" where "st_gw s \<equiv> fst (fst s)"
abbreviation st_lo :: "call_state \<Rightarrow> call_locals" where "st_lo s \<equiv> snd (fst s)"
abbreviation st_cl :: "call_state \<Rightarrow> concurrency_limiter" where "st_cl s \<equiv> snd s"

lemma act_bind_apply:
  "act_bind m f s = (case fst (m s) of Inl e \<Rightarrow> (Inl e, snd (m s)) | Inr x \<Rightarrow> f x (snd (m s)))"
  by (cases "m s"; cases "fst (m s)") (simp_all add: act_bind_def)

lemma act_then_apply:
  "act_then m n s = (case fst (m s) of Inl e \<Rightarrow> (Inl e, snd (m s)) | Inr _ \<Rightarrow> n (snd (m s)))"
  by (simp add: act_then_def act_bind_apply)

lemma act_try_apply:
  "act_try m h s = (case fst (m s) of Inl e \<Rightarrow> h e (snd (m s)) | Inr x \<Rightarrow> (Inr x, snd (m s)))"
  by (cases "m s"; cases "fst (m s)") (simp_all add: act_try_def)

lemma with_slot_apply:
  "with_slot p body s =
    (let a = slot_try_acquire p (st_cl s); b = body (fst a) (fst s, snd a)
     in (fst b, (fst (snd b), if fst a then slot_release p (snd (snd b)) else snd (snd b))))"
  by (simp add: with_slot_def Let_def case_prod_beta)

definition keeps :: "(call_state \<Rightarrow> call_state \<Rightarrow> bool) \<Rightarrow> 'a act \<Rightarrow> bool" where
  "keeps R m = (\<forall>s. R s (snd (m s)))"

lemma keepsD: "keeps R m \<Longrightarrow> R s (snd (m s))"
  by (simp only: keeps_def)

lemma keepsI: "(\<And>s. R s (snd (m s))) \<Longrightarrow> keeps R m"
  by (simp only: keeps_def simp_thms)

locale step_relation =
  fixes R :: "call_state \<Rightarrow> call_state \<Rightarrow> bool"
  assumes same: "R s s" and step_trans: "R s t \<Longrightarrow> R t u \<Longrightarrow> R s u"
begin

lemma keeps_return: "keeps R (act_return x)" and keeps_raise: "keeps R (act_raise e)"
  and keeps_get: "keeps R get_locals"
  by (simp_all add: keeps_def act_return_def act_raise_def get_locals_def same case_prod_beta)

lemma keeps_bind: "keeps R m \<Longrightarrow> (\<And>x. keeps R (f x)) \<Longrightarrow> keeps R (act_bind m f)"
proof (rule keepsI)
  fix s assume m: "keeps R m" and f: "\<And>x. keeps R (f x)"
  then show "R s (snd (act_bind m f s))"
    using keepsD [OF m, of s] step_trans [OF keepsD [OF m] keepsD [OF f]]
    by (cases "fst (m s)") (simp_all add: act_bind_apply)
qed

lemma keeps_then: "keeps R m \<Longrightarrow> keeps R n \<Longrightarrow> keeps R (act_then m n)"
  unfolding act_then_def by (rule keeps_bind)

lemma keeps_try: "keeps R m \<Longrightarrow> (\<And>e. keeps R (h e)) \<Longrightarrow> keeps R (act_try m h)"
proof (rule keepsI)
  fix s assume m: "keeps R m" and h: "\<And>e. keeps R (h e)"
  then show "R s (snd (act_try m h s))"
    using keepsD [OF m, of s] step_trans [OF keepsD [OF m] keepsD [OF h]]
    by (cases "fst (m s)") (simp_all add: act_try_apply)
qed

lemmas keeps_glue = keeps_return keeps_raise keeps_get keeps_bind keeps_then keeps_try

end

text \<open>
  Relations that clock readings and the handler's local variables do not affect, and that an audit
  write keeps.
\<close>

locale emission_relation = step_relation R for R +
  assumes local_step: "R ((g, l), cl) ((g, l'), cl)"
    and write_step: "keeps R (write_record E r)"
begin

lemma keeps_clock: "keeps R (read_clock E)"
  by (simp add: keeps_def read_clock_def local_step case_prod_beta split_paired_all)

lemma keeps_set_local: "keeps R (set_local f)"
  by (simp add: keeps_def set_local_def local_step case_prod_beta split_paired_all)

lemma keeps_timers: "keeps R (stop_upstream_timer E t)" "keeps R (stop_policy_timer E t)"
  unfolding stop_upstream_timer_def stop_policy_timer_def
  by (rule keeps_bind keeps_clock keeps_set_local)+

lemma keeps_emit: "keeps R (emit E X out a c)"
  unfolding emit_def by (intro keeps_bind keeps_then keeps_clock keeps_get keeps_set_local write_step)

lemma keeps_emit_and_return: "keeps R (emit_and_return E X out a c res)"
  unfolding emit_and_return_def by (intro keeps_then keeps_emit keeps_return)

lemma keeps_handle_reply: "keeps R (handle_reply E X t reply)"
  unfolding handle_reply_def
  by (auto split: sum.split exn.split
      intro!: keeps_then keeps_emit keeps_emit_and_return keeps_raise keeps_timers)

lemma keeps_deny: "keeps R (deny_as_unknown E X)"
  unfolding deny_as_unknown_def by (intro keeps_then keeps_set_local keeps_emit_and_return)

lemma keeps_handle_escape: "keeps R (handle_escape E X e)"
  unfolding handle_escape_def emit_unless_emitted_def
  by (auto intro!: keeps_bind keeps_then keeps_emit keeps_return keeps_raise keeps_get)

end

text \<open>A relation that does not speak of the limiter is kept across a slot.\<close>

lemma keeps_with_slot_other:
  assumes "\<And>a. keeps R (body a)" "\<And>gl c gl' c' d d'. R (gl, c) (gl', c') \<Longrightarrow> R (gl, d) (gl', d')"
  shows "keeps R (with_slot p body)"
proof (rule keepsI)
  fix s :: call_state
  obtain gl cl where s: "s = (gl, cl)" by (cases s)
  obtain a cl1 where a: "slot_try_acquire p cl = (a, cl1)" by (metis prod.exhaust)
  obtain r gl' cl' where b: "body a (gl, cl1) = (r, (gl', cl'))" by (metis prod.exhaust)
  have "R (gl, cl1) (snd (body a (gl, cl1)))" by (rule keepsD) (rule assms(1))
  then have "R (gl, cl) (gl', d)" for d unfolding b snd_conv by (rule assms(2))
  then show "R s (snd (with_slot p body s))" by (simp add: s with_slot_apply Let_def a b)
qed

text \<open>The stages after the rate limit, and the whole pipeline, keep what their effects keep.\<close>

locale stages_relation = emission_relation R for R +
  fixes C :: bridge_config and E :: call_env and X :: call_context
  assumes tools_step: "keeps R (get_tools E)"
    and slot_step: "keeps R (with_slot (cx_principal X) (stage_forward C E X))"
begin

lemma keeps_stage_arguments: "keeps R (stage_arguments C E X tp t)"
  unfolding stage_arguments_def Let_def
  by (auto split: option.split
      intro!: keeps_then keeps_timers keeps_set_local keeps_emit_and_return slot_step)

lemma keeps_stage_schema: "keeps R (stage_schema C E X tp ut)"
  unfolding stage_schema_def
  by (auto split: sum.split option.split
      intro!: keeps_bind keeps_then keeps_clock keeps_timers keeps_set_local keeps_raise
        keeps_emit_and_return keeps_stage_arguments)

lemma keeps_stage_authorize: "keeps R (stage_authorize C E X)"
  unfolding stage_authorize_def Let_def
  by (auto split: option.split
      intro!: keeps_bind keeps_then keeps_set_local keeps_deny tools_step keeps_stage_schema)

end

locale pipeline_relation = stages_relation R C E X for R C E X +
  assumes token_step: "keeps R (acquire_token E X)"
begin

lemma keeps_run_call: "keeps R (run_call C E X)"
  unfolding run_call_def stage_rate_def
  by (auto intro!: keeps_try keeps_bind keeps_then token_step keeps_set_local
      keeps_emit_and_return keeps_stage_authorize keeps_handle_escape)

end


subsection \<open>Every slot is given back\<close>

definition slots_kept :: "call_state \<Rightarrow> call_state \<Rightarrow> bool" where
  "slots_kept s t =
     (limiter_inv (st_cl s) \<longrightarrow>
        limiter_inv (st_cl t) \<and> cl_max_concurrent (st_cl t) = cl_max_concurrent (st_cl s) \<and>
        (\<forall>p. active_count (st_cl t) p = active_count (st_cl s) p))"

interpretation slots_rel: emission_relation slots_kept
  by unfold_locales
    (auto simp: slots_kept_def keeps_def write_record_def case_prod_beta)

lemma slots_kept_same_limiter: "st_cl (snd (m s)) = st_cl s \<Longrightarrow> slots_kept s (snd (m s))"
  by (simp add: slots_kept_def)

lemma acquire_token_limiter [simp]: "st_cl (snd (acquire_token E X s)) = st_cl s"
  by (simp add: acquire_token_def case_prod_beta)

lemma get_tools_limiter [simp]: "st_cl (snd (get_tools E s)) = st_cl s"
  by (simp add: get_tools_def case_prod_beta)

lemma keeps_call_upstream_slots: "keeps slots_kept (call_upstream C E X)"
  by (simp add: keeps_def call_upstream_def slots_kept_def case_prod_beta)

lemma keeps_stage_forward_slots: "keeps slots_kept (stage_forward C E X acquired)"
  unfolding stage_forward_def
  by (auto intro!: slots_rel.keeps_then slots_rel.keeps_bind slots_rel.keeps_set_local
      slots_rel.keeps_clock slots_rel.keeps_emit_and_return keeps_call_upstream_slots
      slots_rel.keeps_handle_reply)

lemma keeps_with_slot:
  assumes "\<And>a. keeps slots_kept (body a)"
  shows "keeps slots_kept (with_slot p body)"
proof -
  have "slots_kept s (snd (with_slot p body s))" for s
  proof (cases "limiter_inv (st_cl s)")
    case True
    let ?a = "slot_try_acquire p (st_cl s)"
    let ?t = "snd (body (fst ?a) (fst s, snd ?a))"
    have inv: "limiter_inv (snd ?a)" using limiter_inv_step [OF True, of "Acquire p"] by simp
    have kept: "slots_kept (fst s, snd ?a) ?t" by (rule keepsD) (rule assms)
    then have t: "limiter_inv (st_cl ?t)" "cl_max_concurrent (st_cl ?t) = cl_max_concurrent (st_cl s)"
      "\<forall>q. active_count (st_cl ?t) q = active_count (snd ?a) q"
      using inv by (simp_all add: slots_kept_def)
    have "0 \<le> active_count (st_cl s) p" using True by (rule limiter_invD)
    then have "active_count (slot_release p (st_cl ?t)) q = active_count (st_cl s) q" if "fst ?a" for q
      using t(3) slots.release_undoes [OF that, of q] by (simp add: slot_release_active split: if_splits)
    moreover have "active_count (st_cl ?t) q = active_count (st_cl s) q" if "\<not> fst ?a" for q
      using t(3) slots.refusal_changes_nothing [OF that] by simp
    moreover have "limiter_inv (slot_release p (st_cl ?t))"
      using limiter_inv_step [OF t(1), of "Release p"] by simp
    ultimately show ?thesis
      using t by (cases "fst ?a") (simp_all add: slots_kept_def with_slot_apply Let_def)
  qed (simp add: slots_kept_def)
  then show ?thesis by (rule keepsI)
qed

interpretation slots_pipe: pipeline_relation slots_kept C E X
  by unfold_locales
    (auto simp: keeps_def slots_kept_same_limiter
      intro: keeps_with_slot [OF keeps_stage_forward_slots, unfolded keeps_def, rule_format])

lemma handle_gives_back:
  assumes "limiter_inv cl" "handle_call_tool C E params (g, cl) = (r, (g', cl'))"
  shows "(\<forall>p. active_count cl' p = active_count cl p) \<and> limiter_inv cl' \<and>
    cl_max_concurrent cl' = cl_max_concurrent cl"
proof -
  show ?thesis
  proof (cases "current_principal (ce_principal E)")
    case (Inr prin)
    let ?s = "((g, initial_locals\<lparr>lo_readings := 1\<rparr>), cl)"
    have "slots_kept ?s (snd (run_call C E (call_ctx E params prin) ?s))"
      by (rule keepsD) (rule slots_pipe.keeps_run_call)
    then show ?thesis
      using assms Inr by (auto simp: handle_call_tool_def slots_kept_def split: prod.splits)
  qed (use assms in \<open>simp add: handle_call_tool_def\<close>)
qed

text \<open>
  A concurrency slot never leaks. Whatever happens during a call (a timeout, an upstream error, a
  cancellation, any exception, an audit write that fails), afterwards every principal has as many
  active executions as before, and the limiter is consistent.
\<close>

lemma call_gives_back_its_slot:
  assumes "limiter_inv cl" "handle_call_tool C E params (g, cl) = (r, (g', cl'))"
  shows "(\<forall>p. active_count cl' p = active_count cl p) \<and> limiter_inv cl' \<and>
    cl_max_concurrent cl' = cl_max_concurrent cl"
  by (rule handle_gives_back [OF assms])


subsection \<open>Symbolic execution of the steps\<close>

lemma act_simps [handler_simps]:
  "act_return x s = (Inr x, s)"
  "act_raise e s = (Inl e, s)"
  "get_locals s = (Inr (st_lo s), s)"
  "set_local f s = (Inr (), ((st_gw s, f (st_lo s)), st_cl s))"
  "read_clock E s = (Inr (ce_monotonic E (lo_readings (st_lo s))),
     ((st_gw s, (st_lo s)\<lparr>lo_readings := Suc (lo_readings (st_lo s))\<rparr>), st_cl s))"
  by (simp_all add: act_return_def act_raise_def get_locals_def set_local_def read_clock_def case_prod_beta)

lemma effect_simps [handler_simps]:
  "acquire_token E X s =
     (let a = rate_try_acquire (cx_principal X) (ce_rate_new E) (ce_rate_now E) (gw_rate (st_gw s))
      in (fst a, (((st_gw s)\<lparr>gw_rate := snd a\<rparr>, st_lo s), st_cl s)))"
  "get_tools E s =
     (let c = cache_get (ce_list_tools E) (gw_cache (st_gw s))
      in (fst c, (((st_gw s)\<lparr>gw_cache := snd c, gw_fetches :=
            gw_fetches (st_gw s) + (if gw_cache (st_gw s) = None then 1 else 0)\<rparr>,
          st_lo s), st_cl s)))"
  "call_upstream C E X s =
     (Inr (upstream_reply C E (cx_tool_name X) (cx_arguments X)),
      (((st_gw s)\<lparr>gw_forwarded := gw_forwarded (st_gw s) @ [(cx_tool_name X, cx_arguments X)]\<rparr>,
        st_lo s), st_cl s))"
  by (simp_all add: acquire_token_def get_tools_def call_upstream_def case_prod_beta Let_def)

lemma call_ctx_simps [simp]:
  "cx_principal (call_ctx E params prin) = prin" "cx_tool_name (call_ctx E params prin) = cp_name params"
  "cx_arguments (call_ctx E params prin) = call_arguments params"
  by (simp_all add: call_ctx_def)

lemmas glue_simps [handler_simps] = act_bind_apply act_then_apply act_try_apply


subsection \<open>What reaches the upstream\<close>

definition same_forwarded :: "call_state \<Rightarrow> call_state \<Rightarrow> bool" where
  "same_forwarded s t = (gw_forwarded (st_gw t) = gw_forwarded (st_gw s))"

interpretation fwd_rel: emission_relation same_forwarded
  by unfold_locales (auto simp: same_forwarded_def keeps_def write_record_def case_prod_beta)

lemma same_forwardedD: "keeps same_forwarded m \<Longrightarrow> gw_forwarded (st_gw (snd (m s))) = gw_forwarded (st_gw s)"
  by (auto simp: same_forwarded_def dest: keepsD)

lemmas forwarded_same =
  fwd_rel.keeps_emit [THEN same_forwardedD] fwd_rel.keeps_emit_and_return [THEN same_forwardedD]
  fwd_rel.keeps_handle_reply [THEN same_forwardedD] fwd_rel.keeps_deny [THEN same_forwardedD]
  fwd_rel.keeps_handle_escape [THEN same_forwardedD] fwd_rel.keeps_timers [THEN same_forwardedD]

lemma timers_fst [simp]:
  "fst (stop_upstream_timer E t s) = Inr ()" "fst (stop_policy_timer E t s) = Inr ()"
  by (simp_all add: stop_upstream_timer_def stop_policy_timer_def handler_simps)

lemma timers_st_cl [simp]:
  "st_cl (snd (stop_upstream_timer E t s)) = st_cl s" "st_cl (snd (stop_policy_timer E t s)) = st_cl s"
  by (simp_all add: stop_upstream_timer_def stop_policy_timer_def handler_simps)

lemma forwarded_stage_forward:
  "gw_forwarded (st_gw (snd (stage_forward C E X acquired s))) =
    gw_forwarded (st_gw s) @ (if acquired then [(cx_tool_name X, cx_arguments X)] else [])"
  by (simp add: stage_forward_def handler_simps forwarded_same)

lemma forwarded_stage_arguments:
  "gw_forwarded (st_gw (snd (stage_arguments C E X tp t s))) = gw_forwarded (st_gw s) @
    (if evaluate_argument_policy (bc_fullmatch C) tp (cx_arguments X) = None \<and>
        active_count (st_cl s) (cx_principal X) < cl_max_concurrent (st_cl s)
     then [(cx_tool_name X, cx_arguments X)] else [])"
  by (cases "evaluate_argument_policy (bc_fullmatch C) tp (cx_arguments X)")
    (simp_all add: stage_arguments_def handler_simps forwarded_same with_slot_apply Let_def
      forwarded_stage_forward slot_try_acquire_granted)

lemma forwarded_stage_schema:
  "gw_forwarded (st_gw (snd (stage_schema C E X tp ut s))) = gw_forwarded (st_gw s) @
    (if validate_input_schema (bc_js C) (tl_input_schema ut) (cx_arguments X) = Inr None \<and>
        evaluate_argument_policy (bc_fullmatch C) tp (cx_arguments X) = None \<and>
        active_count (st_cl s) (cx_principal X) < cl_max_concurrent (st_cl s)
     then [(cx_tool_name X, cx_arguments X)] else [])"
  by (auto simp: stage_schema_def handler_simps forwarded_same forwarded_stage_arguments
      split: sum.split option.split)

text \<open>
  The conditions under which a call may reach the upstream: the principal has a token, the policy
  allows the tool to it, the upstream offers the tool, its schema accepts the arguments, they satisfy
  the policy's constraints, and a slot is free.
\<close>

definition call_permitted ::
  "bridge_config \<Rightarrow> call_env \<Rightarrow> string \<Rightarrow> string \<Rightarrow> args \<Rightarrow> gateway_state \<Rightarrow> bool" where
  "call_permitted C E prin tool arguments = (\<lambda>(g, cl).
     fst (rate_try_acquire prin (ce_rate_new E) (ce_rate_now E) (gw_rate g)) = Inr True \<and>
     (\<exists>tp tools ut.
        tool_rule (bc_policy C) prin tool = Some tp \<and> tp_effect tp = Allow \<and>
        fst (cache_get (ce_list_tools E) (gw_cache g)) = Inr tools \<and>
        find (\<lambda>t. tl_name t = tool) tools = Some ut \<and>
        validate_input_schema (bc_js C) (tl_input_schema ut) arguments = Inr None \<and>
        args_satisfy (bc_fullmatch C) tp arguments) \<and>
     active_count cl prin < cl_max_concurrent cl)"

lemma tool_policy_Some_iff:
  "resolve_tool_policy policy prin tool = Some tp \<longleftrightarrow>
    tool_rule policy prin tool = Some tp \<and> tp_effect tp = Allow"
  by (auto simp: resolve_tool_policy_def tool_rule_def split: option.split)

lemma forwarded_stage_authorize:
  "gw_forwarded (st_gw (snd (stage_authorize C E X s))) = gw_forwarded (st_gw s) @
    (if \<exists>tp tools ut.
        resolve_tool_policy (bc_policy C) (cx_principal X) (cx_tool_name X) = Some tp \<and>
        fst (cache_get (ce_list_tools E) (gw_cache (st_gw s))) = Inr tools \<and>
        find (\<lambda>t. tl_name t = cx_tool_name X) tools = Some ut \<and>
        validate_input_schema (bc_js C) (tl_input_schema ut) (cx_arguments X) = Inr None \<and>
        evaluate_argument_policy (bc_fullmatch C) tp (cx_arguments X) = None \<and>
        active_count (st_cl s) (cx_principal X) < cl_max_concurrent (st_cl s)
     then [(cx_tool_name X, cx_arguments X)] else [])"
  by (cases "resolve_tool_policy (bc_policy C) (cx_principal X) (cx_tool_name X)";
      cases "fst (cache_get (ce_list_tools E) (gw_cache (st_gw s)))")
    (simp_all add: stage_authorize_def Let_def handler_simps forwarded_same forwarded_stage_schema
      split: option.split)

lemma forwarded_run_call:
  "gw_forwarded (st_gw (snd (run_call C E X s))) = gw_forwarded (st_gw s) @
    (if call_permitted C E (cx_principal X) (cx_tool_name X) (cx_arguments X) (st_gw s, st_cl s)
     then [(cx_tool_name X, cx_arguments X)] else [])"
proof -
  have "gw_forwarded (st_gw (snd (run_call C E X s))) = gw_forwarded (st_gw (snd (stage_rate C E X s)))"
    by (simp add: run_call_def handler_simps forwarded_same split: sum.split)
  also have "\<dots> = gw_forwarded (st_gw s) @
    (if call_permitted C E (cx_principal X) (cx_tool_name X) (cx_arguments X) (st_gw s, st_cl s)
     then [(cx_tool_name X, cx_arguments X)] else [])"
    by (cases "fst (rate_try_acquire (cx_principal X) (ce_rate_new E) (ce_rate_now E) (gw_rate (st_gw s)))")
      (auto simp: stage_rate_def Let_def handler_simps forwarded_same forwarded_stage_authorize
        call_permitted_def tool_policy_Some_iff evaluate_None_iff)
  finally show ?thesis .
qed

lemma handle_forwarded:
  assumes "ce_principal E = Some prin" "handle_call_tool C E params (g, cl) = (r, (g', cl'))"
  shows "gw_forwarded g' = gw_forwarded g @
    (if call_permitted C E prin (cp_name params) (call_arguments params) (g, cl)
     then [(cp_name params, call_arguments params)] else [])"
  using assms forwarded_run_call [of C E "call_ctx E params prin" "((g, initial_locals\<lparr>lo_readings := 1\<rparr>), cl)"]
  by (auto simp: handle_call_tool_def current_principal_def call_ctx_def split: prod.splits)

text \<open>
  C8: Complete mediation. An authenticated call reaches the upstream exactly if it is permitted: the
  principal has a token, the policy allows the tool to it, the upstream offers the tool, its schema
  accepts the arguments, they satisfy every constraint of the policy, and a slot is free. It is then
  forwarded once, with the tool name and the arguments unchanged; this holds whatever fails during
  the call, the audit writes included.
\<close>

theorem forwarded_iff_permitted:
  assumes "ce_principal E = Some prin" "handle_call_tool C E params (g, cl) = (r, (g', cl'))"
  shows "gw_forwarded g' = gw_forwarded g @
    (if call_permitted C E prin (cp_name params) (call_arguments params) (g, cl)
     then [(cp_name params, call_arguments params)] else [])"
  by (rule handle_forwarded [OF assms])

theorem forwarded_iff_permitted_witness:
  "gw_forwarded (fst (snd demo_result)) = [(''echo'', [(''text'', PStr ''hi'')])]"
proof -
  have "call_permitted demo_bridge demo_call_env ''analyst'' ''echo'' [(''text'', PStr ''hi'')] (demo_gateway, demo_limiter)"
  proof -
    have "fst (rate_try_acquire ''analyst'' (ce_rate_new demo_call_env) (ce_rate_now demo_call_env) (gw_rate demo_gateway)) = Inr True"
      by code_simp
    moreover have "resolve_tool_policy (bc_policy demo_bridge) ''analyst'' ''echo'' =
        Some (snd (hd (pp_tools (snd (hd (pc_principals demo_policy))))))" by code_simp
    moreover have "evaluate_argument_policy (bc_fullmatch demo_bridge)
        (snd (hd (pp_tools (snd (hd (pc_principals demo_policy)))))) [(''text'', PStr ''hi'')] = None" by code_simp
    ultimately show ?thesis
      by (auto simp: call_permitted_def tool_policy_Some_iff evaluate_None_iff cache_get_def validate_input_schema_def
          demo_call_env_def demo_gateway_def demo_limiter_def active_count_def dict_get_or_def)
  qed
  then show ?thesis
    using forwarded_iff_permitted [OF demo_call_env_simps(1) demo_result_collapse]
    by (simp add: demo_params_def call_arguments_def demo_gateway_def)
qed


subsection \<open>What the call does to the rate limiter\<close>

definition same_rate :: "call_state \<Rightarrow> call_state \<Rightarrow> bool" where
  "same_rate s t = (gw_rate (st_gw t) = gw_rate (st_gw s))"

interpretation rate_rel: emission_relation same_rate
  by unfold_locales (simp_all add: same_rate_def keeps_def write_record_def case_prod_beta)

interpretation rate_stages: stages_relation same_rate C E X
proof unfold_locales
  show "keeps same_rate (get_tools E)" by (simp add: keeps_def same_rate_def handler_simps Let_def)
  have "keeps same_rate (call_upstream C E X)" by (simp add: keeps_def same_rate_def handler_simps)
  then have "keeps same_rate (stage_forward C E X a)" for a
    unfolding stage_forward_def
    by (auto intro!: rate_rel.keeps_then rate_rel.keeps_bind rate_rel.keeps_set_local
        rate_rel.keeps_clock rate_rel.keeps_emit_and_return rate_rel.keeps_handle_reply)
  then show "keeps same_rate (with_slot (cx_principal X) (stage_forward C E X))"
    by (rule keeps_with_slot_other) (simp add: same_rate_def)
qed

lemma same_rateD: "keeps same_rate m \<Longrightarrow> gw_rate (st_gw (snd (m s))) = gw_rate (st_gw s)"
  using keepsD [of same_rate m s] by (simp add: same_rate_def)

lemmas rate_same =
  rate_rel.keeps_handle_escape [THEN same_rateD] rate_rel.keeps_emit_and_return [THEN same_rateD]
  rate_stages.keeps_stage_authorize [THEN same_rateD]

lemma handle_rate:
  assumes "ce_principal E = Some prin" "handle_call_tool C E params (g, cl) = (r, (g', cl'))"
  shows "gw_rate g' = snd (rate_try_acquire prin (ce_rate_new E) (ce_rate_now E) (gw_rate g))"
proof -
  let ?X = "call_ctx E params prin" and ?s = "((g, initial_locals\<lparr>lo_readings := 1\<rparr>), cl)"
  have "gw_rate (st_gw (snd (run_call C E ?X ?s))) = gw_rate (st_gw (snd (stage_rate C E ?X ?s)))"
    by (simp add: run_call_def handler_simps rate_same split: sum.split)
  also have "\<dots> = snd (rate_try_acquire prin (ce_rate_new E) (ce_rate_now E) (gw_rate g))"
    by (simp add: stage_rate_def Let_def handler_simps rate_same split: sum.split)
  finally show ?thesis
    using assms by (auto simp: handle_call_tool_def current_principal_def split: prod.splits)
qed

end
