(* ===== verification/BridgeAudit.thy ===== *)
theory BridgeAudit
  imports BridgeEffects
begin

text \<open>
  The audit record of a call: how many lines a call adds to the file and what they say, in every
  environment. \<open>writes_once\<close> states what a stage does to the audit trail; it is shown for every stage
  by the same few rules, and the properties follow from it.
\<close>

subsection \<open>The audit record of a call\<close>

text \<open>The fields of a record that identify the call.\<close>

definition describes :: "call_env \<Rightarrow> call_context \<Rightarrow> audit_record \<Rightarrow> bool" where
  "describes E X r =
     (ar_correlation_id r = ce_correlation_id E \<and> ar_principal r = cx_principal X \<and>
      ar_session_id r = ce_session_id E \<and> ar_tool_name r = cx_tool_name X \<and>
      ar_arguments r = cx_arguments X)"

text \<open>How the outcome of a record fits the way the call ends.\<close>

definition outcome_fits :: "audit_outcome \<Rightarrow> 'a res \<Rightarrow> bool" where
  "outcome_fits out r =
     (case r of
        Inr _ \<Rightarrow> out \<notin> {OutcomeCancelled, InternalError}
      | Inl e \<Rightarrow> out = (if e = Cancelled then OutcomeCancelled else InternalError))"

text \<open>Steps that leave the audit trail and the handler's record of it alone.\<close>

definition audit_untouched :: "call_state \<Rightarrow> call_state \<Rightarrow> bool" where
  "audit_untouched s t =
     (gw_audit (st_gw t) = gw_audit (st_gw s) \<and> lo_writes (st_lo t) = lo_writes (st_lo s) \<and>
      lo_audit_emitted (st_lo t) = lo_audit_emitted (st_lo s))"

interpretation quiet: step_relation audit_untouched
  by unfold_locales (auto simp: audit_untouched_def)

lemma quiet_steps:
  "keeps audit_untouched (read_clock E)" "keeps audit_untouched (acquire_token E X)"
  "keeps audit_untouched (get_tools E)" "keeps audit_untouched (call_upstream C E X)"
  by (simp_all add: keeps_def audit_untouched_def handler_simps Let_def)

lemma quiet_set_local:
  "(\<And>l. lo_writes (f l) = lo_writes l \<and> lo_audit_emitted (f l) = lo_audit_emitted l) \<Longrightarrow>
    keeps audit_untouched (set_local f)"
  by (simp add: keeps_def audit_untouched_def handler_simps)

lemma quiet_timers:
  "keeps audit_untouched (stop_upstream_timer E t)" "keeps audit_untouched (stop_policy_timer E t)"
  unfolding stop_upstream_timer_def stop_policy_timer_def
  by (auto intro!: quiet.keeps_bind quiet_steps quiet_set_local)

text \<open>
  What a stage does to the audit trail: nothing, and then it raises; or one write. If the write fails,
  the stage raises that failure; if not, the stage returns, or raises \<open>CancelledError\<close> after a record
  saying so.
\<close>

definition one_write ::
  "call_env \<Rightarrow> call_context \<Rightarrow> call_state \<Rightarrow> call_result res \<Rightarrow> call_state \<Rightarrow> bool" where
  "one_write E X s r t =
     (\<exists>rec. describes E X rec \<and>
        gw_audit (st_gw t) = snd (logger_emit rec (ce_write E (lo_writes (st_lo s))) (gw_audit (st_gw s))) \<and>
        lo_writes (st_lo t) = Suc (lo_writes (st_lo s)) \<and>
        (case fst (logger_emit rec (ce_write E (lo_writes (st_lo s))) (gw_audit (st_gw s))) of
           Inl e \<Rightarrow> r = Inl e \<and> lo_audit_emitted (st_lo t) = lo_audit_emitted (st_lo s)
         | Inr _ \<Rightarrow> lo_audit_emitted (st_lo t) \<and> outcome_fits (ar_outcome rec) r \<and>
             (\<forall>e. r = Inl e \<longrightarrow> e = Cancelled)))"

definition writes_once :: "call_env \<Rightarrow> call_context \<Rightarrow> call_result act \<Rightarrow> bool" where
  "writes_once E X m =
     (\<forall>s. (audit_untouched s (snd (m s)) \<and> (\<exists>e. fst (m s) = Inl e)) \<or>
          one_write E X s (fst (m s)) (snd (m s)))"

lemma one_write_after:
  "audit_untouched s t \<Longrightarrow> one_write E X t r u \<Longrightarrow> one_write E X s r u"
  unfolding one_write_def audit_untouched_def by presburger

lemma writes_onceI: "(\<And>s. one_write E X s (fst (m s)) (snd (m s))) \<Longrightarrow> writes_once E X m"
  unfolding writes_once_def by blast

lemma writes_onceD:
  "writes_once E X m \<Longrightarrow>
    (audit_untouched s (snd (m s)) \<and> (\<exists>e. fst (m s) = Inl e)) \<or> one_write E X s (fst (m s)) (snd (m s))"
  unfolding writes_once_def by blast

lemma other_limiter:
  "one_write E X (gl, c) r (gl', c') \<longleftrightarrow> one_write E X (gl, d) r (gl', d')"
  "audit_untouched (gl, c) (gl', c') \<longleftrightarrow> audit_untouched (gl, d) (gl', d')"
  unfolding one_write_def audit_untouched_def fst_conv snd_conv by (rule refl)+

lemma writes_once_raise: "writes_once E X (act_raise e)"
  by (simp add: writes_once_def handler_simps audit_untouched_def)

lemma writes_once_bind:
  assumes "keeps audit_untouched m" "\<And>x. writes_once E X (f x)"
  shows "writes_once E X (act_bind m f)"
proof -
  have "(audit_untouched s (snd (act_bind m f s)) \<and> (\<exists>e. fst (act_bind m f s) = Inl e)) \<or>
      one_write E X s (fst (act_bind m f s)) (snd (act_bind m f s))" for s
  proof (cases "fst (m s)")
    case (Inr x)
    then show ?thesis
      using writes_onceD [OF assms(2) [of x], where s = "snd (m s)"] keepsD [OF assms(1), of s]
        quiet.step_trans [of s "snd (m s)"] one_write_after [of s "snd (m s)"]
      by (simp add: handler_simps) blast
  qed (use keepsD [OF assms(1), of s] in \<open>simp add: handler_simps\<close>)
  then show ?thesis by (simp add: writes_once_def)
qed

lemma writes_once_then:
  "keeps audit_untouched m \<Longrightarrow> writes_once E X n \<Longrightarrow> writes_once E X (act_then m n)"
  unfolding act_then_def by (rule writes_once_bind)

text \<open>The record that \<open>emit\<close> builds.\<close>

definition emit_record ::
  "call_env \<Rightarrow> call_context \<Rightarrow> call_state \<Rightarrow> audit_outcome \<Rightarrow> bool \<Rightarrow> upstream_category option
    \<Rightarrow> audit_record" where
  "emit_record E X s out a c =
     make_record E X ((st_lo s)\<lparr>lo_readings := Suc (lo_readings (st_lo s))\<rparr>) out a c
       (ce_monotonic E (lo_readings (st_lo s)))"

lemma emit_apply:
  "emit E X out a c s =
    (let w = logger_emit (emit_record E X s out a c) (ce_write E (lo_writes (st_lo s))) (gw_audit (st_gw s));
         l' = (st_lo s)\<lparr>lo_readings := Suc (lo_readings (st_lo s)), lo_writes := Suc (lo_writes (st_lo s))\<rparr>
     in (fst w, (((st_gw s)\<lparr>gw_audit := snd w\<rparr>,
           (case fst w of Inl e \<Rightarrow> l' | Inr _ \<Rightarrow> l'\<lparr>lo_audit_emitted := True\<rparr>)), st_cl s)))"
  by (simp add: emit_def handler_simps write_record_def emit_record_def case_prod_beta Let_def split: sum.split)

lemma emit_record_basics [simp]:
  "describes E X (emit_record E X s out a c)" "ar_outcome (emit_record E X s out a c) = out"
  by (simp_all add: emit_record_def describes_def make_record_def)

lemma writes_once_return:
  assumes "out \<notin> {OutcomeCancelled, InternalError}"
  shows "writes_once E X (emit_and_return E X out a c res)"
proof -
  have "one_write E X s (fst (emit_and_return E X out a c res s)) (snd (emit_and_return E X out a c res s))" for s
    unfolding one_write_def using assms
    by (intro exI [of _ "emit_record E X s out a c"])
      (simp add: emit_and_return_def handler_simps emit_apply Let_def outcome_fits_def split: sum.split)
  then show ?thesis by (rule writes_onceI)
qed

lemma writes_once_cancelled:
  "writes_once E X (act_then (emit E X OutcomeCancelled a c) (act_raise Cancelled))"
proof -
  let ?m = "act_then (emit E X OutcomeCancelled a c) (act_raise Cancelled)"
  have "one_write E X s (fst (?m s)) (snd (?m s))" for s
    unfolding one_write_def
    by (intro exI [of _ "emit_record E X s OutcomeCancelled a c"])
      (simp add: handler_simps emit_apply Let_def outcome_fits_def split: sum.split)
  then show ?thesis by (rule writes_onceI)
qed

lemmas quiet_intros = quiet_steps quiet_timers quiet_set_local
lemmas once_intros = writes_once_raise writes_once_bind writes_once_then writes_once_return
  writes_once_cancelled quiet_intros

lemma writes_once_reply: "writes_once E X (handle_reply E X t reply)"
  unfolding handle_reply_def by (auto split: sum.split exn.split intro!: once_intros)

lemma writes_once_forward: "writes_once E X (stage_forward C E X acquired)"
  unfolding stage_forward_def by (auto intro!: once_intros writes_once_reply)

lemma writes_once_slot:
  assumes "\<And>a. writes_once E X (body a)"
  shows "writes_once E X (with_slot p body)"
proof -
  have "(audit_untouched s (snd (with_slot p body s)) \<and> (\<exists>e. fst (with_slot p body s) = Inl e)) \<or>
      one_write E X s (fst (with_slot p body s)) (snd (with_slot p body s))" for s
  proof -
    obtain gl cl where s: "s = (gl, cl)" by (cases s)
    obtain a cl1 where a: "slot_try_acquire p cl = (a, cl1)" by (metis prod.exhaust)
    obtain r gl' cl' where b: "body a (gl, cl1) = (r, (gl', cl'))" by (metis prod.exhaust)
    show ?thesis
      using writes_onceD [OF assms [of a], where s = "(gl, cl1)"]
        other_limiter(1) [of E X gl cl r gl' _ cl1 cl'] other_limiter(2) [of gl cl gl' _ cl1 cl']
      by (simp add: with_slot_apply s a b Let_def)
  qed
  then show ?thesis unfolding writes_once_def by blast
qed

lemma writes_once_arguments: "writes_once E X (stage_arguments C E X tp t)"
  unfolding stage_arguments_def Let_def
  by (auto split: option.split intro!: once_intros writes_once_slot writes_once_forward)

lemma writes_once_schema: "writes_once E X (stage_schema C E X tp ut)"
  unfolding stage_schema_def
  by (auto split: sum.split option.split intro!: once_intros writes_once_arguments)

lemma writes_once_deny: "writes_once E X (deny_as_unknown E X)"
  unfolding deny_as_unknown_def by (auto intro!: once_intros)

lemma writes_once_authorize: "writes_once E X (stage_authorize C E X)"
  unfolding stage_authorize_def Let_def
  by (auto split: option.split if_splits intro!: once_intros writes_once_schema writes_once_deny)

lemma writes_once_rate: "writes_once E X (stage_rate C E X)"
  unfolding stage_rate_def by (auto intro!: once_intros writes_once_authorize)



text \<open>The whole call: after the stage's write, if there was one, the outer \<open>except\<close> clauses.\<close>

lemma handle_escape_raises: "\<exists>e'. fst (handle_escape E X e s) = Inl e'"
  by (simp add: handle_escape_def handler_simps split: sum.split)

lemma run_call_returns:
  assumes "fst (run_call C E X s) = Inr x"
  shows "fst (stage_rate C E X s) = Inr x" "run_call C E X s = stage_rate C E X s"
proof -
  show "fst (stage_rate C E X s) = Inr x"
  proof (cases "fst (stage_rate C E X s)")
    case (Inl e)
    then show ?thesis
      using assms handle_escape_raises [of E X e "snd (stage_rate C E X s)"]
      by (auto simp: run_call_def handler_simps)
  qed (use assms in \<open>simp add: run_call_def handler_simps\<close>)
  then show "run_call C E X s = stage_rate C E X s"
    by (simp add: run_call_def handler_simps prod_eq_iff)
qed

lemma logger_emit_Inr:
  assumes "fst (logger_emit rec w lg) = Inr ()"
  shows "w = Written \<and> known_mode (al_redaction_mode lg) \<and>
    snd (logger_emit rec w lg) = append_line (audit_line (al_redaction_mode lg) rec @ [CHR 0x0A]) lg"
proof -
  obtain l where "serialize (al_redaction_mode lg) rec = Inr l" "w = Written"
    using assms by (auto simp: logger_emit_def Let_def split: sum.splits write_outcome.splits)
  moreover from this have "known_mode (al_redaction_mode lg)"
    using represent_arguments_known [of "al_redaction_mode lg" "ar_arguments rec"]
    by (auto simp: serialize_def split: sum.splits)
  ultimately show ?thesis by (simp add: logger_emit_def audit_line_def)
qed

lemma logger_emit_Written:
  "known_mode (al_redaction_mode lg) \<Longrightarrow>
    logger_emit rec Written lg = (Inr (), append_line (audit_line (al_redaction_mode lg) rec @ [CHR 0x0A]) lg)"
  by (simp add: logger_emit_def serialize_known)

text \<open>The file after a call: the file before it, and one line.\<close>

definition adds_record :: "gateway \<Rightarrow> audit_record \<Rightarrow> gateway \<Rightarrow> bool" where
  "adds_record g rec g' =
     (gw_audit g' = append_line (audit_line (al_redaction_mode (gw_audit g)) rec @ [CHR 0x0A]) (gw_audit g))"

lemma one_write_Inr:
  assumes "one_write E X s (Inr x) t"
  shows "\<exists>rec. describes E X rec \<and> ar_outcome rec \<notin> {OutcomeCancelled, InternalError} \<and>
    adds_record (st_gw s) rec (st_gw t)"
proof -
  obtain rec where rec: "describes E X rec"
    "gw_audit (st_gw t) = snd (logger_emit rec (ce_write E (lo_writes (st_lo s))) (gw_audit (st_gw s)))"
    "case fst (logger_emit rec (ce_write E (lo_writes (st_lo s))) (gw_audit (st_gw s))) of
       Inl e \<Rightarrow> Inr x = Inl e \<and> lo_audit_emitted (st_lo t) = lo_audit_emitted (st_lo s)
     | Inr _ \<Rightarrow> lo_audit_emitted (st_lo t) \<and> outcome_fits (ar_outcome rec) (Inr x) \<and>
         (\<forall>e. Inr x = Inl e \<longrightarrow> e = Cancelled)"
    using assms unfolding one_write_def by blast
  then have "fst (logger_emit rec (ce_write E (lo_writes (st_lo s))) (gw_audit (st_gw s))) = Inr ()"
    and "ar_outcome rec \<notin> {OutcomeCancelled, InternalError}"
    by (auto simp: outcome_fits_def split: sum.splits)
  with logger_emit_Inr [OF this(1)] rec(1,2) show ?thesis unfolding adds_record_def by auto
qed

text \<open>
  C29: No response without its record. If a call returns a response to the caller, exactly one line
  was appended to the audit file, complete, for a record that carries the call's correlation ID,
  principal, session, tool name and arguments, whatever the environment does. When a record cannot
  be written, the caller gets an error and no result.
\<close>

theorem no_response_without_record:
  assumes "ce_principal E = Some prin" "handle_call_tool C E params (g, cl) = (Inr x, (g', cl'))"
  shows "\<exists>rec. describes E (call_ctx E params prin) rec \<and>
    ar_outcome rec \<notin> {OutcomeCancelled, InternalError} \<and> adds_record g rec g'"
proof -
  let ?s = "((g, initial_locals\<lparr>lo_readings := 1\<rparr>), cl)" and ?X = "call_ctx E params prin"
  have run: "fst (run_call C E ?X ?s) = Inr x" "g' = st_gw (snd (run_call C E ?X ?s))"
    using assms by (auto simp: handle_call_tool_def current_principal_def split: prod.splits)
  note stage = run_call_returns [OF run(1)]
  then have "one_write E ?X ?s (Inr x) (snd (stage_rate C E ?X ?s))"
    using writes_onceD [OF writes_once_rate [of E ?X C], where s = ?s] by simp
  from one_write_Inr [OF this] show ?thesis unfolding run(2) stage(2) by simp
qed

lemma run_call_all_written:
  assumes w: "\<And>n. ce_write E n = Written" and mode: "known_mode (al_redaction_mode (gw_audit (st_gw s)))"
    and new: "\<not> lo_audit_emitted (st_lo s)" and base: "\<And>m. fst (run_call C E X s) \<noteq> Inl (BaseExc m)"
  shows "\<exists>rec. describes E X rec \<and> outcome_fits (ar_outcome rec) (fst (run_call C E X s)) \<and>
    adds_record (st_gw s) rec (st_gw (snd (run_call C E X s)))"
proof -
  let ?r = "fst (stage_rate C E X s)" and ?t = "snd (stage_rate C E X s)"
  from writes_onceD [OF writes_once_rate [of E X C], where s = s] show ?thesis
  proof
    assume "one_write E X s ?r ?t"
    then obtain rec where rec: "describes E X rec" "lo_audit_emitted (st_lo ?t)"
      "outcome_fits (ar_outcome rec) ?r" "\<forall>e. ?r = Inl e \<longrightarrow> e = Cancelled"
      "adds_record (st_gw s) rec (st_gw ?t)"
      unfolding one_write_def w logger_emit_Written [OF mode] adds_record_def by auto
    then have "run_call C E X s = (?r, ?t)"
      by (cases ?r) (auto simp: run_call_def handler_simps handle_escape_def emit_unless_emitted_def)
    then show ?thesis using rec by auto
  next
    assume "audit_untouched s ?t \<and> (\<exists>e. ?r = Inl e)"
    then obtain e where e: "?r = Inl e" and same: "gw_audit (st_gw ?t) = gw_audit (st_gw s)"
      "\<not> lo_audit_emitted (st_lo ?t)" using new by (auto simp: audit_untouched_def)
    have run: "run_call C E X s = handle_escape E X e ?t" by (simp add: run_call_def handler_simps e)
    let ?out = "if e = Cancelled then OutcomeCancelled else InternalError"
    have "is_exception e \<or> e = Cancelled"
      using base by (cases e) (auto simp: run handle_escape_def handler_simps)
    then have "handle_escape E X e ?t = (Inl e, snd (emit E X ?out False None ?t))"
      and "st_gw (snd (emit E X ?out False None ?t)) = (st_gw ?t)\<lparr>gw_audit :=
        append_line (audit_line (al_redaction_mode (gw_audit (st_gw s))) (emit_record E X ?t ?out False None)
          @ [CHR 0x0A]) (gw_audit (st_gw s))\<rparr>"
      using same mode w
      by (auto simp: handle_escape_def emit_unless_emitted_def handler_simps emit_apply Let_def
          logger_emit_Written)
    then show ?thesis
      unfolding run adds_record_def
      by (intro exI [of _ "emit_record E X ?t ?out False None"]) (simp add: outcome_fits_def)
  qed
qed

lemma handle_one_record:
  assumes "ce_principal E = Some prin" "\<forall>n. ce_write E n = Written"
    and "known_mode (al_redaction_mode (gw_audit g))"
    and "handle_call_tool C E params (g, cl) = (r, (g', cl'))" "\<forall>m. r \<noteq> Inl (BaseExc m)"
  shows "\<exists>rec. describes E (call_ctx E params prin) rec \<and> outcome_fits (ar_outcome rec) r \<and>
    adds_record g rec g'"
proof -
  let ?s = "((g, initial_locals\<lparr>lo_readings := 1\<rparr>), cl)" and ?X = "call_ctx E params prin"
  have "r = fst (run_call C E ?X ?s)" "g' = st_gw (snd (run_call C E ?X ?s))"
    using assms by (auto simp: handle_call_tool_def current_principal_def split: prod.splits)
  then show ?thesis
    using run_call_all_written [of E ?s C ?X] assms by (simp add: initial_locals_def)
qed

text \<open>
  C11: Exactly one record per attempt. If the audit writes succeed, every authenticated call appends
  exactly one line to the audit file, whatever stage it ends at and whatever exception or
  cancellation ends it, and the record's outcome fits the end: \<open>cancelled\<close> if the call raised
  \<open>CancelledError\<close>, \<open>internal_error\<close> if it raised another exception, one of the others if it
  returned. (The exception is a \<open>BaseException\<close> that is not an \<open>Exception\<close>, see below.)
\<close>

theorem exactly_one_record:
  assumes "ce_principal E = Some prin" "\<forall>n. ce_write E n = Written"
    and "known_mode (al_redaction_mode (gw_audit g))"
    and "handle_call_tool C E params (g, cl) = (r, (g', cl'))" "\<forall>m. r \<noteq> Inl (BaseExc m)"
  shows "\<exists>rec. describes E (call_ctx E params prin) rec \<and> outcome_fits (ar_outcome rec) r \<and>
    adds_record g rec g'"
  by (rule handle_one_record [OF assms])


subsection \<open>Where the promise of one record breaks\<close>

lemma run_call_second_write:
  assumes "stage_rate C E X s = (Inl Cancelled, u)" "\<not> lo_audit_emitted (st_lo u)"
    and "known_mode (al_redaction_mode (gw_audit (st_gw u)))" "ce_write E (lo_writes (st_lo u)) = Written"
  shows "fst (run_call C E X s) = Inl Cancelled"
    and "gw_audit (st_gw (snd (run_call C E X s))) = append_line
      (audit_line (al_redaction_mode (gw_audit (st_gw u))) (emit_record E X u OutcomeCancelled False None)
        @ [CHR 0x0A]) (gw_audit (st_gw u))"
  using assms
  by (simp_all add: run_call_def handler_simps handle_escape_def emit_unless_emitted_def emit_apply Let_def
      logger_emit_Written)

text \<open>
  C37: A cancellation that arrives while the audit record is being written makes two records of one
  call: the thread completes the write, \<open>audit_emitted\<close> is not set, and the outer clause emits a
  second record with outcome \<open>cancelled\<close>. The docstring promises exactly one terminal record.
  (Shown for a call that the policy denies.)
\<close>

theorem cancelled_write_records_twice:
  assumes "ce_principal E = Some prin" "known_mode (al_redaction_mode (gw_audit g))"
    and "fst (rate_try_acquire prin (ce_rate_new E) (ce_rate_now E) (gw_rate g)) = Inr True"
    and "resolve_tool_policy (bc_policy C) prin (cp_name params) = None"
    and "ce_write E 0 = WriteCancelled True" "ce_write E 1 = Written"
    and "handle_call_tool C E params (g, cl) = (r, (g', cl'))"
  shows "r = Inl Cancelled \<and>
    (\<exists>rec1 rec2. describes E (call_ctx E params prin) rec1 \<and> ar_outcome rec1 = PolicyDenied \<and>
       describes E (call_ctx E params prin) rec2 \<and> ar_outcome rec2 = OutcomeCancelled \<and>
       gw_audit g' =
         append_line (audit_line (al_redaction_mode (gw_audit g)) rec2 @ [CHR 0x0A])
           (append_line (audit_line (al_redaction_mode (gw_audit g)) rec1 @ [CHR 0x0A]) (gw_audit g)))"
proof -
  let ?X = "call_ctx E params prin" and ?s = "((g, initial_locals\<lparr>lo_readings := 1\<rparr>), cl)"
  let ?g = "g\<lparr>gw_rate := snd (rate_try_acquire prin (ce_rate_new E) (ce_rate_now E) (gw_rate g))\<rparr>"
  have lost: "logger_emit rec (WriteCancelled True) lg =
      (Inl Cancelled, append_line (audit_line (al_redaction_mode lg) rec @ [CHR 0x0A]) lg)"
    if "known_mode (al_redaction_mode lg)" for rec lg
    using that by (simp add: logger_emit_def serialize_known)
  have "\<exists>l. stage_rate C E ?X ?s = deny_as_unknown E ?X ((?g, l), cl) \<and> lo_writes l = 0 \<and> \<not> lo_audit_emitted l"
    using assms
    by (auto simp: stage_rate_def stage_authorize_def handler_simps Let_def initial_locals_def)
  then obtain l where l: "stage_rate C E ?X ?s = deny_as_unknown E ?X ((?g, l), cl)"
    "lo_writes l = 0" "\<not> lo_audit_emitted l" by blast
  let ?t = "((?g, l\<lparr>lo_policy_result := Failed\<rparr>), cl)"
  let ?u = "snd (emit E ?X PolicyDenied False None ?t)"
  have stage: "stage_rate C E ?X ?s = (Inl Cancelled, ?u)"
    using assms(2,5) l by (simp add: deny_as_unknown_def emit_and_return_def handler_simps emit_apply Let_def lost)
  have u: "gw_audit (st_gw ?u) = append_line (audit_line (al_redaction_mode (gw_audit g))
      (emit_record E ?X ?t PolicyDenied False None) @ [CHR 0x0A]) (gw_audit g)"
    "lo_writes (st_lo ?u) = 1" "\<not> lo_audit_emitted (st_lo ?u)"
    using assms(2,5) l by (simp_all add: emit_apply Let_def lost)
  have "known_mode (al_redaction_mode (gw_audit (st_gw ?u)))" using u(1) assms(2) by (simp add: append_line_def)
  note second = run_call_second_write [OF stage u(3) this]
  have "fst (run_call C E ?X ?s) = Inl Cancelled"
    and "gw_audit (st_gw (snd (run_call C E ?X ?s))) = append_line
      (audit_line (al_redaction_mode (gw_audit (st_gw ?u))) (emit_record E ?X ?u OutcomeCancelled False None)
        @ [CHR 0x0A]) (gw_audit (st_gw ?u))"
    using second u(2) assms(6) by simp_all
  moreover have "al_redaction_mode (gw_audit (st_gw ?u)) = al_redaction_mode (gw_audit g)"
    using u(1) by (simp add: append_line_def)
  moreover have "r = fst (run_call C E ?X ?s)" "g' = st_gw (snd (run_call C E ?X ?s))"
    using assms by (auto simp: handle_call_tool_def current_principal_def split: prod.splits)
  ultimately show ?thesis
    using u(1) by (intro conjI exI [of _ "emit_record E ?X ?t PolicyDenied False None"]
        exI [of _ "emit_record E ?X ?u OutcomeCancelled False None"]) simp_all
qed

text \<open>
  C38: A call that ends in a \<open>BaseException\<close> other than \<open>CancelledError\<close> (an exception group of the
  client's task group, say) leaves no record at all, even if it was forwarded, although every write
  would have succeeded: the outer clauses catch \<open>CancelledError\<close> and \<open>Exception\<close> only.
\<close>

theorem base_exception_leaves_no_record:
  assumes "ce_principal E = Some prin" "\<forall>n. ce_write E n = Written"
    and "known_mode (al_redaction_mode (gw_audit g))"
    and "handle_call_tool C E params (g, cl) = (Inl (BaseExc m), (g', cl'))"
  shows "gw_audit g' = gw_audit g"
proof -
  let ?s = "((g, initial_locals\<lparr>lo_readings := 1\<rparr>), cl)" and ?X = "call_ctx E params prin"
  let ?r = "fst (stage_rate C E ?X ?s)" and ?t = "snd (stage_rate C E ?X ?s)"
  have run: "fst (run_call C E ?X ?s) = Inl (BaseExc m)" "g' = st_gw (snd (run_call C E ?X ?s))"
    using assms by (auto simp: handle_call_tool_def current_principal_def split: prod.splits)
  have mode: "known_mode (al_redaction_mode (gw_audit (st_gw ?s)))" using assms(3) by simp
  from writes_onceD [OF writes_once_rate [of E ?X C], where s = ?s] show ?thesis
  proof
    assume "one_write E ?X ?s ?r ?t"
    then have "lo_audit_emitted (st_lo ?t)" "\<forall>e. ?r = Inl e \<longrightarrow> e = Cancelled"
      unfolding one_write_def assms(2) [rule_format] logger_emit_Written [OF mode] by auto
    then have "fst (run_call C E ?X ?s) \<noteq> Inl (BaseExc m)"
      by (cases ?r) (auto simp: run_call_def handler_simps handle_escape_def emit_unless_emitted_def)
    with run show ?thesis by simp
  next
    assume "audit_untouched ?s ?t \<and> (\<exists>e. ?r = Inl e)"
    then obtain e where e: "?r = Inl e" and same: "gw_audit (st_gw ?t) = gw_audit g"
      "\<not> lo_audit_emitted (st_lo ?t)" by (auto simp: audit_untouched_def initial_locals_def)
    have esc: "run_call C E ?X ?s = handle_escape E ?X e ?t"
      by (simp add: run_call_def handler_simps e del: One_nat_def)
    then have "handle_escape E ?X e ?t = (Inl (BaseExc m), ?t)"
      using run(1) same assms(2,3)
      by (cases e) (auto simp: handle_escape_def emit_unless_emitted_def handler_simps emit_apply Let_def
          logger_emit_Written)
    then show ?thesis using esc run(2) same by simp
  qed
qed


subsection \<open>Witnesses\<close>

lemma demo_result_fst:
  "fst demo_result = Inr \<lparr>cr_content = [TextContent ''hi''], cr_is_error = False,
    cr_meta = Some [(''correlation_id'', PStr ''c1'')], cr_rest = []\<rparr>"
  by code_simp

theorem no_response_without_record_witness:
  "\<exists>rec. describes demo_call_env (call_ctx demo_call_env demo_params ''analyst'') rec \<and>
    ar_outcome rec \<notin> {OutcomeCancelled, InternalError} \<and> adds_record demo_gateway rec (fst (snd demo_result))"
  by (rule no_response_without_record [OF demo_call_env_simps(1) demo_result_collapse [unfolded demo_result_fst]])

theorem exactly_one_record_witness:
  "\<exists>rec. describes demo_call_env (call_ctx demo_call_env demo_params ''analyst'') rec \<and>
    outcome_fits (ar_outcome rec) (fst demo_result) \<and> adds_record demo_gateway rec (fst (snd demo_result))"
  by (rule exactly_one_record [OF demo_call_env_simps(1) _ demo_gateway_mode demo_result_collapse])
    (simp_all add: demo_result_fst)

theorem cancelled_write_records_twice_witness:
  "fst (handle_call_tool demo_bridge_denying
      (demo_call_env\<lparr>ce_write := (\<lambda>n. if n = 0 then WriteCancelled True else Written)\<rparr>) demo_params
      (demo_gateway, demo_limiter)) = Inl Cancelled"
  using cancelled_write_records_twice
    [of "demo_call_env\<lparr>ce_write := (\<lambda>n. if n = 0 then WriteCancelled True else Written)\<rparr>" "''analyst''"
      demo_gateway demo_bridge_denying demo_params demo_limiter] demo_denied demo_gateway_mode
  by (simp add: demo_params_def prod_eq_iff)

theorem base_exception_leaves_no_record_witness:
  "gw_audit (fst (snd (handle_call_tool demo_bridge
      (demo_call_env\<lparr>ce_answer := (\<lambda>_ _. Inl (BaseExc ''group''))\<rparr>) demo_params (demo_gateway, demo_limiter)))) =
    gw_audit demo_gateway"
proof (rule base_exception_leaves_no_record [where E = "demo_call_env\<lparr>ce_answer := (\<lambda>_ _. Inl (BaseExc ''group''))\<rparr>"])
  have "fst (handle_call_tool demo_bridge (demo_call_env\<lparr>ce_answer := (\<lambda>_ _. Inl (BaseExc ''group''))\<rparr>) demo_params
      (demo_gateway, demo_limiter)) = Inl (BaseExc ''group'')" by code_simp
  then show "handle_call_tool demo_bridge (demo_call_env\<lparr>ce_answer := (\<lambda>_ _. Inl (BaseExc ''group''))\<rparr>) demo_params
      (demo_gateway, demo_limiter) = (Inl (BaseExc ''group''),
      (fst (snd (handle_call_tool demo_bridge (demo_call_env\<lparr>ce_answer := (\<lambda>_ _. Inl (BaseExc ''group''))\<rparr>) demo_params
        (demo_gateway, demo_limiter))),
       snd (snd (handle_call_tool demo_bridge (demo_call_env\<lparr>ce_answer := (\<lambda>_ _. Inl (BaseExc ''group''))\<rparr>) demo_params
        (demo_gateway, demo_limiter)))))" by (simp add: prod_eq_iff)
qed simp_all

end
