(* ===== verification/BridgeVerdict.thy ===== *)
theory BridgeVerdict
  imports BridgeAudit
begin

text \<open>
  The specification of the pipeline and its refinement. \<open>judge\<close> says in one expression, without
  state passing, what becomes of a call; \<open>verdict_result\<close>, \<open>verdict_outcome\<close> and
  \<open>verdict_stages\<close> say what the caller and the audit file see of it; \<open>call_follows_verdict\<close> shows that
  the handler implements that. The other properties are consequences of the specification.
\<close>

subsection \<open>The specification of the pipeline: a verdict\<close>

datatype verdict =
    VLimited | VDenied | VSchema string | VConstraint string | VBusy | VForwarded "call_result res"

text \<open>
  What becomes of a call, from the state in which it starts and the outcomes of its environment,
  with no state passed between the stages. \<open>Inl\<close> is an exception raised before a verdict.
\<close>

definition judge ::
  "bridge_config \<Rightarrow> call_env \<Rightarrow> string \<Rightarrow> string \<Rightarrow> args \<Rightarrow> gateway_state \<Rightarrow> verdict res" where
  "judge C E prin tool arguments = (\<lambda>(g, cl).
     case fst (rate_try_acquire prin (ce_rate_new E) (ce_rate_now E) (gw_rate g)) of
       Inl e \<Rightarrow> Inl e
     | Inr has_token \<Rightarrow>
     if \<not> has_token then Inr VLimited else
     (case resolve_tool_policy (bc_policy C) prin tool of
       None \<Rightarrow> Inr VDenied
     | Some tp \<Rightarrow>
     (case fst (cache_get (ce_list_tools E) (gw_cache g)) of
       Inl e \<Rightarrow> Inl e
     | Inr tools \<Rightarrow>
     (case find (\<lambda>t. tl_name t = tool) tools of
       None \<Rightarrow> Inr VDenied
     | Some ut \<Rightarrow>
     (case validate_input_schema (bc_js C) (tl_input_schema ut) arguments of
       Inl e \<Rightarrow> Inl e
     | Inr (Some m) \<Rightarrow> Inr (VSchema m)
     | Inr None \<Rightarrow>
     (case evaluate_argument_policy (bc_fullmatch C) tp arguments of
       Some m \<Rightarrow> Inr (VConstraint m)
     | None \<Rightarrow>
     if active_count cl prin < cl_max_concurrent cl
     then Inr (VForwarded (upstream_reply C E tool arguments)) else Inr VBusy))))))"

text \<open>The response, the audit outcome and the stage results that a verdict stands for.\<close>

fun verdict_result :: "string \<Rightarrow> verdict \<Rightarrow> call_result res" where
  "verdict_result tool VLimited = Inr (rate_limited_result tool)"
| "verdict_result tool VDenied = Inr (denied_result tool)"
| "verdict_result tool (VSchema m) = Inr (schema_invalid_result tool m)"
| "verdict_result tool (VConstraint m) = Inr (policy_invalid_result tool m)"
| "verdict_result tool VBusy = Inr (concurrency_rejected_result tool)"
| "verdict_result tool (VForwarded (Inr result)) = Inr result"
| "verdict_result tool (VForwarded (Inl (TimeoutErr _))) = Inr (upstream_timeout_result tool)"
| "verdict_result tool (VForwarded (Inl (Exc cls m))) = Inr (upstream_error_result tool m)"
| "verdict_result tool (VForwarded (Inl e)) = Inl e"

fun verdict_outcome :: "verdict \<Rightarrow> audit_outcome" where
  "verdict_outcome VLimited = RateLimited"
| "verdict_outcome VDenied = PolicyDenied"
| "verdict_outcome (VSchema m) = SchemaRejected"
| "verdict_outcome (VConstraint m) = PolicyDenied"
| "verdict_outcome VBusy = ConcurrencyRejected"
| "verdict_outcome (VForwarded (Inr _)) = UpstreamSuccess"
| "verdict_outcome (VForwarded (Inl (TimeoutErr _))) = UpstreamTimeout"
| "verdict_outcome (VForwarded (Inl Cancelled)) = OutcomeCancelled"
| "verdict_outcome (VForwarded (Inl _)) = UpstreamError"

text \<open>The results for the rate limit, the schema, the policy and the concurrency ceiling.\<close>

fun verdict_stages :: "verdict \<Rightarrow> stage_result \<times> stage_result \<times> stage_result \<times> stage_result" where
  "verdict_stages VLimited = (Failed, NotEvaluated, NotEvaluated, NotEvaluated)"
| "verdict_stages VDenied = (Passed, NotEvaluated, Failed, NotEvaluated)"
| "verdict_stages (VSchema _) = (Passed, Failed, NotEvaluated, NotEvaluated)"
| "verdict_stages (VConstraint _) = (Passed, Passed, Failed, NotEvaluated)"
| "verdict_stages VBusy = (Passed, Passed, Passed, Failed)"
| "verdict_stages (VForwarded _) = (Passed, Passed, Passed, Passed)"

definition forwarded_verdict :: "verdict \<Rightarrow> bool" where
  "forwarded_verdict v = (case v of VForwarded _ \<Rightarrow> True | _ \<Rightarrow> False)"

definition local_stages :: "call_locals \<Rightarrow> stage_result \<times> stage_result \<times> stage_result \<times> stage_result" where
  "local_stages l =
     (lo_rate_limit_result l, lo_schema_result l, lo_policy_result l, lo_concurrency_result l)"

definition record_stages :: "audit_record \<Rightarrow> stage_result \<times> stage_result \<times> stage_result \<times> stage_result" where
  "record_stages r =
     (ar_rate_limit_result r, ar_schema_result r, ar_policy_result r, ar_concurrency_result r)"

text \<open>A record that tells the verdict, and the rule that matched.\<close>

definition tells :: "verdict \<Rightarrow> string option \<Rightarrow> audit_record \<Rightarrow> bool" where
  "tells v rule r =
     (ar_outcome r = verdict_outcome v \<and> record_stages r = verdict_stages v \<and>
      ar_upstream_attempted r = forwarded_verdict v \<and> ar_matched_rule r = rule)"

definition ends_as ::
  "call_env \<Rightarrow> call_context \<Rightarrow> audit_logger \<Rightarrow> verdict \<Rightarrow> string option \<Rightarrow> call_result res \<times> call_state
    \<Rightarrow> bool" where
  "ends_as E X lg v rule rt =
     (fst rt = map_sum id (finalize (ce_correlation_id E)) (verdict_result (cx_tool_name X) v) \<and>
      (\<exists>rec. describes E X rec \<and> tells v rule rec \<and>
         gw_audit (st_gw (snd rt)) =
           append_line (audit_line (al_redaction_mode lg) rec @ [CHR 0x0A]) lg) \<and>
      lo_audit_emitted (st_lo (snd rt)))"

lemma tells_emit_record:
  "tells v rule (emit_record E X s out a c) \<longleftrightarrow>
    out = verdict_outcome v \<and> local_stages (st_lo s) = verdict_stages v \<and>
    a = forwarded_verdict v \<and> lo_matched_rule (st_lo s) = rule"
  by (simp add: tells_def emit_record_def make_record_def record_stages_def local_stages_def)

lemma ends_as_return:
  assumes "ce_write E (lo_writes (st_lo s)) = Written" "known_mode (al_redaction_mode (gw_audit (st_gw s)))"
    and "verdict_result (cx_tool_name X) v = Inr res" "out = verdict_outcome v"
    and "local_stages (st_lo s) = verdict_stages v" "a = forwarded_verdict v" "lo_matched_rule (st_lo s) = rule"
  shows "ends_as E X (gw_audit (st_gw s)) v rule (emit_and_return E X out a c res s)"
  using assms
  by (auto simp: ends_as_def emit_and_return_def handler_simps emit_apply Let_def logger_emit_Written
      tells_emit_record intro!: exI [of _ "emit_record E X s out a c"])

lemma ends_as_cancelled:
  assumes "ce_write E (lo_writes (st_lo s)) = Written" "known_mode (al_redaction_mode (gw_audit (st_gw s)))"
    and "local_stages (st_lo s) = verdict_stages (VForwarded (Inl Cancelled))" "lo_matched_rule (st_lo s) = rule"
  shows "ends_as E X (gw_audit (st_gw s)) (VForwarded (Inl Cancelled)) rule
    (act_then (emit E X OutcomeCancelled True c) (act_raise Cancelled) s)"
  using assms
  by (auto simp: ends_as_def handler_simps emit_apply Let_def logger_emit_Written
      tells_emit_record forwarded_verdict_def intro!: exI [of _ "emit_record E X s OutcomeCancelled True c"])

lemma verdict_result_raises:
  "verdict_result tool v = Inl e \<Longrightarrow> v = VForwarded (Inl e) \<and> (e = Cancelled \<or> (\<exists>m. e = BaseExc m))"
  by (cases "(tool, v)" rule: verdict_result.cases) auto

text \<open>The handler's local variables before the write of a verdict.\<close>

definition ready :: "call_env \<Rightarrow> audit_logger \<Rightarrow> string option \<Rightarrow> call_state \<Rightarrow> bool" where
  "ready E lg rule s =
     (gw_audit (st_gw s) = lg \<and> known_mode (al_redaction_mode lg) \<and>
      ce_write E (lo_writes (st_lo s)) = Written \<and> lo_matched_rule (st_lo s) = rule)"

lemma ends_as_reply:
  assumes "ready E lg rule s" "local_stages (st_lo s) = (Passed, Passed, Passed, Passed)"
    and "\<forall>m. reply \<noteq> Inl (BaseExc m)"
  shows "ends_as E X lg (VForwarded reply) rule (handle_reply E X t reply s)"
proof -
  let ?s = "snd (stop_upstream_timer E t s)"
  have ready: "ready E lg rule ?s" "local_stages (st_lo ?s) = (Passed, Passed, Passed, Passed)"
    using assms by (simp_all add: ready_def stop_upstream_timer_def handler_simps local_stages_def)
  then have ret: "ends_as E X lg (VForwarded reply) rule (emit_and_return E X out True c res ?s)"
    if "verdict_result (cx_tool_name X) (VForwarded reply) = Inr res"
      "out = verdict_outcome (VForwarded reply)" for out c res
    using ends_as_return [of E ?s X "VForwarded reply" res out True rule c] that
    by (simp add: ready_def forwarded_verdict_def)
  show ?thesis
  proof (cases reply)
    case (Inl e)
    show ?thesis
    proof (cases e)
      case Cancelled
      with ready show ?thesis
        using ends_as_cancelled [of E ?s rule X "Some CatCancelled"]
        by (simp add: Inl handle_reply_def act_then_apply [of "stop_upstream_timer E t"] ready_def)
    qed (use assms Inl ret in \<open>simp_all add: handle_reply_def act_then_apply\<close>)
  qed (use ret in \<open>simp add: handle_reply_def act_then_apply\<close>)
qed

lemma ends_as_forward:
  assumes "ready E lg rule s" "local_stages (st_lo s) = (Passed, Passed, Passed, NotEvaluated)"
    and "\<forall>m. upstream_reply C E (cx_tool_name X) (cx_arguments X) \<noteq> Inl (BaseExc m)"
  shows "ends_as E X lg
    (if acquired then VForwarded (upstream_reply C E (cx_tool_name X) (cx_arguments X)) else VBusy) rule
    (stage_forward C E X acquired s)"
proof (cases acquired)
  case True
  let ?s = "(((st_gw s)\<lparr>gw_forwarded := gw_forwarded (st_gw s) @ [(cx_tool_name X, cx_arguments X)]\<rparr>,
    (st_lo s)\<lparr>lo_concurrency_result := Passed, lo_readings := Suc (lo_readings (st_lo s))\<rparr>), st_cl s)"
  have "ready E lg rule ?s" "local_stages (st_lo ?s) = (Passed, Passed, Passed, Passed)"
    using assms by (simp_all add: ready_def local_stages_def)
  then show ?thesis
    using True ends_as_reply [OF _ _ assms(3)] by (simp add: stage_forward_def handler_simps)
next
  case False
  let ?s = "((st_gw s, (st_lo s)\<lparr>lo_concurrency_result := Failed\<rparr>), st_cl s)"
  have "ready E lg rule ?s" "local_stages (st_lo ?s) = (Passed, Passed, Passed, Failed)"
    using assms by (simp_all add: ready_def local_stages_def)
  then show ?thesis
    using False ends_as_return [of E ?s X VBusy "concurrency_rejected_result (cx_tool_name X)"
        ConcurrencyRejected False rule None]
    by (simp add: stage_forward_def handler_simps ready_def forwarded_verdict_def)
qed

lemma ends_as_slot:
  assumes "\<And>cl. ends_as E X lg (v (fst (slot_try_acquire p (st_cl s)))) rule
      (body (fst (slot_try_acquire p (st_cl s))) (fst s, cl))"
  shows "ends_as E X lg (v (active_count (st_cl s) p < cl_max_concurrent (st_cl s))) rule
    (with_slot p body s)"
  using assms [of "snd (slot_try_acquire p (st_cl s))"]
  by (simp add: ends_as_def with_slot_apply Let_def slot_try_acquire_granted)

lemma ends_as_stage_arguments:
  assumes "ready E lg rule s" "local_stages (st_lo s) = (Passed, Passed, NotEvaluated, NotEvaluated)"
    and "v = (case evaluate_argument_policy (bc_fullmatch C) tp (cx_arguments X) of
        Some m \<Rightarrow> VConstraint m
      | None \<Rightarrow> if active_count (st_cl s) (cx_principal X) < cl_max_concurrent (st_cl s)
               then VForwarded (upstream_reply C E (cx_tool_name X) (cx_arguments X)) else VBusy)"
    and "\<forall>m. v \<noteq> VForwarded (Inl (BaseExc m))"
  shows "ends_as E X lg v rule (stage_arguments C E X tp t s)"
proof (cases "evaluate_argument_policy (bc_fullmatch C) tp (cx_arguments X)")
  case (Some m)
  let ?s = "((st_gw s, (st_lo (snd (stop_policy_timer E t s)))\<lparr>lo_policy_result := Failed\<rparr>), st_cl s)"
  have "ready E lg rule ?s" "local_stages (st_lo ?s) = (Passed, Passed, Failed, NotEvaluated)"
    using assms by (simp_all add: ready_def stop_policy_timer_def handler_simps local_stages_def)
  then show ?thesis
    using assms(3) Some ends_as_return [of E ?s X v "policy_invalid_result (cx_tool_name X) m"
        PolicyDenied False rule None]
    by (simp add: stage_arguments_def handler_simps ready_def forwarded_verdict_def stop_policy_timer_def)
next
  case None
  let ?s = "((st_gw s, (st_lo (snd (stop_policy_timer E t s)))\<lparr>lo_policy_result := Passed\<rparr>), st_cl s)"
  let ?v = "\<lambda>b. if b then VForwarded (upstream_reply C E (cx_tool_name X) (cx_arguments X)) else VBusy"
  have v: "v = ?v (active_count (st_cl ?s) (cx_principal X) < cl_max_concurrent (st_cl ?s))"
    using assms(3) None by simp
  have r: "ready E lg rule (fst ?s, cl)" "local_stages (st_lo (fst ?s, cl)) = (Passed, Passed, Passed, NotEvaluated)" for cl
    using assms by (simp_all add: ready_def stop_policy_timer_def handler_simps local_stages_def)
  have "ends_as E X lg (?v (fst (slot_try_acquire (cx_principal X) (st_cl ?s)))) rule
      (stage_forward C E X (fst (slot_try_acquire (cx_principal X) (st_cl ?s))) (fst ?s, cl))" for cl
  proof (cases "fst (slot_try_acquire (cx_principal X) (st_cl ?s))")
    case True
    then have "\<forall>m. upstream_reply C E (cx_tool_name X) (cx_arguments X) \<noteq> Inl (BaseExc m)"
      using assms(4) v by (auto simp: slot_try_acquire_granted)
    then show ?thesis using ends_as_forward [OF r] by fastforce
  next
    case False
    let ?t = "((st_gw s, (st_lo ?s)\<lparr>lo_concurrency_result := Failed\<rparr>), cl)"
    have "ready E lg rule ?t" "local_stages (st_lo ?t) = (Passed, Passed, Passed, Failed)"
      using r by (simp_all add: ready_def local_stages_def)
    with False show ?thesis
      using ends_as_return [of E ?t X VBusy "concurrency_rejected_result (cx_tool_name X)"
          ConcurrencyRejected False rule None]
      by (simp add: stage_forward_def handler_simps ready_def forwarded_verdict_def)
  qed
  then have "ends_as E X lg v rule (with_slot (cx_principal X) (stage_forward C E X) ?s)"
    unfolding v by (rule ends_as_slot [of E X lg ?v])
  then show ?thesis
    by (simp add: stage_arguments_def None handler_simps stop_policy_timer_def)
qed

lemma ends_as_stage_schema:
  assumes "ready E lg rule s" "local_stages (st_lo s) = (Passed, NotEvaluated, NotEvaluated, NotEvaluated)"
    and "Inr v = (case validate_input_schema (bc_js C) (tl_input_schema ut) (cx_arguments X) of
        Inl e \<Rightarrow> Inl e
      | Inr (Some m) \<Rightarrow> Inr (VSchema m)
      | Inr None \<Rightarrow> Inr (case evaluate_argument_policy (bc_fullmatch C) tp (cx_arguments X) of
          Some m \<Rightarrow> VConstraint m
        | None \<Rightarrow> if active_count (st_cl s) (cx_principal X) < cl_max_concurrent (st_cl s)
                 then VForwarded (upstream_reply C E (cx_tool_name X) (cx_arguments X)) else VBusy))"
    and "\<forall>m. v \<noteq> VForwarded (Inl (BaseExc m))"
  shows "ends_as E X lg v rule (stage_schema C E X tp ut s)"
proof (cases "validate_input_schema (bc_js C) (tl_input_schema ut) (cx_arguments X)")
  case (Inr o')
  show ?thesis
  proof (cases o')
    case None
    let ?s = "((st_gw s, (st_lo s)\<lparr>lo_readings := Suc (lo_readings (st_lo s)), lo_schema_result := Passed\<rparr>), st_cl s)"
    have "ready E lg rule ?s" "local_stages (st_lo ?s) = (Passed, Passed, NotEvaluated, NotEvaluated)"
      using assms by (simp_all add: ready_def local_stages_def)
    from ends_as_stage_arguments [OF this, where v = v and C = C and tp = tp and X = X, unfolded snd_conv] show ?thesis
      using assms(3,4) by (simp add: stage_schema_def Inr None handler_simps)
  next
    case (Some m)
    let ?s = "((st_gw s, (st_lo s)\<lparr>lo_schema_result := Failed, lo_readings := Suc (Suc (lo_readings (st_lo s))),
      lo_policy_latency_ms := Some (elapsed_ms (ce_monotonic E (Suc (lo_readings (st_lo s))))
        (make_timer (ce_monotonic E (lo_readings (st_lo s)))))\<rparr>), st_cl s)"
    have "ready E lg rule ?s" "local_stages (st_lo ?s) = (Passed, Failed, NotEvaluated, NotEvaluated)"
      using assms by (simp_all add: ready_def local_stages_def)
    then show ?thesis
      using assms(3) ends_as_return [of E ?s X v "schema_invalid_result (cx_tool_name X) m"
          SchemaRejected False rule None]
      by (simp add: stage_schema_def Inr Some handler_simps ready_def forwarded_verdict_def stop_policy_timer_def)
  qed
qed (use assms(3) in simp)

lemma ends_as_deny:
  assumes "ready E lg rule s" "local_stages (st_lo s) = (Passed, NotEvaluated, NotEvaluated, NotEvaluated)"
  shows "ends_as E X lg VDenied rule (deny_as_unknown E X s)"
proof -
  let ?s = "((st_gw s, (st_lo s)\<lparr>lo_policy_result := Failed\<rparr>), st_cl s)"
  have "ready E lg rule ?s" "local_stages (st_lo ?s) = (Passed, NotEvaluated, Failed, NotEvaluated)"
    using assms by (simp_all add: ready_def local_stages_def)
  then show ?thesis
    using ends_as_return [of E ?s X VDenied "denied_result (cx_tool_name X)" PolicyDenied False rule None]
    by (simp add: deny_as_unknown_def handler_simps ready_def forwarded_verdict_def)
qed

text \<open>The rule that the record of a call names, once the call has a token.\<close>

definition rule_named :: "bridge_config \<Rightarrow> string \<Rightarrow> string \<Rightarrow> string option" where
  "rule_named C prin tool = (if tool_rule (bc_policy C) prin tool = None then None else Some tool)"

lemma ends_as_stage_authorize:
  assumes "ready E lg None s" "local_stages (st_lo s) = (Passed, NotEvaluated, NotEvaluated, NotEvaluated)"
    and g: "gw_cache (st_gw s) = gw_cache g" and cl: "st_cl s = cl"
    and tok: "fst (rate_try_acquire (cx_principal X) (ce_rate_new E) (ce_rate_now E) (gw_rate g)) = Inr True"
    and v: "judge C E (cx_principal X) (cx_tool_name X) (cx_arguments X) (g, cl) = Inr v"
    and base: "\<forall>m. v \<noteq> VForwarded (Inl (BaseExc m))"
  shows "ends_as E X lg v (rule_named C (cx_principal X) (cx_tool_name X)) (stage_authorize C E X s)"
proof -
  let ?rule = "rule_named C (cx_principal X) (cx_tool_name X)"
  let ?l = "if ?rule \<noteq> None then (st_lo s)\<lparr>lo_matched_rule := Some (cx_tool_name X)\<rparr> else st_lo s"
  have named: "(case dict_get (pc_principals (bc_policy C)) (cx_principal X) of None \<Rightarrow> False
      | Some pp \<Rightarrow> dict_get (pp_tools pp) (cx_tool_name X) \<noteq> None) \<longleftrightarrow> ?rule \<noteq> None"
    by (simp add: rule_named_def tool_rule_def split: option.split)
  have r: "ready E lg ?rule ((g', ?l), cl')"
    "local_stages (st_lo ((g', ?l), cl')) = (Passed, NotEvaluated, NotEvaluated, NotEvaluated)"
    if "gw_audit g' = gw_audit (st_gw s)" for g' cl'
    using assms(1,2) that by (auto simp: ready_def local_stages_def rule_named_def)
  note unfold = stage_authorize_def named Let_def handler_simps
  show ?thesis
  proof (cases "resolve_tool_policy (bc_policy C) (cx_principal X) (cx_tool_name X)")
    case None
    then show ?thesis
      using v tok ends_as_deny [OF r, of "st_gw s"]
      by (simp add: unfold judge_def split del: if_split)
  next
    case (Some tp)
    then show ?thesis
    proof (cases "fst (cache_get (ce_list_tools E) (gw_cache g))")
      case (Inr tools)
      let ?g = "(st_gw s)\<lparr>gw_cache := snd (cache_get (ce_list_tools E) (gw_cache g)), gw_fetches :=
          gw_fetches (st_gw s) + (if gw_cache g = None then 1 else 0)\<rparr>"
      note r' = r [of ?g "st_cl s"]
      show ?thesis
      proof (cases "find (\<lambda>t. tl_name t = cx_tool_name X) tools")
        case None
        then show ?thesis
          using v tok Some Inr ends_as_deny [OF r']
          by (simp add: unfold judge_def g split del: if_split)
      next
        case (Some ut)
        let ?t = "((?g, ?l), st_cl s)"
        have "Inr v = (case validate_input_schema (bc_js C) (tl_input_schema ut) (cx_arguments X) of
            Inl e \<Rightarrow> Inl e
          | Inr (Some m) \<Rightarrow> Inr (VSchema m)
          | Inr None \<Rightarrow> Inr (case evaluate_argument_policy (bc_fullmatch C) tp (cx_arguments X) of
              Some m \<Rightarrow> VConstraint m
            | None \<Rightarrow> if active_count (st_cl ?t) (cx_principal X) < cl_max_concurrent (st_cl ?t)
                     then VForwarded (upstream_reply C E (cx_tool_name X) (cx_arguments X)) else VBusy))"
          using v tok \<open>resolve_tool_policy _ _ _ = _\<close> Inr Some cl
          by (auto simp: judge_def split: sum.splits option.splits if_splits)
        then have "ends_as E X lg v ?rule (stage_schema C E X tp ut ?t)"
          by (intro ends_as_stage_schema r' base) simp_all
        then show ?thesis
          using \<open>resolve_tool_policy _ _ _ = _\<close> Inr Some
          by (simp add: unfold g split del: if_split)
      qed
    qed (use v tok in \<open>simp add: judge_def\<close>)
  qed
qed

lemma ends_as_stage_rate:
  assumes "ready E lg None s" "local_stages (st_lo s) = (Failed, NotEvaluated, NotEvaluated, NotEvaluated)"
    and v: "judge C E (cx_principal X) (cx_tool_name X) (cx_arguments X) (st_gw s, st_cl s) = Inr v"
    and "\<forall>m. v \<noteq> VForwarded (Inl (BaseExc m))"
  shows "ends_as E X lg v
    (if v = VLimited then None else rule_named C (cx_principal X) (cx_tool_name X)) (stage_rate C E X s)"
proof (cases "fst (rate_try_acquire (cx_principal X) (ce_rate_new E) (ce_rate_now E) (gw_rate (st_gw s)))")
  case (Inr ok)
  let ?g = "(st_gw s)\<lparr>gw_rate := snd (rate_try_acquire (cx_principal X) (ce_rate_new E) (ce_rate_now E) (gw_rate (st_gw s)))\<rparr>"
  show ?thesis
  proof (cases ok)
    case True
    let ?s = "((?g, (st_lo s)\<lparr>lo_rate_limit_result := Passed\<rparr>), st_cl s)"
    have "ready E lg None ?s" "local_stages (st_lo ?s) = (Passed, NotEvaluated, NotEvaluated, NotEvaluated)"
      using assms(1,2) by (simp_all add: ready_def local_stages_def)
    moreover have "v \<noteq> VLimited"
      using v Inr True by (auto simp: judge_def split: sum.splits option.splits if_splits)
    ultimately show ?thesis
      using ends_as_stage_authorize [of E lg ?s "st_gw s" "st_cl s" X C v] v assms(4) Inr True
      by (simp add: stage_rate_def handler_simps Let_def)
  next
    case False
    let ?s = "((?g, st_lo s), st_cl s)"
    have "ready E lg None ?s" using assms(1) by (simp add: ready_def)
    moreover have "v = VLimited" using v Inr False by (simp add: judge_def)
    ultimately show ?thesis
      using ends_as_return [of E ?s X VLimited "rate_limited_result (cx_tool_name X)" RateLimited False None None]
        Inr False assms(2)
      by (simp add: stage_rate_def handler_simps Let_def ready_def forwarded_verdict_def)
  qed
qed (use v in \<open>simp add: judge_def\<close>)

lemma call_verdict:
  assumes "ce_principal E = Some prin" "\<forall>n. ce_write E n = Written"
    and "known_mode (al_redaction_mode (gw_audit g))"
    and "judge C E prin (cp_name params) (call_arguments params) (g, cl) = Inr v"
    and "\<forall>m. v \<noteq> VForwarded (Inl (BaseExc m))"
    and "handle_call_tool C E params (g, cl) = (r, (g', cl'))"
  shows "r = map_sum id (finalize (ce_correlation_id E)) (verdict_result (cp_name params) v) \<and>
    (\<exists>rec. describes E (call_ctx E params prin) rec \<and>
       tells v (if v = VLimited then None else rule_named C prin (cp_name params)) rec \<and>
       adds_record g rec g')"
proof -
  let ?s = "((g, initial_locals\<lparr>lo_readings := 1\<rparr>), cl)" and ?X = "call_ctx E params prin"
  have "ends_as E ?X (gw_audit g) v
      (if v = VLimited then None else rule_named C (cx_principal ?X) (cx_tool_name ?X)) (stage_rate C E ?X ?s)"
  proof (rule ends_as_stage_rate)
    show "ready E (gw_audit g) None ?s"
      "local_stages (st_lo ?s) = (Failed, NotEvaluated, NotEvaluated, NotEvaluated)"
      using assms by (simp_all add: ready_def local_stages_def initial_locals_def)
  qed (use assms in simp_all)
  moreover from this have "run_call C E ?X ?s = stage_rate C E ?X ?s"
  proof (cases "fst (stage_rate C E ?X ?s)")
    case (Inl e)
    then have "verdict_result (cp_name params) v = Inl e" "lo_audit_emitted (st_lo (snd (stage_rate C E ?X ?s)))"
      using \<open>ends_as _ _ _ _ _ _\<close>
      by (cases "verdict_result (cp_name params) v"; auto simp: ends_as_def)+
    moreover from this(1) have "e = Cancelled" using verdict_result_raises assms(5) by blast
    ultimately have "e = Cancelled" "lo_audit_emitted (st_lo (snd (stage_rate C E ?X ?s)))" by simp_all
    with Inl show ?thesis
      by (simp add: run_call_def handler_simps handle_escape_def emit_unless_emitted_def prod_eq_iff)
  qed (simp add: run_call_def handler_simps prod_eq_iff)
  moreover have "r = fst (run_call C E ?X ?s)" "g' = st_gw (snd (run_call C E ?X ?s))"
    using assms by (auto simp: handle_call_tool_def current_principal_def split: prod.splits)
  ultimately show ?thesis
    unfolding ends_as_def adds_record_def call_ctx_simps by (simp split del: if_split)
qed

text \<open>
  C9: The pipeline implements its specification. When the audit writes succeed, a call that the
  specification judges returns the response the verdict stands for, with the correlation ID in its
  metadata (or raises the cancellation), and appends one record that tells the verdict: outcome, the
  result of every stage, whether the upstream was attempted, and the rule that matched.
\<close>

theorem call_follows_verdict:
  assumes "ce_principal E = Some prin" "\<forall>n. ce_write E n = Written"
    and "known_mode (al_redaction_mode (gw_audit g))"
    and "judge C E prin (cp_name params) (call_arguments params) (g, cl) = Inr v"
    and "\<forall>m. v \<noteq> VForwarded (Inl (BaseExc m))"
    and "handle_call_tool C E params (g, cl) = (r, (g', cl'))"
  shows "r = map_sum id (finalize (ce_correlation_id E)) (verdict_result (cp_name params) v) \<and>
    (\<exists>rec. describes E (call_ctx E params prin) rec \<and>
       tells v (if v = VLimited then None else rule_named C prin (cp_name params)) rec \<and>
       adds_record g rec g')"
  by (rule call_verdict [OF assms])

lemma demo_judged:
  "judge demo_bridge demo_call_env ''analyst'' ''echo'' [(''text'', PStr ''hi'')] (demo_gateway, demo_limiter) =
    Inr (VForwarded (Inr \<lparr>cr_content = [TextContent ''hi''], cr_is_error = False, cr_meta = None, cr_rest = []\<rparr>))"
  by code_simp

theorem call_follows_verdict_witness:
  "\<exists>rec. tells (VForwarded (Inr \<lparr>cr_content = [TextContent ''hi''], cr_is_error = False, cr_meta = None, cr_rest = []\<rparr>))
      (Some ''echo'') rec \<and> adds_record demo_gateway rec (fst (snd demo_result))"
proof -
  have "judge demo_bridge demo_call_env ''analyst'' (cp_name demo_params) (call_arguments demo_params)
      (demo_gateway, demo_limiter) =
    Inr (VForwarded (Inr \<lparr>cr_content = [TextContent ''hi''], cr_is_error = False, cr_meta = None, cr_rest = []\<rparr>))"
    using demo_judged by (simp add: demo_params_def call_arguments_def)
  moreover have "rule_named demo_bridge ''analyst'' (cp_name demo_params) = Some ''echo''" by code_simp
  ultimately show ?thesis
    using call_follows_verdict [OF demo_call_env_simps(1) _ demo_gateway_mode _ _ demo_result_collapse] by auto
qed


text \<open>What is judged to be forwarded is what is permitted.\<close>

lemma judge_permitted:
  assumes "judge C E prin tool arguments (g, cl) = Inr v"
  shows "call_permitted C E prin tool arguments (g, cl) \<longleftrightarrow> forwarded_verdict v"
proof -
  have rule: "tool_rule p q t = Some tp \<and> tp_effect tp = Allow \<and> Q \<longleftrightarrow> resolve_tool_policy p q t = Some tp \<and> Q"
    for p q t tp Q
    using tool_policy_Some_iff by blast
  show ?thesis
    using assms
    by (auto simp: judge_def call_permitted_def rule forwarded_verdict_def evaluate_None_iff [symmetric]
        split: sum.splits if_splits option.splits)
qed


subsection \<open>Consequences\<close>





end
