(* ===== verification/BridgeTasks.thy ===== *)
theory BridgeTasks
  imports BridgeVerdict
begin

text \<open>
  Many requests at once: \<open>handle_call_tool\<close> and \<open>handle_list_tools\<close> (sentinelmcp/gateway/bridge.py) as
  the tasks of one event loop. A task runs from one suspension to the next; between two of its steps other tasks run. It
  suspends where the source awaits something that is not at hand: the lock of the tool cache, the
  fetch of the tool list, the upstream call, the lock of the audit logger and the write of a line.
  A \<open>point\<close> names where a task is suspended and what it needs to go on; \<open>task_step\<close> is one step of
  a task on a \<open>signal\<close>, over the state all tasks share, with the two locks as the code has them.

  Taking a free lock is a step of its own. asyncio takes it without giving up control and serves
  waiting tasks first come first served, so the runs here include asyncio's. A write that is
  cancelled and done all the same by its thread is done when it is cancelled.
\<close>

subsection \<open>State\<close>

text \<open>
  An \<open>emit\<close> under way: its record, whether the task holds a concurrency slot meanwhile, whether it
  is one of the outer \<open>except\<close> clauses that emits, and what the handler returns or raises after it.
\<close>

record emission =
  em_record :: audit_record
  em_slot :: bool
  em_outer :: bool
  em_after :: "call_result res"

text \<open>The points of a call, and those of a \<open>tools/list\<close>, which only passes the tool cache.\<close>

datatype point =
    Ready
  | AtCache tool_policy
  | Fetching tool_policy
  | Calling latency_timer
  | AtLog emission
  | Writing emission
  | Finished "call_result res"
  | ListReady
  | ListAtCache
  | ListFetching
  | Listed "tool list res"

record task =
  tk_env :: call_env
  tk_params :: call_params
  tk_locals :: call_locals
  tk_point :: point

record shared =
  sh_gateway :: gateway
  sh_limiter :: concurrency_limiter
  sh_cache_lock :: bool
  sh_log_lock :: bool

text \<open>What wakes a task up.\<close>

datatype signal =
    Begin
  | TakeLock
  | CancelCacheWait
  | CancelLogWait
  | ToolsArrive "tool list res"
  | ReplyArrives "call_result res"
  | WriteEnds write_outcome


subsection \<open>Emitting\<close>

definition leave_slot :: "bool \<Rightarrow> call_context \<Rightarrow> call_state \<Rightarrow> call_state" where
  "leave_slot held X s = (fst s, if held then slot_release (cx_principal X) (st_cl s) else st_cl s)"

definition count_reading :: "call_state \<Rightarrow> call_state" where
  "count_reading s = ((st_gw s, (st_lo s)\<lparr>lo_readings := Suc (lo_readings (st_lo s))\<rparr>), st_cl s)"

definition count_write :: "call_state \<Rightarrow> call_state" where
  "count_write s = ((st_gw s, (st_lo s)\<lparr>lo_writes := Suc (lo_writes (st_lo s))\<rparr>), st_cl s)"

text \<open>
  The record is built and turned into its line before the lock is asked for. The outer \<open>except\<close>
  clauses re-raise \<open>e\<close> after their record, unless there is one already.
\<close>

definition escape_to :: "call_env \<Rightarrow> call_context \<Rightarrow> exn \<Rightarrow> call_state \<Rightarrow> point \<times> call_state" where
  "escape_to E X e s =
     (if (e = Cancelled \<or> is_exception e) \<and> \<not> lo_audit_emitted (st_lo s) then
        (let r = emit_record E X s (if e = Cancelled then OutcomeCancelled else InternalError) False None
         in case serialize (al_redaction_mode (gw_audit (st_gw s))) r of
              Inl e' \<Rightarrow> (Finished (Inl e'), count_write (count_reading s))
            | Inr _ \<Rightarrow>
                (AtLog \<lparr>em_record = r, em_slot = False, em_outer = True, em_after = Inl e\<rparr>, count_reading s))
      else (Finished (Inl e), s))"

text \<open>The end of an \<open>emit\<close>: what the code around it does.\<close>

definition emission_over ::
  "call_env \<Rightarrow> call_context \<Rightarrow> emission \<Rightarrow> unit res \<Rightarrow> call_state \<Rightarrow> point \<times> call_state" where
  "emission_over E X em res s =
     (let s' = leave_slot (em_slot em) X
                 ((st_gw s, if isl res then st_lo s else (st_lo s)\<lparr>lo_audit_emitted := True\<rparr>), st_cl s);
          after = (case res of Inl e \<Rightarrow> Inl e | Inr _ \<Rightarrow> em_after em)
      in if em_outer em then (Finished after, s')
         else (case after of Inl e \<Rightarrow> escape_to E X e s' | Inr r \<Rightarrow> (Finished (Inr r), s')))"

definition start_emission ::
  "call_env \<Rightarrow> call_context \<Rightarrow> bool \<Rightarrow> call_result res \<Rightarrow> audit_outcome \<Rightarrow> bool
    \<Rightarrow> upstream_category option \<Rightarrow> call_state \<Rightarrow> point \<times> call_state" where
  "start_emission E X slot after outcome attempted category s =
     (let r = emit_record E X s outcome attempted category;
          em = \<lparr>em_record = r, em_slot = slot, em_outer = False, em_after = after\<rparr>
      in case serialize (al_redaction_mode (gw_audit (st_gw s))) r of
           Inl e \<Rightarrow> emission_over E X em (Inl e) (count_write (count_reading s))
         | Inr _ \<Rightarrow> (AtLog em, count_reading s))"

text \<open>\<open>await emit(...); return finalize(...)\<close>.\<close>

definition answer ::
  "call_env \<Rightarrow> call_context \<Rightarrow> bool \<Rightarrow> audit_outcome \<Rightarrow> bool \<Rightarrow> upstream_category option
    \<Rightarrow> call_result \<Rightarrow> call_state \<Rightarrow> point \<times> call_state" where
  "answer E X slot outcome attempted category result =
     start_emission E X slot (Inr (finalize (ce_correlation_id E) result)) outcome attempted category"


subsection \<open>From one suspension to the next\<close>

abbreviation with_local :: "(call_locals \<Rightarrow> call_locals) \<Rightarrow> call_state \<Rightarrow> call_state" where
  "with_local f s \<equiv> snd (set_local f s)"

text \<open>The concurrency ceiling, and the upstream call if a slot is free.\<close>

definition seg_forward :: "call_env \<Rightarrow> call_context \<Rightarrow> call_state \<Rightarrow> point \<times> call_state" where
  "seg_forward E X s =
     (case slot_try_acquire (cx_principal X) (st_cl s) of (acquired, cl) \<Rightarrow>
        if \<not> acquired then
          answer E X False ConcurrencyRejected False None (concurrency_rejected_result (cx_tool_name X))
            (with_local (\<lambda>l. l\<lparr>lo_concurrency_result := Failed\<rparr>) (fst s, cl))
        else
          (let s1 = with_local (\<lambda>l. l\<lparr>lo_concurrency_result := Passed\<rparr>) (fst s, cl)
           in (Calling (make_timer (ce_monotonic E (lo_readings (st_lo s1)))),
               (((st_gw s1)\<lparr>gw_forwarded := gw_forwarded (st_gw s1) @ [(cx_tool_name X, cx_arguments X)]\<rparr>,
                 st_lo (count_reading s1)), st_cl s1))))"

definition seg_arguments ::
  "bridge_config \<Rightarrow> call_env \<Rightarrow> call_context \<Rightarrow> tool_policy \<Rightarrow> latency_timer \<Rightarrow> call_state
    \<Rightarrow> point \<times> call_state" where
  "seg_arguments C E X tp policy_timer s =
     (let s1 = snd (stop_policy_timer E policy_timer s) in
      case evaluate_argument_policy (bc_fullmatch C) tp (cx_arguments X) of
        Some reason \<Rightarrow>
          answer E X False PolicyDenied False None (policy_invalid_result (cx_tool_name X) reason)
            (with_local (\<lambda>l. l\<lparr>lo_policy_result := Failed\<rparr>) s1)
      | None \<Rightarrow> seg_forward E X (with_local (\<lambda>l. l\<lparr>lo_policy_result := Passed\<rparr>) s1))"

definition seg_deny :: "call_env \<Rightarrow> call_context \<Rightarrow> call_state \<Rightarrow> point \<times> call_state" where
  "seg_deny E X s =
     answer E X False PolicyDenied False None (denied_result (cx_tool_name X))
       (with_local (\<lambda>l. l\<lparr>lo_policy_result := Failed\<rparr>) s)"

text \<open>From the tool list on.\<close>

definition seg_tools ::
  "bridge_config \<Rightarrow> call_env \<Rightarrow> call_context \<Rightarrow> tool_policy \<Rightarrow> tool list \<Rightarrow> call_state
    \<Rightarrow> point \<times> call_state" where
  "seg_tools C E X tp upstream_tools s =
     (case find (\<lambda>t. tl_name t = cx_tool_name X) upstream_tools of
        None \<Rightarrow> seg_deny E X s
      | Some upstream_tool \<Rightarrow>
          (let timer = make_timer (ce_monotonic E (lo_readings (st_lo s))); s1 = count_reading s in
           case validate_input_schema (bc_js C) (tl_input_schema upstream_tool) (cx_arguments X) of
             Inl e \<Rightarrow> escape_to E X e s1
           | Inr (Some reason) \<Rightarrow>
               answer E X False SchemaRejected False None (schema_invalid_result (cx_tool_name X) reason)
                 (snd (stop_policy_timer E timer (with_local (\<lambda>l. l\<lparr>lo_schema_result := Failed\<rparr>) s1)))
           | Inr None \<Rightarrow>
               seg_arguments C E X tp timer (with_local (\<lambda>l. l\<lparr>lo_schema_result := Passed\<rparr>) s1)))"

text \<open>From the top of the handler to the cache, with a principal.\<close>

definition seg_begin ::
  "bridge_config \<Rightarrow> call_env \<Rightarrow> call_context \<Rightarrow> call_state \<Rightarrow> point \<times> call_state" where
  "seg_begin C E X s =
     (case acquire_token E X s of
        (Inl e, s1) \<Rightarrow> escape_to E X e s1
      | (Inr ok, s1) \<Rightarrow>
          if \<not> ok then answer E X False RateLimited False None (rate_limited_result (cx_tool_name X)) s1
          else
            (let named = (case dict_get (pc_principals (bc_policy C)) (cx_principal X) of
                            None \<Rightarrow> False
                          | Some pp \<Rightarrow> dict_get (pp_tools pp) (cx_tool_name X) \<noteq> None);
                 s2 = with_local (\<lambda>l. if named then l\<lparr>lo_matched_rule := Some (cx_tool_name X)\<rparr> else l)
                        (with_local (\<lambda>l. l\<lparr>lo_rate_limit_result := Passed\<rparr>) s1)
             in case resolve_tool_policy (bc_policy C) (cx_principal X) (cx_tool_name X) of
                  None \<Rightarrow> seg_deny E X s2
                | Some tp \<Rightarrow> (AtCache tp, s2)))"

text \<open>From the reply of the upstream on, inside the slot.\<close>

definition seg_reply ::
  "call_env \<Rightarrow> call_context \<Rightarrow> latency_timer \<Rightarrow> call_result res \<Rightarrow> call_state \<Rightarrow> point \<times> call_state" where
  "seg_reply E X t reply s =
     (let s1 = snd (stop_upstream_timer E t s) in
      case reply of
        Inl (TimeoutErr _) \<Rightarrow>
          answer E X True UpstreamTimeout True (Some CatTimeout) (upstream_timeout_result (cx_tool_name X)) s1
      | Inl Cancelled \<Rightarrow>
          start_emission E X True (Inl Cancelled) OutcomeCancelled True (Some CatCancelled) s1
      | Inl (Exc cls m) \<Rightarrow>
          answer E X True UpstreamError True (Some CatError)
            (upstream_error_result (cx_tool_name X) (exn_str (Exc cls m))) s1
      | Inl (BaseExc m) \<Rightarrow> escape_to E X (BaseExc m) (leave_slot True X s)
      | Inr result \<Rightarrow> answer E X True UpstreamSuccess True (Some CatSuccess) result s1)"


subsection \<open>Steps\<close>

definition task_principal :: "task \<Rightarrow> string" where
  "task_principal t = (case ce_principal (tk_env t) of None \<Rightarrow> [] | Some p \<Rightarrow> p)"

definition task_ctx :: "task \<Rightarrow> call_context" where
  "task_ctx t = call_ctx (tk_env t) (tk_params t) (task_principal t)"

text \<open>A segment run on the task's locals and the shared state.\<close>

definition run_seg :: "(call_state \<Rightarrow> point \<times> call_state) \<Rightarrow> task \<Rightarrow> shared \<Rightarrow> task \<times> shared" where
  "run_seg seg t sh =
     (case seg ((sh_gateway sh, tk_locals t), sh_limiter sh) of
        (pt, ((g, l), cl)) \<Rightarrow>
          (t\<lparr>tk_locals := l, tk_point := pt\<rparr>, sh\<lparr>sh_gateway := g, sh_limiter := cl\<rparr>))"

text \<open>What \<open>handle_list_tools\<close> returns of the cached list.\<close>

definition listed_tools :: "bridge_config \<Rightarrow> string \<Rightarrow> tool list \<Rightarrow> tool list" where
  "listed_tools C prin tools = filter (\<lambda>tool. is_tool_allowed (bc_policy C) prin (tl_name tool)) tools"

definition list_step :: "bridge_config \<Rightarrow> signal \<Rightarrow> task \<Rightarrow> shared \<Rightarrow> (task \<times> shared) option" where
  "list_step C sig t sh =
     (case (tk_point t, sig) of
        (ListReady, Begin) \<Rightarrow>
          (case current_principal (ce_principal (tk_env t)) of
             Inl e \<Rightarrow> Some (t\<lparr>tk_point := Listed (Inl e)\<rparr>, sh)
           | Inr _ \<Rightarrow> Some (t\<lparr>tk_point := ListAtCache\<rparr>, sh))
      | (ListAtCache, TakeLock) \<Rightarrow>
          if sh_cache_lock sh then None
          else
            (case gw_cache (sh_gateway sh) of
               Some tools \<Rightarrow> Some (t\<lparr>tk_point := Listed (Inr (listed_tools C (task_principal t) tools))\<rparr>, sh)
             | None \<Rightarrow>
                 Some (t\<lparr>tk_point := ListFetching\<rparr>,
                   sh\<lparr>sh_cache_lock := True,
                      sh_gateway := (sh_gateway sh)\<lparr>gw_fetches := Suc (gw_fetches (sh_gateway sh))\<rparr>\<rparr>))
      | (ListAtCache, CancelCacheWait) \<Rightarrow> Some (t\<lparr>tk_point := Listed (Inl Cancelled)\<rparr>, sh)
      | (ListFetching, ToolsArrive fetched) \<Rightarrow>
          (case fetched of
             Inl e \<Rightarrow> Some (t\<lparr>tk_point := Listed (Inl e)\<rparr>, sh\<lparr>sh_cache_lock := False\<rparr>)
           | Inr tools \<Rightarrow>
               Some (t\<lparr>tk_point := Listed (Inr (listed_tools C (task_principal t) tools))\<rparr>,
                 sh\<lparr>sh_cache_lock := False, sh_gateway := (sh_gateway sh)\<lparr>gw_cache := Some tools\<rparr>\<rparr>))
      | _ \<Rightarrow> None)"

fun task_step :: "bridge_config \<Rightarrow> signal \<Rightarrow> task \<Rightarrow> shared \<Rightarrow> (task \<times> shared) option" where
  "task_step C sig t sh =
     (let E = tk_env t; X = task_ctx t in
      case (tk_point t, sig) of
        (Ready, Begin) \<Rightarrow>
          (case current_principal (ce_principal E) of
             Inl e \<Rightarrow> Some (t\<lparr>tk_point := Finished (Inl e)\<rparr>, sh)
           | Inr _ \<Rightarrow> Some (run_seg (seg_begin C E X) (t\<lparr>tk_locals := initial_locals\<lparr>lo_readings := 1\<rparr>\<rparr>) sh))
      | (AtCache tp, TakeLock) \<Rightarrow>
          if sh_cache_lock sh then None
          else
            (case gw_cache (sh_gateway sh) of
               Some tools \<Rightarrow> Some (run_seg (seg_tools C E X tp tools) t sh)
             | None \<Rightarrow>
                 Some (t\<lparr>tk_point := Fetching tp\<rparr>,
                   sh\<lparr>sh_cache_lock := True,
                      sh_gateway := (sh_gateway sh)\<lparr>gw_fetches := Suc (gw_fetches (sh_gateway sh))\<rparr>\<rparr>))
      | (AtCache tp, CancelCacheWait) \<Rightarrow> Some (run_seg (escape_to E X Cancelled) t sh)
      | (Fetching tp, ToolsArrive fetched) \<Rightarrow>
          (case fetched of
             Inl e \<Rightarrow> Some (run_seg (escape_to E X e) t (sh\<lparr>sh_cache_lock := False\<rparr>))
           | Inr tools \<Rightarrow>
               Some (run_seg (seg_tools C E X tp tools) t
                 (sh\<lparr>sh_cache_lock := False, sh_gateway := (sh_gateway sh)\<lparr>gw_cache := Some tools\<rparr>\<rparr>)))
      | (Calling timer, ReplyArrives reply) \<Rightarrow> Some (run_seg (seg_reply E X timer reply) t sh)
      | (AtLog em, TakeLock) \<Rightarrow>
          if sh_log_lock sh then None
          else Some (t\<lparr>tk_point := Writing em\<rparr>, sh\<lparr>sh_log_lock := True\<rparr>)
      | (AtLog em, CancelLogWait) \<Rightarrow>
          Some (run_seg (emission_over E X em (Inl Cancelled) \<circ> count_write) t sh)
      | (Writing em, WriteEnds w) \<Rightarrow>
          (case logger_emit (em_record em) w (gw_audit (sh_gateway sh)) of (res, lg) \<Rightarrow>
             Some (run_seg (emission_over E X em res \<circ> count_write) t
               (sh\<lparr>sh_log_lock := False, sh_gateway := (sh_gateway sh)\<lparr>gw_audit := lg\<rparr>\<rparr>)))
      | _ \<Rightarrow> list_step C sig t sh)"

declare task_step.simps [simp del]

type_synonym loop_state = "task list \<times> shared"

inductive loop_step :: "bridge_config \<Rightarrow> nat \<times> signal \<Rightarrow> loop_state \<Rightarrow> loop_state \<Rightarrow> bool"
  for C :: bridge_config where
  task_runs:
    "i < length ts \<Longrightarrow> task_step C sig (ts ! i) sh = Some (t, sh') \<Longrightarrow>
     loop_step C (i, sig) (ts, sh) (ts[i := t], sh')"

inductive_cases loop_stepE: "loop_step C l (ts, sh) s'"

inductive loop_run :: "bridge_config \<Rightarrow> (nat \<times> signal) list \<Rightarrow> loop_state \<Rightarrow> loop_state \<Rightarrow> bool"
  for C :: bridge_config where
  run_nil: "loop_run C [] s s"
| run_snoc: "loop_run C ls s u \<Longrightarrow> loop_step C l u v \<Longrightarrow> loop_run C (ls @ [l]) s v"

text \<open>
  The start: every request has yet to begin, and no lock is held. The calls are the first tasks, the
  \<open>tools/list\<close> requests the others.
\<close>

definition new_task :: "call_env \<times> call_params \<Rightarrow> task" where
  "new_task c = \<lparr>tk_env = fst c, tk_params = snd c, tk_locals = initial_locals, tk_point = Ready\<rparr>"

definition new_list :: "call_env \<Rightarrow> task" where
  "new_list E =
     \<lparr>tk_env = E, tk_params = \<lparr>cp_name = [], cp_arguments = None\<rparr>, tk_locals = initial_locals,
      tk_point = ListReady\<rparr>"

definition start_loop ::
  "(call_env \<times> call_params) list \<Rightarrow> call_env list \<Rightarrow> gateway_state \<Rightarrow> loop_state" where
  "start_loop calls listers st =
     (map new_task calls @ map new_list listers,
      \<lparr>sh_gateway = fst st, sh_limiter = snd st, sh_cache_lock = False, sh_log_lock = False\<rparr>)"

text \<open>The run on a given list of signals, if each of them finds its task ready for it.\<close>

fun loop_exec :: "bridge_config \<Rightarrow> (nat \<times> signal) list \<Rightarrow> loop_state \<Rightarrow> loop_state option" where
  "loop_exec C [] s = Some s"
| "loop_exec C ((i, sig) # ls) (ts, sh) =
     (if i < length ts then
        (case task_step C sig (ts ! i) sh of
           None \<Rightarrow> None
         | Some (t, sh') \<Rightarrow> loop_exec C ls (ts[i := t], sh'))
      else None)"

end
