(* ===== verification/BridgeLoop.thy ===== *)
theory BridgeLoop
  imports BridgeTasks
begin

text \<open>
  Reasoning about the event loop of BridgeTasks: the steps one by one (\<open>task_step_cases\<close>); the locale
  \<open>segment_law\<close>, which lifts what a task's segments may do from the few places where they end or
  have an effect; the locale \<open>accounted\<close>, in which the tasks account for a quantity of the shared
  state, interpreted for the concurrency slots and for the two locks; and what each step does to the
  gateway's cache, log and list of upstream calls.
\<close>

subsection \<open>The steps, one by one\<close>

lemma task_step_cases:
  assumes "task_step C sig t sh = Some (t', sh')"
  obtains
    (unauthenticated) e where "tk_point t = Ready" "sig = Begin" "ce_principal (tk_env t) = None"
      "t' = t\<lparr>tk_point := Finished (Inl e)\<rparr>" "sh' = sh"
  | (begins) p where "tk_point t = Ready" "sig = Begin" "ce_principal (tk_env t) = Some p"
      "(t', sh') = run_seg (seg_begin C (tk_env t) (task_ctx t))
         (t\<lparr>tk_locals := initial_locals\<lparr>lo_readings := 1\<rparr>\<rparr>) sh"
  | (warm) tp tools where "tk_point t = AtCache tp" "sig = TakeLock" "\<not> sh_cache_lock sh"
      "gw_cache (sh_gateway sh) = Some tools"
      "(t', sh') = run_seg (seg_tools C (tk_env t) (task_ctx t) tp tools) t sh"
  | (cold) tp where "tk_point t = AtCache tp" "sig = TakeLock" "\<not> sh_cache_lock sh"
      "gw_cache (sh_gateway sh) = None" "t' = t\<lparr>tk_point := Fetching tp\<rparr>"
      "sh' = sh\<lparr>sh_cache_lock := True,
         sh_gateway := (sh_gateway sh)\<lparr>gw_fetches := Suc (gw_fetches (sh_gateway sh))\<rparr>\<rparr>"
  | (gave_up) tp where "tk_point t = AtCache tp" "sig = CancelCacheWait"
      "(t', sh') = run_seg (escape_to (tk_env t) (task_ctx t) Cancelled) t sh"
  | (fetch_failed) tp e where "tk_point t = Fetching tp" "sig = ToolsArrive (Inl e)"
      "(t', sh') = run_seg (escape_to (tk_env t) (task_ctx t) e) t (sh\<lparr>sh_cache_lock := False\<rparr>)"
  | (fetched) tp tools where "tk_point t = Fetching tp" "sig = ToolsArrive (Inr tools)"
      "(t', sh') = run_seg (seg_tools C (tk_env t) (task_ctx t) tp tools) t
         (sh\<lparr>sh_cache_lock := False, sh_gateway := (sh_gateway sh)\<lparr>gw_cache := Some tools\<rparr>\<rparr>)"
  | (replied) timer reply where "tk_point t = Calling timer" "sig = ReplyArrives reply"
      "(t', sh') = run_seg (seg_reply (tk_env t) (task_ctx t) timer reply) t sh"
  | (log_taken) em where "tk_point t = AtLog em" "sig = TakeLock" "\<not> sh_log_lock sh"
      "t' = t\<lparr>tk_point := Writing em\<rparr>" "sh' = sh\<lparr>sh_log_lock := True\<rparr>"
  | (log_cancelled) em where "tk_point t = AtLog em" "sig = CancelLogWait"
      "(t', sh') = run_seg (emission_over (tk_env t) (task_ctx t) em (Inl Cancelled) \<circ> count_write) t sh"
  | (written) em w res lg where "tk_point t = Writing em" "sig = WriteEnds w"
      "logger_emit (em_record em) w (gw_audit (sh_gateway sh)) = (res, lg)"
      "(t', sh') = run_seg (emission_over (tk_env t) (task_ctx t) em res \<circ> count_write) t
         (sh\<lparr>sh_log_lock := False, sh_gateway := (sh_gateway sh)\<lparr>gw_audit := lg\<rparr>\<rparr>)"
  | (list_unauthenticated) e where "tk_point t = ListReady" "sig = Begin" "ce_principal (tk_env t) = None"
      "t' = t\<lparr>tk_point := Listed (Inl e)\<rparr>" "sh' = sh"
  | (list_begins) p where "tk_point t = ListReady" "sig = Begin" "ce_principal (tk_env t) = Some p"
      "t' = t\<lparr>tk_point := ListAtCache\<rparr>" "sh' = sh"
  | (list_warm) tools where "tk_point t = ListAtCache" "sig = TakeLock" "\<not> sh_cache_lock sh"
      "gw_cache (sh_gateway sh) = Some tools"
      "t' = t\<lparr>tk_point := Listed (Inr (listed_tools C (task_principal t) tools))\<rparr>" "sh' = sh"
  | (list_cold) "tk_point t = ListAtCache" "sig = TakeLock" "\<not> sh_cache_lock sh"
      "gw_cache (sh_gateway sh) = None" "t' = t\<lparr>tk_point := ListFetching\<rparr>"
      "sh' = sh\<lparr>sh_cache_lock := True,
         sh_gateway := (sh_gateway sh)\<lparr>gw_fetches := Suc (gw_fetches (sh_gateway sh))\<rparr>\<rparr>"
  | (list_gave_up) "tk_point t = ListAtCache" "sig = CancelCacheWait"
      "t' = t\<lparr>tk_point := Listed (Inl Cancelled)\<rparr>" "sh' = sh"
  | (list_failed) e where "tk_point t = ListFetching" "sig = ToolsArrive (Inl e)"
      "t' = t\<lparr>tk_point := Listed (Inl e)\<rparr>" "sh' = sh\<lparr>sh_cache_lock := False\<rparr>"
  | (list_fetched) tools where "tk_point t = ListFetching" "sig = ToolsArrive (Inr tools)"
      "t' = t\<lparr>tk_point := Listed (Inr (listed_tools C (task_principal t) tools))\<rparr>"
      "sh' = sh\<lparr>sh_cache_lock := False, sh_gateway := (sh_gateway sh)\<lparr>gw_cache := Some tools\<rparr>\<rparr>"
proof (cases "tk_point t")
  case Ready
  show ?thesis
  proof (cases "sig = Begin")
    case True
    show ?thesis
    proof (cases "ce_principal (tk_env t)")
      case None
      with Ready True assms show ?thesis
        by (intro unauthenticated) (auto simp: task_step.simps list_step_def current_principal_def)
    next
      case (Some p)
      with Ready True assms show ?thesis
        by (intro begins) (auto simp: task_step.simps list_step_def current_principal_def Let_def)
    qed
  next
    case False
    with Ready assms show ?thesis by (cases sig) (simp_all add: task_step.simps list_step_def)
  qed
next
  case (AtCache tp)
  then show ?thesis
    using assms warm cold gave_up
    by (cases sig) (auto simp: task_step.simps list_step_def split: option.splits if_splits)
next
  case (Fetching tp)
  show ?thesis
  proof (cases sig)
    case (ToolsArrive fetched)
    with Fetching show ?thesis
      using assms fetch_failed fetched by (cases fetched) (auto simp: task_step.simps list_step_def)
  qed (use assms Fetching in \<open>simp_all add: task_step.simps list_step_def\<close>)
next
  case (Calling timer)
  then show ?thesis using assms replied by (cases sig) (auto simp: task_step.simps list_step_def)
next
  case (AtLog em)
  then show ?thesis
    using assms log_taken log_cancelled by (cases sig) (auto simp: task_step.simps list_step_def split: if_splits)
next
  case (Writing em)
  then show ?thesis using assms written
    by (cases sig) (auto simp: task_step.simps list_step_def split: prod.splits)
next
  case (Finished r)
  then show ?thesis using assms by (simp add: task_step.simps list_step_def)
next
  case ListReady
  then have "sig = Begin" using assms by (cases sig) (simp_all add: task_step.simps list_step_def)
  then have r: "tk_point t = ListReady" "sig = Begin" using ListReady by simp_all
  show ?thesis
  proof (cases "ce_principal (tk_env t)")
    case None
    with r assms show ?thesis
      by (intro list_unauthenticated) (auto simp: task_step.simps list_step_def current_principal_def)
  next
    case (Some p)
    with r assms show ?thesis
      by (intro list_begins) (auto simp: task_step.simps list_step_def current_principal_def)
  qed
next
  case ListAtCache
  show ?thesis
  proof (cases sig)
    case TakeLock
    with ListAtCache assms have free: "\<not> sh_cache_lock sh" by (auto simp: task_step.simps list_step_def split: if_splits)
    show ?thesis
    proof (cases "gw_cache (sh_gateway sh)")
      case None
      with ListAtCache TakeLock free assms show ?thesis by (intro list_cold) (auto simp: task_step.simps list_step_def)
    next
      case (Some tools)
      with ListAtCache TakeLock free assms show ?thesis by (intro list_warm) (auto simp: task_step.simps list_step_def)
    qed
  next
    case CancelCacheWait
    with ListAtCache assms show ?thesis by (intro list_gave_up) (auto simp: task_step.simps list_step_def)
  qed (use assms ListAtCache in \<open>simp_all add: task_step.simps list_step_def\<close>)
next
  case ListFetching
  show ?thesis
  proof (cases sig)
    case (ToolsArrive fetched)
    show ?thesis
    proof (cases fetched)
      case (Inl e)
      with ListFetching ToolsArrive assms show ?thesis by (intro list_failed) (auto simp: task_step.simps list_step_def)
    next
      case (Inr tools)
      with ListFetching ToolsArrive assms show ?thesis by (intro list_fetched) (auto simp: task_step.simps list_step_def)
    qed
  qed (use assms ListFetching in \<open>simp_all add: task_step.simps list_step_def\<close>)
next
  case (Listed r)
  then show ?thesis using assms by (simp add: task_step.simps list_step_def)
qed

lemma run_seg_parts [simp]:
  "run_seg seg t sh =
    (let r = seg ((sh_gateway sh, tk_locals t), sh_limiter sh)
     in (t\<lparr>tk_locals := st_lo (snd r), tk_point := fst r\<rparr>,
         sh\<lparr>sh_gateway := st_gw (snd r), sh_limiter := st_cl (snd r)\<rparr>))"
  by (simp add: run_seg_def case_prod_beta Let_def)


subsection \<open>What a segment may do\<close>

text \<open>An emission about the call, whose outcome fits the way the handler ends after it.\<close>

definition emission_ok :: "call_env \<Rightarrow> call_context \<Rightarrow> emission \<Rightarrow> bool" where
  "emission_ok E X em \<longleftrightarrow>
     describes E X (em_record em) \<and> outcome_fits (ar_outcome (em_record em)) (em_after em) \<and>
     (\<forall>m. em_after em \<noteq> Inl (BaseExc m)) \<and> (em_outer em \<longrightarrow> \<not> em_slot em)"

text \<open>
  A law between the state before a segment and the point and state after it, with whether the task
  holds a slot before. It is enough to have it for the places where a segment ends and for its three
  effects: the token, the slot with the upstream call, and leaving the slot.
\<close>

locale segment_law =
  fixes L :: "call_env \<Rightarrow> call_context \<Rightarrow> bool \<Rightarrow> call_state \<Rightarrow> point \<Rightarrow> call_state \<Rightarrow> bool"
  assumes blind: "L E X held u pt s' \<Longrightarrow> st_gw s = st_gw u \<Longrightarrow> st_cl s = st_cl u \<Longrightarrow> L E X held s pt s'"
    and finish: "st_gw s' = st_gw s \<Longrightarrow> st_cl s' = st_cl s \<Longrightarrow> L E X False s (Finished r) s'"
    and wait_cache: "st_gw s' = st_gw s \<Longrightarrow> st_cl s' = st_cl s \<Longrightarrow> L E X False s (AtCache tp) s'"
    and wait_log: "st_gw s' = st_gw s \<Longrightarrow> st_cl s' = st_cl s \<Longrightarrow> emission_ok E X em \<Longrightarrow>
      L E X (em_slot em) s (AtLog em) s'"
    and leave: "L E X False (leave_slot True X s) pt s' \<Longrightarrow> L E X True s pt s'"
    and token: "L E X False (snd (acquire_token E X s)) pt s' \<Longrightarrow> L E X False s pt s'"
    and call: "slot_try_acquire (cx_principal X) (st_cl s) = (True, st_cl s') \<Longrightarrow>
      st_gw s' = (st_gw s)\<lparr>gw_forwarded := gw_forwarded (st_gw s) @ [(cx_tool_name X, cx_arguments X)]\<rparr> \<Longrightarrow>
      L E X False s (Calling t) s'"
begin

abbreviation obeys :: "call_env \<Rightarrow> call_context \<Rightarrow> bool \<Rightarrow> call_state \<Rightarrow> point \<times> call_state \<Rightarrow> bool" where
  "obeys E X held s r \<equiv> L E X held s (fst r) (snd r)"

lemma handled_not_base: "is_exception e \<Longrightarrow> e \<noteq> BaseExc m"
  by auto

lemma obeys_escape: "obeys E X False s (escape_to E X e s)"
  using wait_log [of _ s E X "\<lparr>em_record = r, em_slot = False, em_outer = True, em_after = a\<rparr>" for r a]
  by (auto simp: escape_to_def Let_def count_reading_def count_write_def emission_ok_def outcome_fits_def finish
      handled_not_base split: sum.split)

lemma obeys_over:
  assumes "em_outer em \<longrightarrow> \<not> em_slot em"
  shows "obeys E X (em_slot em) s (emission_over E X em res s)"
proof -
  let ?l = "((st_gw s, if isl res then st_lo s else (st_lo s)\<lparr>lo_audit_emitted := True\<rparr>), st_cl s)"
  let ?s = "leave_slot (em_slot em) X ?l"
  have "obeys E X False ?s (emission_over E X em res s)"
    by (auto simp: emission_over_def Let_def finish obeys_escape split: sum.split)
  then have "obeys E X (em_slot em) ?l (emission_over E X em res s)"
    using leave [of E X ?l] blind [of E X False ?s _ _ ?l]
    by (cases "em_slot em") (simp_all add: leave_slot_def)
  then show ?thesis by (rule blind) simp_all
qed

lemma obeys_start:
  assumes "outcome_fits out after" "\<forall>m. after \<noteq> Inl (BaseExc m)"
  shows "obeys E X slot s (start_emission E X slot after out a c s)"
proof -
  let ?em = "\<lparr>em_record = emit_record E X s out a c, em_slot = slot, em_outer = False, em_after = after\<rparr>"
  show ?thesis
  proof (cases "serialize (al_redaction_mode (gw_audit (st_gw s))) (emit_record E X s out a c)")
    case (Inl e)
    have "obeys E X slot (count_write (count_reading s))
        (emission_over E X ?em (Inl e) (count_write (count_reading s)))"
      using obeys_over [of ?em] by simp
    then have "obeys E X slot s (emission_over E X ?em (Inl e) (count_write (count_reading s)))"
      by (rule blind) (simp_all add: count_reading_def count_write_def)
    then show ?thesis by (simp add: start_emission_def Let_def Inl)
  next
    case (Inr line)
    then show ?thesis
      using wait_log [of "count_reading s" s E X ?em] assms
      by (simp add: start_emission_def Let_def count_reading_def emission_ok_def)
  qed
qed

lemma obeys_answer_from:
  assumes "st_gw s = st_gw r" "st_cl s = st_cl r" "out \<notin> {OutcomeCancelled, InternalError}"
  shows "obeys E X slot s (answer E X slot out a c res r)"
  unfolding answer_def using assms by (intro blind [OF obeys_start]) (simp_all add: outcome_fits_def)

lemma obeys_forward: "obeys E X False s (seg_forward E X s)"
proof (cases "slot_try_acquire (cx_principal X) (st_cl s)")
  case (Pair acquired cl)
  then show ?thesis
  proof (cases acquired)
    case True
    then show ?thesis
      using Pair call [of X s] by (simp add: seg_forward_def Let_def handler_simps count_reading_def)
  next
    case False
    with Pair have "cl = st_cl s" by (auto simp: slot_try_acquire_def Let_def split: if_splits)
    with Pair False show ?thesis
      by (simp add: seg_forward_def handler_simps obeys_answer_from)
  qed
qed

lemma obeys_arguments: "obeys E X False s (seg_arguments C E X tp t s)"
  by (auto simp: seg_arguments_def Let_def handler_simps stop_policy_timer_def obeys_answer_from
      intro: blind [OF obeys_forward] split: option.split)

lemma obeys_deny: "obeys E X False s (seg_deny E X s)"
  by (simp add: seg_deny_def handler_simps obeys_answer_from)

lemma obeys_tools: "obeys E X False s (seg_tools C E X tp tools s)"
  by (auto simp: seg_tools_def Let_def handler_simps stop_policy_timer_def count_reading_def
      obeys_answer_from obeys_deny intro: blind [OF obeys_arguments] blind [OF obeys_escape]
      split: option.split sum.split)

lemma obeys_begin: "obeys E X False s (seg_begin C E X s)"
proof -
  let ?s = "snd (acquire_token E X s)"
  have "obeys E X False ?s (seg_begin C E X s)"
    by (cases "acquire_token E X s"; cases "fst (acquire_token E X s)")
      (auto simp: seg_begin_def Let_def handler_simps obeys_answer_from obeys_escape
        intro: blind [OF obeys_deny] wait_cache split: option.split)
  then show ?thesis by (rule token)
qed

lemma obeys_reply: "obeys E X True s (seg_reply E X t reply s)"
  by (auto simp: seg_reply_def Let_def handler_simps stop_upstream_timer_def obeys_answer_from
      outcome_fits_def intro: blind [OF obeys_start] leave [OF obeys_escape] split: sum.split exn.split)

end


subsection \<open>Points and tasks\<close>

fun slot_point :: "point \<Rightarrow> bool" where
  "slot_point (Calling _) = True"
| "slot_point (AtLog em) = em_slot em"
| "slot_point (Writing em) = em_slot em"
| "slot_point _ = False"

fun fetch_point :: "point \<Rightarrow> bool" where
  "fetch_point (Fetching _) = True"
| "fetch_point ListFetching = True"
| "fetch_point _ = False"

fun write_point :: "point \<Rightarrow> bool" where
  "write_point (Writing _) = True"
| "write_point _ = False"

fun call_point :: "point \<Rightarrow> bool" where
  "call_point (Calling _) = True"
| "call_point _ = False"

fun emission_of :: "point \<Rightarrow> emission option" where
  "emission_of (AtLog em) = Some em"
| "emission_of (Writing em) = Some em"
| "emission_of _ = None"

text \<open>The points of a \<open>tools/list\<close>, and those at which a task has yet to begin or is done.\<close>

fun list_point :: "point \<Rightarrow> bool" where
  "list_point ListReady = True"
| "list_point ListAtCache = True"
| "list_point ListFetching = True"
| "list_point (Listed _) = True"
| "list_point _ = False"

fun end_point :: "point \<Rightarrow> bool" where
  "end_point Ready = True"
| "end_point (Finished _) = True"
| "end_point ListReady = True"
| "end_point (Listed _) = True"
| "end_point _ = False"

text \<open>What every task satisfies: the emission under way is about its own call.\<close>

definition task_ok :: "task \<Rightarrow> bool" where
  "task_ok t =
     ((case emission_of (tk_point t) of
         None \<Rightarrow> True
       | Some em \<Rightarrow> emission_ok (tk_env t) (task_ctx t) em) \<and>
      (ce_principal (tk_env t) = None \<longrightarrow> end_point (tk_point t)))"

text \<open>A segment changes nothing of the gateway but the buckets and the list of upstream calls.\<close>

definition seg_facts :: "call_env \<Rightarrow> call_context \<Rightarrow> bool \<Rightarrow> call_state \<Rightarrow> point \<Rightarrow> call_state \<Rightarrow> bool" where
  "seg_facts E X held s pt s' =
     (gw_audit (st_gw s') = gw_audit (st_gw s) \<and> gw_cache (st_gw s') = gw_cache (st_gw s) \<and>
      gw_fetches (st_gw s') = gw_fetches (st_gw s) \<and>
      gw_forwarded (st_gw s') = gw_forwarded (st_gw s) @
        (if call_point pt then [(cx_tool_name X, cx_arguments X)] else []) \<and>
      \<not> fetch_point pt \<and> \<not> write_point pt \<and> \<not> list_point pt \<and> pt \<noteq> Ready \<and>
      (\<forall>em. emission_of pt = Some em \<longrightarrow> emission_ok E X em))"

interpretation facts: segment_law seg_facts
  by unfold_locales (auto simp: seg_facts_def leave_slot_def acquire_token_def case_prod_beta)

definition slot_law :: "call_env \<Rightarrow> call_context \<Rightarrow> bool \<Rightarrow> call_state \<Rightarrow> point \<Rightarrow> call_state \<Rightarrow> bool" where
  "slot_law E X held s pt s' =
     (limiter_inv (st_cl s) \<and> (held \<longrightarrow> 1 \<le> active_count (st_cl s) (cx_principal X)) \<longrightarrow>
        limiter_inv (st_cl s') \<and> cl_max_concurrent (st_cl s') = cl_max_concurrent (st_cl s) \<and>
        (\<forall>q. active_count (st_cl s') q + of_bool (held \<and> q = cx_principal X) =
             active_count (st_cl s) q + of_bool (slot_point pt \<and> q = cx_principal X)))"

interpretation slot_balance: segment_law slot_law
proof unfold_locales
  fix E and X :: call_context and s pt s' assume "slot_law E X False (leave_slot True X s) pt s'"
  then show "slot_law E X True s pt s'"
    using limiter_inv_step [of "st_cl s" "Release (cx_principal X)"]
    by (auto simp: slot_law_def leave_slot_def slot_release_active)
next
  fix E and X :: call_context and s s' :: call_state and t
  let ?p = "cx_principal X"
  assume "slot_try_acquire ?p (st_cl s) = (True, st_cl s')"
  then have "fst (slot_try_acquire ?p (st_cl s))" "st_cl s' = snd (slot_try_acquire ?p (st_cl s))" by simp_all
  then show "slot_law E X False s (Calling t) s'"
    using limiter_inv_step [of "st_cl s" "Acquire ?p"] slot_try_acquire_active [of ?p "st_cl s"]
    by (simp add: slot_law_def slot_try_acquire_granted)
qed (auto simp: slot_law_def acquire_token_def case_prod_beta)


lemmas seg_factsD =
  facts.obeys_escape facts.obeys_begin facts.obeys_tools facts.obeys_reply facts.obeys_over

lemma task_ctx_simps [simp]:
  "task_ctx (t\<lparr>tk_point := pt\<rparr>) = task_ctx t" "task_ctx (t\<lparr>tk_locals := l\<rparr>) = task_ctx t"
  "task_principal (t\<lparr>tk_point := pt\<rparr>) = task_principal t"
  "task_principal (t\<lparr>tk_locals := l\<rparr>) = task_principal t"
  "cx_principal (task_ctx t) = task_principal t" "cx_tool_name (task_ctx t) = cp_name (tk_params t)"
  "cx_arguments (task_ctx t) = call_arguments (tk_params t)"
  by (simp_all add: task_ctx_def task_principal_def)

lemma step_same_call:
  assumes "task_step C sig t sh = Some (t', sh')"
  shows "tk_env t' = tk_env t \<and> tk_params t' = tk_params t \<and> task_ctx t' = task_ctx t \<and>
    task_principal t' = task_principal t"
  using assms by (cases rule: task_step_cases) (simp_all add: Let_def)

text \<open>Where a step leads: through a segment, or to a lock just taken.\<close>

lemma task_okI:
  assumes "seg_facts (tk_env t) (task_ctx t) held s pt s'" "ce_principal (tk_env t) \<noteq> None"
  shows "task_ok (t\<lparr>tk_locals := l, tk_point := pt\<rparr>)"
  using assms by (auto simp: task_ok_def seg_facts_def split: option.split)

lemmas seg_task_ok =
  task_okI [OF facts.obeys_begin] task_okI [OF facts.obeys_tools] task_okI [OF facts.obeys_escape]
  task_okI [OF facts.obeys_reply] task_okI [OF facts.obeys_over]

lemma task_okD:
  "task_ok t \<Longrightarrow> \<not> end_point (tk_point t) \<Longrightarrow> ce_principal (tk_env t) \<noteq> None"
  "task_ok t \<Longrightarrow> emission_of (tk_point t) = Some em \<Longrightarrow> em_outer em \<longrightarrow> \<not> em_slot em"
  "task_ok t \<Longrightarrow> emission_of (tk_point t) = Some em \<Longrightarrow> emission_ok (tk_env t) (task_ctx t) em"
  unfolding task_ok_def emission_ok_def by (auto split: option.splits)

lemma step_ok:
  assumes "task_step C sig t sh = Some (t', sh')" "task_ok t"
  shows "task_ok t'"
proof -
  have auth: "\<not> end_point (tk_point t) \<Longrightarrow> ce_principal (tk_env t) \<noteq> None"
    by (rule task_okD(1) [OF assms(2)])
  show ?thesis
    using assms(1)
  proof (cases rule: task_step_cases)
    case (begins p)
    then show ?thesis using seg_task_ok(1) [of t] by (simp add: Let_def)
  next
    case (unauthenticated e)
    then show ?thesis by (simp add: task_ok_def)
  next
    case (cold tp)
    then show ?thesis using auth by (simp add: task_ok_def)
  next
    case (log_taken em)
    then show ?thesis using assms(2) by (simp add: task_ok_def)
  next
    case (log_cancelled em)
    then show ?thesis using seg_task_ok(5) [of em t] task_okD(2) [OF assms(2)] auth by (simp add: Let_def)
  next
    case (written em w res lg)
    then show ?thesis using seg_task_ok(5) [of em t] task_okD(2) [OF assms(2)] auth by (simp add: Let_def)
  qed (use auth seg_task_ok(2-4) in \<open>simp_all add: Let_def task_ok_def [of "t\<lparr>tk_point := p\<rparr>" for p]\<close>)
qed

text \<open>A call stays a call, a \<open>tools/list\<close> stays one.\<close>

lemma seg_not_list: "seg_facts E X held s pt s' \<Longrightarrow> \<not> list_point pt"
  by (simp add: seg_facts_def)

lemmas seg_no_list = seg_factsD [THEN seg_not_list]

lemma step_kind:
  assumes "task_step C sig t sh = Some (t', sh')" "task_ok t"
  shows "list_point (tk_point t') \<longleftrightarrow> list_point (tk_point t)"
  using assms(1)
  by (cases rule: task_step_cases) (use task_okD(2) [OF assms(2)] seg_no_list in \<open>simp_all add: Let_def\<close>)


subsection \<open>Accounts\<close>

lemma sum_list_update_int:
  fixes f :: "'a \<Rightarrow> int"
  shows "i < length xs \<Longrightarrow> sum_list (map f (xs[i := y])) = sum_list (map f xs) - f (xs ! i) + f y"
  by (induction xs arbitrary: i) (auto split: nat.split)

lemma length_filter_update:
  "i < length xs \<Longrightarrow>
    length (filter P (xs[i := y])) + of_bool (P (xs ! i)) = length (filter P xs) + of_bool (P y)"
proof -
  assume i: "i < length xs"
  have "filter P xs = filter P (take i xs @ xs ! i # drop (Suc i) xs)" using i by (simp only: id_take_nth_drop [symmetric])
  then show ?thesis using i by (simp add: upd_conv_take_nth_drop)
qed

text \<open>
  Quantities of the shared state that the tasks account for: each task contributes its weight, and a
  step changes a quantity by what it changes of the stepping task's weight.
\<close>

locale accounted =
  fixes C :: bridge_config and weight :: "'k \<Rightarrow> task \<Rightarrow> int" and quantity :: "'k \<Rightarrow> shared \<Rightarrow> int"
    and good :: "shared \<Rightarrow> bool"
  assumes weight_nonneg: "0 \<le> weight k t"
    and account_step: "good sh \<Longrightarrow> task_ok t \<Longrightarrow> (\<And>j. weight j t \<le> quantity j sh) \<Longrightarrow>
      task_step C sig t sh = Some (t', sh') \<Longrightarrow>
      good sh' \<and> quantity k sh' = quantity k sh + weight k t' - weight k t"
begin

abbreviation total :: "'k \<Rightarrow> task list \<Rightarrow> int" where
  "total k ts \<equiv> sum_list (map (weight k) ts)"

lemma total_nonneg: "0 \<le> total k ts"
  by (intro sum_list_nonneg) (auto simp: weight_nonneg)

lemma weight_le_total: "t \<in> set ts \<Longrightarrow> weight k t \<le> total k ts"
  by (induction ts) (auto simp: total_nonneg weight_nonneg add_increasing)

definition balanced :: "loop_state \<Rightarrow> bool" where
  "balanced s \<longleftrightarrow> good (snd s) \<and> list_all task_ok (fst s) \<and> (\<forall>k. quantity k (snd s) = total k (fst s))"

lemma balanced_step:
  assumes "loop_step C l s s'" "balanced s"
  shows "balanced s'"
  using assms(1)
proof (cases rule: loop_step.cases)
  case (task_runs i ts sig sh t sh')
  then have ok: "task_ok (ts ! i)" and le: "weight k (ts ! i) \<le> quantity k sh" for k
    using assms(2) weight_le_total [of "ts ! i" ts k] by (simp_all add: balanced_def list_all_length)
  from account_step [OF _ ok le task_runs(5)] step_ok [OF task_runs(5) ok] show ?thesis
    using task_runs assms(2)
    by (auto simp: balanced_def sum_list_update_int list_all_iff dest!: set_update_subset_insert [THEN subsetD])
qed

lemma balanced_run: "loop_run C ls s s' \<Longrightarrow> balanced s \<Longrightarrow> balanced s'"
  by (induction rule: loop_run.induct) (auto intro: balanced_step)

lemma balanced_start:
  assumes "good (snd (start_loop calls listers st))" "\<And>k. quantity k (snd (start_loop calls listers st)) = 0"
    and "\<And>k c. weight k (new_task c) = 0" "\<And>k E. weight k (new_list E) = 0"
  shows "balanced (start_loop calls listers st)"
proof -
  have "total k (map new_task calls) = 0" for k by (induction calls) (simp_all add: assms(3))
  moreover have "total k (map new_list listers) = 0" for k by (induction listers) (simp_all add: assms(4))
  ultimately have "total k (map new_task calls @ map new_list listers) = 0" for k by simp
  then show ?thesis
    using assms by (auto simp: balanced_def start_loop_def list_all_iff task_ok_def new_task_def new_list_def)
qed

end

definition slot_weight :: "string \<Rightarrow> task \<Rightarrow> int" where
  "slot_weight p t = of_bool (slot_point (tk_point t) \<and> task_principal t = p)"

definition limiter_of :: "int \<Rightarrow> shared \<Rightarrow> bool" where
  "limiter_of m sh \<longleftrightarrow> limiter_inv (sh_limiter sh) \<and> cl_max_concurrent (sh_limiter sh) = m"

lemma slot_lawD:
  assumes "slot_law E X held s pt s'" "limiter_inv (st_cl s)"
    "held \<longrightarrow> 1 \<le> active_count (st_cl s) (cx_principal X)"
  shows "limiter_inv (st_cl s') \<and> cl_max_concurrent (st_cl s') = cl_max_concurrent (st_cl s) \<and>
    active_count (st_cl s') q = active_count (st_cl s) q + of_bool (slot_point pt \<and> cx_principal X = q)
      - of_bool (held \<and> cx_principal X = q)"
  using assms unfolding slot_law_def by (cases "q = cx_principal X") (auto dest: spec [of _ q])

lemmas slot_seg =
  slot_lawD [OF slot_balance.obeys_begin] slot_lawD [OF slot_balance.obeys_tools]
  slot_lawD [OF slot_balance.obeys_escape] slot_lawD [OF slot_balance.obeys_reply]
  slot_lawD [OF slot_balance.obeys_over]

interpretation slot_account:
  accounted C slot_weight "\<lambda>p sh. active_count (sh_limiter sh) p" "limiter_of m"
proof unfold_locales
  fix p t show "0 \<le> slot_weight p t" by (simp add: slot_weight_def)
next
  fix p sh t sig t' sh'
  assume good: "limiter_of m sh" and ok: "task_ok t"
    and le: "\<And>q. slot_weight q t \<le> active_count (sh_limiter sh) q"
    and step: "task_step C sig t sh = Some (t', sh')"
  have held: "1 \<le> active_count (sh_limiter sh) (task_principal t)" if "slot_point (tk_point t)"
    using le [of "task_principal t"] that by (simp add: slot_weight_def)
  have outer: "em_outer em \<longrightarrow> \<not> em_slot em" if "emission_of (tk_point t) = Some em" for em
    using task_okD(2) [OF ok that] .
  show "limiter_of m sh' \<and>
      active_count (sh_limiter sh') p = active_count (sh_limiter sh) p + slot_weight p t' - slot_weight p t"
    using step
    by (cases rule: task_step_cases)
      (use good held outer slot_seg [where q = p] in \<open>simp_all add: Let_def limiter_of_def slot_weight_def count_write_def\<close>)
qed


text \<open>The two locks: taken exactly while a task is in the section that the lock guards.\<close>

definition fetch_weight :: "unit \<Rightarrow> task \<Rightarrow> int" where
  "fetch_weight u t = of_bool (fetch_point (tk_point t))"

definition write_weight :: "unit \<Rightarrow> task \<Rightarrow> int" where
  "write_weight u t = of_bool (write_point (tk_point t))"

lemma seg_not_in_section:
  assumes "seg_facts E X held s pt s'"
  shows "\<not> fetch_point pt" "\<not> write_point pt"
  using assms by (simp_all add: seg_facts_def)

lemmas seg_sections = seg_factsD [THEN seg_not_in_section(1)] seg_factsD [THEN seg_not_in_section(2)]

interpretation cache_lock:
  accounted C fetch_weight "\<lambda>_ sh. of_bool (sh_cache_lock sh)" "\<lambda>_. True"
proof unfold_locales
  fix u t show "0 \<le> fetch_weight u t" by (simp add: fetch_weight_def)
next
  fix u sh t sig t' sh'
  assume ok: "task_ok t" and le: "\<And>v. fetch_weight v t \<le> of_bool (sh_cache_lock sh)"
    and step: "task_step C sig t sh = Some (t', sh')"
  have held: "fetch_point (tk_point t) \<Longrightarrow> sh_cache_lock sh"
    using le [of u] by (cases "sh_cache_lock sh") (simp_all add: fetch_weight_def)
  show "True \<and> of_bool (sh_cache_lock sh') =
      (of_bool (sh_cache_lock sh) + fetch_weight u t' - fetch_weight u t :: int)"
    using step
    by (cases rule: task_step_cases)
      (use held task_okD(2) [OF ok] seg_sections in \<open>simp_all add: Let_def fetch_weight_def\<close>)
qed

interpretation log_lock:
  accounted C write_weight "\<lambda>_ sh. of_bool (sh_log_lock sh)" "\<lambda>_. True"
proof unfold_locales
  fix u t show "0 \<le> write_weight u t" by (simp add: write_weight_def)
next
  fix u sh t sig t' sh'
  assume ok: "task_ok t" and le: "\<And>v. write_weight v t \<le> of_bool (sh_log_lock sh)"
    and step: "task_step C sig t sh = Some (t', sh')"
  have held: "write_point (tk_point t) \<Longrightarrow> sh_log_lock sh"
    using le [of u] by (cases "sh_log_lock sh") (simp_all add: write_weight_def)
  show "True \<and> of_bool (sh_log_lock sh') =
      (of_bool (sh_log_lock sh) + write_weight u t' - write_weight u t :: int)"
    using step
    by (cases rule: task_step_cases)
      (use held task_okD(2) [OF ok] seg_sections in \<open>simp_all add: Let_def write_weight_def\<close>)
qed

lemma of_bool_eq_int: "of_bool b = int n \<longleftrightarrow> n = of_bool b"
  by (cases b) auto

lemma total_sections:
  "sum_list (map (fetch_weight u) ts) = int (length (filter (\<lambda>t. fetch_point (tk_point t)) ts))"
  "sum_list (map (write_weight u) ts) = int (length (filter (\<lambda>t. write_point (tk_point t)) ts))"
  by (induction ts) (simp_all add: fetch_weight_def write_weight_def)

lemma start_weights [simp]:
  "slot_weight p (new_task c) = 0" "fetch_weight u (new_task c) = 0" "write_weight u (new_task c) = 0"
  "slot_weight p (new_list E) = 0" "fetch_weight u (new_list E) = 0" "write_weight u (new_list E) = 0"
  by (simp_all add: new_task_def new_list_def slot_weight_def fetch_weight_def write_weight_def)

definition calls_in_flight :: "string \<Rightarrow> task list \<Rightarrow> nat" where
  "calls_in_flight p ts = length (filter (\<lambda>t. call_point (tk_point t) \<and> task_principal t = p) ts)"

lemma calls_le_slots: "int (calls_in_flight p ts) \<le> sum_list (map (slot_weight p) ts)"
proof -
  have "call_point pt \<Longrightarrow> slot_point pt" for pt by (cases pt) simp_all
  then show ?thesis
    unfolding calls_in_flight_def by (induction ts) (auto simp: slot_weight_def)
qed

lemma slots_run:
  assumes "loop_run C ls (start_loop calls listers (g, cl)) (ts, sh)" "limiter_inv cl"
    and "\<And>q. active_count cl q = 0"
  shows "limiter_inv (sh_limiter sh) \<and> cl_max_concurrent (sh_limiter sh) = cl_max_concurrent cl \<and>
    active_count (sh_limiter sh) p = sum_list (map (slot_weight p) ts)"
proof -
  have "slot_account.balanced (cl_max_concurrent cl) (start_loop calls listers (g, cl))"
    using assms(2,3) by (intro slot_account.balanced_start) (simp_all add: start_loop_def limiter_of_def)
  from slot_account.balanced_run [OF assms(1) this] show ?thesis
    by (simp add: slot_account.balanced_def limiter_of_def)
qed

lemma locks_run:
  assumes "loop_run C ls (start_loop calls listers st) (ts, sh)"
  shows "length (filter (\<lambda>t. fetch_point (tk_point t)) ts) = of_bool (sh_cache_lock sh)"
    and "length (filter (\<lambda>t. write_point (tk_point t)) ts) = of_bool (sh_log_lock sh)"
proof -
  have "cache_lock.balanced (start_loop calls listers st)" "log_lock.balanced (start_loop calls listers st)"
    by (intro cache_lock.balanced_start log_lock.balanced_start; simp add: start_loop_def)+
  from cache_lock.balanced_run [OF assms this(1)] log_lock.balanced_run [OF assms this(2)]
  show "length (filter (\<lambda>t. fetch_point (tk_point t)) ts) = of_bool (sh_cache_lock sh)"
    and "length (filter (\<lambda>t. write_point (tk_point t)) ts) = of_bool (sh_log_lock sh)"
    by (simp_all add: cache_lock.balanced_def log_lock.balanced_def total_sections of_bool_eq_int)
qed


subsection \<open>What a step does to the gateway\<close>

definition tools_of :: "signal \<Rightarrow> tool list option" where
  "tools_of sig = (case sig of ToolsArrive (Inr tools) \<Rightarrow> Some tools | _ \<Rightarrow> None)"

definition failed_fetch :: "signal \<Rightarrow> bool" where
  "failed_fetch sig = (case sig of ToolsArrive (Inl _) \<Rightarrow> True | _ \<Rightarrow> False)"

lemma seg_gateway:
  assumes "seg_facts E X held s pt s'"
  shows "gw_cache (st_gw s') = gw_cache (st_gw s)" "gw_fetches (st_gw s') = gw_fetches (st_gw s)"
    "gw_audit (st_gw s') = gw_audit (st_gw s)"
    "gw_forwarded (st_gw s') = gw_forwarded (st_gw s) @
       (if call_point pt then [(cx_tool_name X, cx_arguments X)] else [])"
  using assms by (simp_all add: seg_facts_def)

lemmas seg_gateways =
  facts.obeys_escape [THEN seg_gateway(1)] facts.obeys_escape [THEN seg_gateway(2)]
  facts.obeys_escape [THEN seg_gateway(3)] facts.obeys_escape [THEN seg_gateway(4)]
  facts.obeys_begin [THEN seg_gateway(1)] facts.obeys_begin [THEN seg_gateway(2)]
  facts.obeys_begin [THEN seg_gateway(3)] facts.obeys_begin [THEN seg_gateway(4)]
  facts.obeys_tools [THEN seg_gateway(1)] facts.obeys_tools [THEN seg_gateway(2)]
  facts.obeys_tools [THEN seg_gateway(3)] facts.obeys_tools [THEN seg_gateway(4)]
  facts.obeys_reply [THEN seg_gateway(1)] facts.obeys_reply [THEN seg_gateway(2)]
  facts.obeys_reply [THEN seg_gateway(3)] facts.obeys_reply [THEN seg_gateway(4)]
  facts.obeys_over [THEN seg_gateway(1)] facts.obeys_over [THEN seg_gateway(2)]
  facts.obeys_over [THEN seg_gateway(3)] facts.obeys_over [THEN seg_gateway(4)]

lemma step_gateway:
  assumes "task_step C sig t sh = Some (t', sh')" "task_ok t"
  shows "gw_cache (sh_gateway sh') =
      (case tools_of sig of Some tools \<Rightarrow> Some tools | None \<Rightarrow> gw_cache (sh_gateway sh))"
    and "gw_fetches (sh_gateway sh') = gw_fetches (sh_gateway sh) + of_bool (fetch_point (tk_point t'))"
    and "gw_forwarded (sh_gateway sh') = gw_forwarded (sh_gateway sh) @
      (if call_point (tk_point t') then [(cp_name (tk_params t), call_arguments (tk_params t))] else [])"
    and "gw_audit (sh_gateway sh') =
      (case (tk_point t, sig) of
         (Writing em, WriteEnds w) \<Rightarrow> snd (logger_emit (em_record em) w (gw_audit (sh_gateway sh)))
       | _ \<Rightarrow> gw_audit (sh_gateway sh))"
proof -
  note outer = task_okD(2) [OF assms(2)]
  note facts = outer seg_gateways seg_sections count_write_def
  show "gw_cache (sh_gateway sh') =
      (case tools_of sig of Some tools \<Rightarrow> Some tools | None \<Rightarrow> gw_cache (sh_gateway sh))"
    using assms(1) by (cases rule: task_step_cases) (use facts in \<open>simp_all add: Let_def tools_of_def\<close>)
  show "gw_fetches (sh_gateway sh') = gw_fetches (sh_gateway sh) + of_bool (fetch_point (tk_point t'))"
    using assms(1) by (cases rule: task_step_cases) (use facts in \<open>simp_all add: Let_def\<close>)
  show "gw_forwarded (sh_gateway sh') = gw_forwarded (sh_gateway sh) @
      (if call_point (tk_point t') then [(cp_name (tk_params t), call_arguments (tk_params t))] else [])"
    using assms(1) by (cases rule: task_step_cases) (use facts in \<open>simp_all add: Let_def\<close>)
  show "gw_audit (sh_gateway sh') =
      (case (tk_point t, sig) of
         (Writing em, WriteEnds w) \<Rightarrow> snd (logger_emit (em_record em) w (gw_audit (sh_gateway sh)))
       | _ \<Rightarrow> gw_audit (sh_gateway sh))"
    using assms(1) by (cases rule: task_step_cases) (use facts in \<open>simp_all add: Let_def\<close>)
qed

end
