(* ===== verification/LoopProperties.thy ===== *)
theory LoopProperties
  imports BridgeLoop
begin

text \<open>
  What holds of the gateway under every interleaving of its requests, from the accounts of BridgeLoop:
  the ceiling on upstream calls, the shared fetch of the tool list, mediation, the one tool list that
  all answers and calls are based on, the audit trail, and that the loop neither runs for ever nor gets
  stuck.
\<close>

fun task_finished :: "task \<Rightarrow> bool" where
  "task_finished t = (case tk_point t of Finished _ \<Rightarrow> True | Listed _ \<Rightarrow> True | _ \<Rightarrow> False)"

subsection \<open>A concrete run\<close>

lemma loop_run_cons: "loop_run C ls u v \<Longrightarrow> loop_step C l s u \<Longrightarrow> loop_run C (l # ls) s v"
proof (induction rule: loop_run.induct)
  case (run_nil u)
  then show ?case using loop_run.run_snoc [OF loop_run.run_nil] by fastforce
next
  case (run_snoc ls u w l' v)
  then show ?case using loop_run.run_snoc [of C "l # ls"] by fastforce
qed

lemma loop_exec_run: "loop_exec C ls s = Some s' \<Longrightarrow> loop_run C ls s s'"
proof (induction C ls s rule: loop_exec.induct)
  case (1 C s)
  then show ?case by (auto intro: loop_run.run_nil)
next
  case (2 C i sig ls ts sh)
  from 2(2) obtain t sh' where step: "i < length ts" "task_step C sig (ts ! i) sh = Some (t, sh')"
    and rest: "loop_exec C ls (ts[i := t], sh') = Some s'" by (auto split: if_splits option.splits)
  from 2(1) [OF step refl rest] loop_step.task_runs [OF step] show ?case by (rule loop_run_cons)
qed

text \<open>
  Two calls and a \<open>tools/list\<close> at once: the first call fetches the tool list for all three, the second
  times out.
\<close>

definition demo_task_env :: "string \<Rightarrow> call_env" where
  "demo_task_env c = demo_call_env\<lparr>ce_correlation_id := c, ce_monotonic := (\<lambda>_. Fin 0)\<rparr>"

definition demo_calls :: "(call_env \<times> call_params) list" where
  "demo_calls = [(demo_task_env ''c1'', demo_params), (demo_task_env ''c2'', demo_params)]"

definition demo_signals :: "(nat \<times> signal) list" where
  "demo_signals =
     [(0, Begin), (1, Begin), (2, Begin), (0, TakeLock),
      (0, ToolsArrive (Inr [\<lparr>tl_name = ''echo'', tl_input_schema = None, tl_rest = []\<rparr>])),
      (2, TakeLock), (1, TakeLock), (1, ReplyArrives (Inl (TimeoutErr ''late''))), (0, ReplyArrives (Inr (error_result ''hi''))),
      (0, TakeLock), (0, WriteEnds Written), (1, TakeLock), (1, WriteEnds Written)]"

definition demo_start :: loop_state where
  "demo_start = start_loop demo_calls [demo_task_env ''c3''] (demo_gateway, demo_limiter)"

definition demo_end :: loop_state where
  "demo_end = (case loop_exec demo_bridge demo_signals demo_start of None \<Rightarrow> demo_start | Some s \<Rightarrow> s)"

definition answered :: "task \<Rightarrow> bool" where
  "answered t = (case tk_point t of Finished (Inr _) \<Rightarrow> True | _ \<Rightarrow> False)"

definition shown_tools :: "task \<Rightarrow> string list option" where
  "shown_tools t = (case tk_point t of Listed (Inr tools) \<Rightarrow> Some (map tl_name tools) | _ \<Rightarrow> None)"

lemma answered_iff: "answered t \<longleftrightarrow> (\<exists>r. tk_point t = Finished (Inr r))"
  by (auto simp: answered_def split: point.splits sum.splits)

lemma shown_tools_Some: "shown_tools t = Some names \<Longrightarrow> \<exists>tools. tk_point t = Listed (Inr tools) \<and> map tl_name tools = names"
  by (auto simp: shown_tools_def split: point.splits sum.splits)

text \<open>How it ends, evaluated once.\<close>

lemma demo_facts:
  "loop_exec demo_bridge demo_signals demo_start \<noteq> None"
  "length (fst demo_end) = 3" "list_all task_finished (fst demo_end)"
  "\<And>i. i < 2 \<Longrightarrow> \<exists>r. tk_point (fst demo_end ! i) = Finished (Inr r)"
  "\<And>i. i < 3 \<Longrightarrow> ce_principal (tk_env (fst demo_end ! i)) = Some ''analyst''"
  "\<exists>tools. tk_point (fst demo_end ! 2) = Listed (Inr tools) \<and> map tl_name tools = [''echo'']"
  "gw_forwarded (sh_gateway (snd demo_end)) \<noteq> []"
proof -
  have eval: "case loop_exec demo_bridge demo_signals demo_start of None \<Rightarrow> False
    | Some (ts, sh) \<Rightarrow>
        length ts = 3 \<and> list_all task_finished ts \<and>
        list_all answered (take 2 ts) \<and>
        list_all (\<lambda>t. ce_principal (tk_env t) = Some ''analyst'') ts \<and>
        shown_tools (ts ! 2) = Some [''echo''] \<and>
        gw_forwarded (sh_gateway sh) \<noteq> []"
    by code_simp
  then obtain s where s: "loop_exec demo_bridge demo_signals demo_start = Some s" "demo_end = s"
    by (auto simp: demo_end_def split: option.splits)
  note facts = eval [unfolded s(1) option.case prod.case_eq_if, folded s(2)]
  show "loop_exec demo_bridge demo_signals demo_start \<noteq> None" using s(1) by simp
  show "length (fst demo_end) = 3" "list_all task_finished (fst demo_end)" "gw_forwarded (sh_gateway (snd demo_end)) \<noteq> []"
    using facts by simp_all
  show "\<exists>tools. tk_point (fst demo_end ! 2) = Listed (Inr tools) \<and> map tl_name tools = [''echo'']"
    using facts shown_tools_Some by blast
  show "\<exists>r. tk_point (fst demo_end ! i) = Finished (Inr r)" if "i < 2" for i
    using facts that by (simp add: list_all_length answered_iff)
  show "ce_principal (tk_env (fst demo_end ! i)) = Some ''analyst''" if "i < 3" for i
    using facts that by (simp add: list_all_length)
qed

lemma demo_run:
  "loop_run demo_bridge demo_signals (start_loop demo_calls [demo_task_env ''c3''] (demo_gateway, demo_limiter))
    (fst demo_end, snd demo_end)"
  using demo_facts(1) by (intro loop_exec_run) (auto simp: demo_end_def demo_start_def)

lemma demo_limiter_made: "make_concurrency_limiter 2 = Inr demo_limiter"
  by (simp add: make_concurrency_limiter_def demo_limiter_def)

lemma demo_cold: "gw_cache demo_gateway = None"
  by (simp add: demo_gateway_def)

subsection \<open>The loop comes to an end\<close>

text \<open>How many steps a task may still take.\<close>

fun point_rank :: "point \<Rightarrow> nat" where
  "point_rank Ready = 8"
| "point_rank (AtCache _) = 7"
| "point_rank (Fetching _) = 6"
| "point_rank (Calling _) = 5"
| "point_rank (AtLog em) = (if em_outer em then 2 else 4)"
| "point_rank (Writing em) = (if em_outer em then 1 else 3)"
| "point_rank (Finished _) = 0"
| "point_rank ListReady = 3"
| "point_rank ListAtCache = 2"
| "point_rank ListFetching = 1"
| "point_rank (Listed _) = 0"

lemma rank_escape: "point_rank (fst (escape_to E X e s)) \<le> 2"
  by (simp add: escape_to_def Let_def split: sum.split)

lemma rank_over: "point_rank (fst (emission_over E X em res s)) \<le> (if em_outer em then 0 else 2)"
  by (simp add: emission_over_def Let_def rank_escape split: sum.split)

lemma rank_over_outer: "em_outer em \<Longrightarrow> point_rank (fst (emission_over E X em res s)) = 0"
  using rank_over [of E X em res s] by simp

lemma rank_start: "point_rank (fst (start_emission E X slot after out a c s)) \<le> 4"
  by (auto simp: start_emission_def Let_def intro: order_trans [OF rank_over] split: sum.split)

lemma rank_answer: "point_rank (fst (answer E X slot out a c res s)) \<le> 4"
  unfolding answer_def by (rule rank_start)

lemma rank_forward: "point_rank (fst (seg_forward E X s)) \<le> 5"
  using order_trans [OF rank_answer, of 5] by (simp add: seg_forward_def Let_def split: prod.split)

lemma rank_arguments: "point_rank (fst (seg_arguments C E X tp t s)) \<le> 5"
  using order_trans [OF rank_answer, of 5]
  by (simp add: seg_arguments_def Let_def rank_forward split: option.split)

lemma rank_tools: "point_rank (fst (seg_tools C E X tp tools s)) \<le> 5"
  using order_trans [OF rank_answer, of 5] order_trans [OF rank_escape, of 5]
  by (simp add: seg_tools_def seg_deny_def Let_def rank_arguments split: option.split sum.split)

lemma rank_begin: "point_rank (fst (seg_begin C E X s)) \<le> 7"
  using order_trans [OF rank_answer, of 7] order_trans [OF rank_escape, of 7]
  by (simp add: seg_begin_def seg_deny_def Let_def split: option.split sum.split prod.split)

lemma rank_reply: "point_rank (fst (seg_reply E X t reply s)) \<le> 4"
  using order_trans [OF rank_escape, of 4]
  by (simp add: seg_reply_def Let_def rank_answer rank_start split: sum.split exn.split)

lemma step_rank:
  assumes "task_step C sig t sh = Some (t', sh')"
  shows "point_rank (tk_point t') < point_rank (tk_point t)"
  using assms
proof (cases rule: task_step_cases)
  case (log_cancelled em)
  then show ?thesis by (auto simp: Let_def rank_over_outer intro: le_less_trans [OF rank_over])
next
  case (written em w res lg)
  then show ?thesis by (auto simp: Let_def rank_over_outer intro: le_less_trans [OF rank_over])
qed (auto simp: Let_def intro: le_less_trans [OF rank_begin] le_less_trans [OF rank_tools]
    le_less_trans [OF rank_escape] le_less_trans [OF rank_reply])

definition loop_rank :: "task list \<Rightarrow> int" where
  "loop_rank ts = sum_list (map (\<lambda>t. int (point_rank (tk_point t))) ts)"

lemma rank_run: "loop_run C ls s s' \<Longrightarrow> loop_rank (fst s') + int (length ls) \<le> loop_rank (fst s)"
proof (induction rule: loop_run.induct)
  case (run_snoc ls s u l v)
  from run_snoc(2) have "loop_rank (fst v) + 1 \<le> loop_rank (fst u)"
  proof (cases rule: loop_step.cases)
    case (task_runs i ts sig sh t sh')
    then show ?thesis using step_rank [OF task_runs(5)] by (simp add: loop_rank_def sum_list_update_int)
  qed
  with run_snoc show ?case by simp
qed simp

lemma task_finished_iff: "task_finished t \<longleftrightarrow> (\<exists>r. tk_point t = Finished r) \<or> (\<exists>r. tk_point t = Listed r)"
  by (cases "tk_point t") simp_all

declare task_finished.simps [simp del]

lemma run_keeps_tasks:
  "loop_run C ls s s' \<Longrightarrow> length (fst s') = length (fst s) \<and>
    (\<forall>i<length (fst s). tk_env (fst s' ! i) = tk_env (fst s ! i) \<and> tk_params (fst s' ! i) = tk_params (fst s ! i))"
proof (induction rule: loop_run.induct)
  case (run_snoc ls s u l v)
  from run_snoc(2) show ?case
  proof (cases rule: loop_step.cases)
    case (task_runs i ts sig sh t sh')
    then show ?thesis using run_snoc.IH step_same_call [OF task_runs(5)] by (auto simp: nth_list_update)
  qed
qed simp

lemma run_tasks_ok:
  assumes "loop_run C ls (start_loop calls listers st) (ts, sh)"
  shows "list_all task_ok ts"
proof -
  have "cache_lock.balanced (start_loop calls listers st)"
    by (intro cache_lock.balanced_start) (simp_all add: start_loop_def)
  from cache_lock.balanced_run [OF assms this] show ?thesis by (simp add: cache_lock.balanced_def)
qed

text \<open>A task can go on by itself unless it waits for a lock that is taken.\<close>

lemma task_can_step:
  assumes "\<not> task_finished t"
    and "\<And>tp. tk_point t = AtCache tp \<Longrightarrow> \<not> sh_cache_lock sh" "tk_point t = ListAtCache \<Longrightarrow> \<not> sh_cache_lock sh"
    and "\<And>em. tk_point t = AtLog em \<Longrightarrow> \<not> sh_log_lock sh"
  shows "\<exists>sig r. sig \<noteq> CancelCacheWait \<and> sig \<noteq> CancelLogWait \<and> task_step C sig t sh = Some r"
proof (cases "tk_point t")
  case Ready
  then show ?thesis
    by (intro exI [of _ Begin]) (auto simp: task_step.simps list_step_def Let_def split: sum.split)
next
  case (AtCache tp)
  then show ?thesis
    using assms(2) by (intro exI [of _ TakeLock]) (auto simp: task_step.simps list_step_def Let_def split: option.split)
next
  case (Fetching tp)
  then show ?thesis
    by (intro exI [of _ "ToolsArrive (Inr [])"]) (auto simp: task_step.simps list_step_def Let_def)
next
  case (Calling t)
  then show ?thesis
    by (intro exI [of _ "ReplyArrives (Inl Cancelled)"]) (auto simp: task_step.simps list_step_def Let_def)
next
  case (AtLog em)
  then show ?thesis
    using assms(4) by (intro exI [of _ TakeLock]) (auto simp: task_step.simps list_step_def Let_def)
next
  case (Writing em)
  then show ?thesis
    by (intro exI [of _ "WriteEnds Written"]) (auto simp: task_step.simps list_step_def Let_def split: prod.split)
next
  case (Finished r)
  then show ?thesis using assms(1) by (simp add: task_finished_iff)
next
  case ListReady
  then show ?thesis
    by (intro exI [of _ Begin]) (auto simp: task_step.simps list_step_def Let_def split: sum.split)
next
  case ListAtCache
  then show ?thesis
    using assms(3) by (intro exI [of _ TakeLock]) (auto simp: task_step.simps list_step_def Let_def split: option.split)
next
  case ListFetching
  then show ?thesis
    by (intro exI [of _ "ToolsArrive (Inr [])"]) (auto simp: task_step.simps list_step_def Let_def)
next
  case (Listed r)
  then show ?thesis using assms(1) by (simp add: task_finished_iff)
qed

lemma loop_progress:
  assumes "loop_run C ls (start_loop calls listers st) (ts, sh)" "\<not> list_all task_finished ts"
  shows "\<exists>i sig s'. sig \<noteq> CancelCacheWait \<and> sig \<noteq> CancelLogWait \<and> loop_step C (i, sig) (ts, sh) s'"
proof -
  have step: ?thesis if "i < length ts" "\<not> task_finished (ts ! i)"
    "\<And>tp. tk_point (ts ! i) = AtCache tp \<Longrightarrow> \<not> sh_cache_lock sh"
    "tk_point (ts ! i) = ListAtCache \<Longrightarrow> \<not> sh_cache_lock sh"
    "\<And>em. tk_point (ts ! i) = AtLog em \<Longrightarrow> \<not> sh_log_lock sh" for i
    using task_can_step [OF that(2-5), where C = C] that(1) by (fastforce intro: loop_step.task_runs)
  have holder: "\<exists>i<length ts. P (ts ! i)" if "length (filter P ts) = Suc 0" for P
    using that by (metis filter_False in_set_conv_nth length_0_conv nat.distinct(1))
  note locks = locks_run [OF assms(1)]
  show ?thesis
  proof (cases "sh_log_lock sh")
    case True
    then obtain i where "i < length ts" "write_point (tk_point (ts ! i))"
      using locks(2) holder [of "\<lambda>t. write_point (tk_point t)"] by auto
    then show ?thesis by (intro step [of i]) (auto simp: task_finished_iff elim: write_point.elims)
  next
    case log_free: False
    show ?thesis
    proof (cases "sh_cache_lock sh")
      case True
      then obtain i where "i < length ts" "fetch_point (tk_point (ts ! i))"
        using locks(1) holder [of "\<lambda>t. fetch_point (tk_point t)"] by auto
      then show ?thesis by (intro step [of i]) (auto simp: task_finished_iff elim: fetch_point.elims)
    next
      case False
      from assms(2) obtain i where "i < length ts" "\<not> task_finished (ts ! i)"
        by (auto simp: list_all_length)
      with log_free False show ?thesis by (intro step [of i]) simp_all
    qed
  qed
qed






subsection \<open>The ceiling and the way back to idle\<close>

lemma ceiling_run:
  assumes "make_concurrency_limiter m = Inr cl"
    and "loop_run C ls (start_loop calls listers (g, cl)) (ts, sh)"
  shows "int (calls_in_flight p ts) \<le> m" "active_count (sh_limiter sh) p = sum_list (map (slot_weight p) ts)"
proof -
  note cl = fresh_limiter [OF assms(1)]
  note slots = slots_run [OF assms(2) cl(1,3), of p]
  then show "active_count (sh_limiter sh) p = sum_list (map (slot_weight p) ts)" by simp
  have "int (calls_in_flight p ts) \<le> active_count (sh_limiter sh) p"
    using slots calls_le_slots by simp
  also have "\<dots> \<le> m" using slots limiter_invD(2,3) cl(2) by (metis order_trans)
  finally show "int (calls_in_flight p ts) \<le> m" .
qed

text \<open>
  C5: The ceiling holds upstream. However the calls of a gateway are interleaved, at no moment are more
  upstream calls of one principal in flight than the configured ceiling, and the limiter counts
  exactly the calls that hold a slot.
\<close>

theorem upstream_calls_within_ceiling:
  assumes "make_concurrency_limiter m = Inr cl"
    and "loop_run C ls (start_loop calls listers (g, cl)) (ts, sh)"
  shows "int (calls_in_flight p ts) \<le> m \<and>
    active_count (sh_limiter sh) p =
      int (length (filter (\<lambda>t. slot_point (tk_point t) \<and> task_principal t = p) ts))"
proof -
  have "sum_list (map (slot_weight p) ts) =
      int (length (filter (\<lambda>t. slot_point (tk_point t) \<and> task_principal t = p) ts))"
    by (induction ts) (simp_all add: slot_weight_def)
  with ceiling_run [OF assms, of p] show ?thesis by simp
qed

theorem upstream_calls_within_ceiling_witness: "int (calls_in_flight ''analyst'' (fst demo_end)) \<le> 2"
  using upstream_calls_within_ceiling [OF demo_limiter_made demo_run] by blast


lemma finished_slots:
  assumes "list_all task_finished ts"
  shows "sum_list (map (slot_weight p) ts) = 0"
proof -
  have "slot_weight p t = 0" if "t \<in> set ts" for t
    using assms that by (auto simp: slot_weight_def list_all_iff task_finished_iff)
  then show ?thesis by (induction ts) simp_all
qed

text \<open>
  C20: When the calls are finished, the gateway is idle: no principal has an active execution and both
  locks are free, whatever happened to the calls.
\<close>

theorem finished_loop_is_idle:
  assumes "make_concurrency_limiter m = Inr cl"
    and "loop_run C ls (start_loop calls listers (g, cl)) (ts, sh)" "list_all task_finished ts"
  shows "active_count (sh_limiter sh) p = 0 \<and> \<not> sh_cache_lock sh \<and> \<not> sh_log_lock sh"
proof -
  have fin: "(\<exists>r. tk_point t = Finished r) \<or> (\<exists>r. tk_point t = Listed r)" if "t \<in> set ts" for t
    using assms(3) that by (simp add: list_all_iff task_finished_iff)
  have "filter (\<lambda>t. P (tk_point t)) ts = []" if "\<And>r. \<not> P (Finished r)" "\<And>r. \<not> P (Listed r)" for P
    using fin that by (fastforce simp: filter_empty_conv)
  from this [of fetch_point] this [of write_point] have "\<not> sh_cache_lock sh" "\<not> sh_log_lock sh"
    using locks_run [OF assms(2)] by auto
  then show ?thesis using ceiling_run(2) [OF assms(1,2), of p] finished_slots [OF assms(3)] by simp
qed

theorem finished_loop_is_idle_witness:
  "active_count (sh_limiter (snd demo_end)) ''analyst'' = 0 \<and> \<not> sh_log_lock (snd demo_end)"
  using finished_loop_is_idle [OF demo_limiter_made demo_run] demo_facts(3) by blast



subsection \<open>The tool list\<close>

definition failed_fetches :: "(nat \<times> signal) list \<Rightarrow> nat" where
  "failed_fetches ls = length (filter (\<lambda>l. failed_fetch (snd l)) ls)"

definition fetch_inv :: "nat \<Rightarrow> (nat \<times> signal) list \<Rightarrow> shared \<Rightarrow> bool" where
  "fetch_inv n ls sh \<longleftrightarrow>
     (sh_cache_lock sh \<longrightarrow> gw_cache (sh_gateway sh) = None) \<and>
     gw_fetches (sh_gateway sh) =
       n + failed_fetches ls + of_bool (sh_cache_lock sh \<or> gw_cache (sh_gateway sh) \<noteq> None)"

lemma fetch_inv_step:
  assumes "fetch_inv n ls sh" "task_step C sig t sh = Some (t', sh')" "task_ok t"
    and "fetch_point (tk_point t) \<Longrightarrow> sh_cache_lock sh"
  shows "fetch_inv n (ls @ [(i, sig)]) sh'"
proof -
  note facts = seg_gateways count_write_def task_okD(2) [OF assms(3)]
  show ?thesis
    using assms(2)
  proof (cases rule: task_step_cases)
    case (cold tp)
    then show ?thesis using assms(1) by (auto simp: fetch_inv_def failed_fetches_def failed_fetch_def)
  qed (use assms(1,4) facts in \<open>auto simp: Let_def fetch_inv_def failed_fetches_def failed_fetch_def\<close>)
qed

lemma section_locked:
  assumes "loop_run C ls (start_loop calls listers st) (ts, sh)" "t \<in> set ts"
  shows "(fetch_point (tk_point t) \<longrightarrow> sh_cache_lock sh) \<and> (write_point (tk_point t) \<longrightarrow> sh_log_lock sh)"
  using locks_run [OF assms(1)] assms(2)
  by (cases "sh_cache_lock sh"; cases "sh_log_lock sh") (auto simp: filter_empty_conv)

text \<open>Induction over a run from the start, with what is known of the stepping task.\<close>

lemma loop_induct [consumes 1, case_names start step]:
  assumes run: "loop_run C ls (start_loop calls listers st) s"
    and start: "P [] (start_loop calls listers st)"
    and step: "\<And>ls ts sh i sig t sh'. P ls (ts, sh) \<Longrightarrow> loop_run C ls (start_loop calls listers st) (ts, sh) \<Longrightarrow>
      i < length ts \<Longrightarrow> task_ok (ts ! i) \<Longrightarrow> task_step C sig (ts ! i) sh = Some (t, sh') \<Longrightarrow>
      P (ls @ [(i, sig)]) (ts[i := t], sh')"
  shows "P ls s"
  using run
proof (induction ls "start_loop calls listers st" s rule: loop_run.induct)
  case (run_snoc ls u l v)
  from run_snoc(3) show ?case
  proof (cases rule: loop_step.cases)
    case (task_runs i ts sig sh t sh')
    then have "task_ok (ts ! i)"
      using run_tasks_ok [of C ls calls listers st ts sh] run_snoc(1) by (simp add: list_all_length)
    then show ?thesis using task_runs run_snoc step by simp
  qed
qed (rule start)

lemma fetch_inv_run:
  assumes "loop_run C ls (start_loop calls listers (g, cl)) s" "gw_cache g = None"
  shows "fetch_inv (gw_fetches g) ls (snd s)"
  using assms(1)
proof (induction rule: loop_induct)
  case start
  then show ?case using assms(2) by (simp add: fetch_inv_def start_loop_def failed_fetches_def)
next
  case (step ls ts sh i sig t sh')
  then show ?case using fetch_inv_step [OF _ step(5,4)] section_locked [OF step(2), of "ts ! i"] by simp
qed

text \<open>
  C14: A cold cache is filled by one fetch. However many calls and \<open>tools/list\<close> requests arrive at
  once, no two of them fetch the upstream's tool list at the same time, and there are no more fetches than one for each that failed
  and one more.
\<close>

theorem cold_cache_fetches_once:
  assumes "loop_run C ls (start_loop calls listers (g, cl)) (ts, sh)" "gw_cache g = None"
  shows "length (filter (\<lambda>t. fetch_point (tk_point t)) ts) \<le> 1 \<and>
    gw_fetches (sh_gateway sh) \<le> gw_fetches g + failed_fetches ls + 1"
  using fetch_inv_run [OF assms] locks_run(1) [OF assms(1)]
  by (auto simp: fetch_inv_def)

theorem cold_cache_fetches_once_witness: "gw_fetches (sh_gateway (snd demo_end)) \<le> 1"
proof -
  have "failed_fetches demo_signals = 0" "gw_fetches demo_gateway = 0" by code_simp+
  then show ?thesis using cold_cache_fetches_once [OF demo_run demo_cold] by simp
qed



subsection \<open>Mediation\<close>

text \<open>What the code has established of a call that it forwards.\<close>

definition call_authorized :: "bridge_config \<Rightarrow> tool list \<Rightarrow> string \<Rightarrow> string \<Rightarrow> args \<Rightarrow> bool" where
  "call_authorized C tools prin tool arguments \<longleftrightarrow>
     (\<exists>tp ut. tool_rule (bc_policy C) prin tool = Some tp \<and> tp_effect tp = Allow \<and>
        find (\<lambda>t. tl_name t = tool) tools = Some ut \<and>
        validate_input_schema (bc_js C) (tl_input_schema ut) arguments = Inr None \<and>
        args_satisfy (bc_fullmatch C) tp arguments)"

lemma escape_not_calling: "\<not> call_point (fst (escape_to E X e s))"
  by (simp add: escape_to_def Let_def split: sum.split)

lemma over_not_calling: "\<not> call_point (fst (emission_over E X em res s))"
  by (simp add: emission_over_def Let_def escape_not_calling split: sum.split)

lemma start_not_calling: "\<not> call_point (fst (start_emission E X slot after out a c s))"
  by (simp add: start_emission_def Let_def over_not_calling split: sum.split)

lemma answer_not_calling: "\<not> call_point (fst (answer E X slot out a c res s))"
  unfolding answer_def by (rule start_not_calling)

lemma reply_not_calling: "\<not> call_point (fst (seg_reply E X t reply s))"
  by (simp add: seg_reply_def Let_def start_not_calling answer_not_calling escape_not_calling
      split: sum.split exn.split)

lemma begin_not_calling: "\<not> call_point (fst (seg_begin C E X s))"
  by (simp add: seg_begin_def seg_deny_def Let_def answer_not_calling escape_not_calling
      split: sum.split option.split prod.split)

lemma tools_calling:
  assumes "call_point (fst (seg_tools C E X tp tools s))"
    and "resolve_tool_policy (bc_policy C) (cx_principal X) (cx_tool_name X) = Some tp"
  shows "call_authorized C tools (cx_principal X) (cx_tool_name X) (cx_arguments X)"
  using assms
  by (auto simp: seg_tools_def seg_deny_def seg_arguments_def Let_def answer_not_calling escape_not_calling
      call_authorized_def tool_policy_Some_iff evaluate_None_iff split: option.splits sum.splits)

text \<open>A task that waits for the tool list has a rule that allows its tool.\<close>

fun policy_of :: "point \<Rightarrow> tool_policy option" where
  "policy_of (AtCache tp) = Some tp"
| "policy_of (Fetching tp) = Some tp"
| "policy_of _ = None"

definition task_allowed :: "bridge_config \<Rightarrow> task \<Rightarrow> bool" where
  "task_allowed C t \<longleftrightarrow>
     (\<forall>tp. policy_of (tk_point t) = Some tp \<longrightarrow>
        resolve_tool_policy (bc_policy C) (task_principal t) (cp_name (tk_params t)) = Some tp)"


lemma segments_policy:
  "policy_of (fst (escape_to E X e s)) = None"
  "policy_of (fst (emission_over E X em res s)) = None"
  "policy_of (fst (start_emission E X slot after out a c s)) = None"
  "policy_of (fst (answer E X slot out a c r s)) = None"
proof -
  show 1: "policy_of (fst (escape_to E X e s)) = None" for e s
    by (simp add: escape_to_def Let_def split: sum.split)
  show 2: "policy_of (fst (emission_over E X em res s)) = None" for em res s
    by (simp add: emission_over_def Let_def 1 split: sum.split)
  show 3: "policy_of (fst (start_emission E X slot after out a c s)) = None" for after out
    by (simp add: start_emission_def Let_def 2 split: sum.split)
  show "policy_of (fst (answer E X slot out a c r s)) = None" unfolding answer_def by (rule 3)
qed

lemma tools_policy: "policy_of (fst (seg_tools C E X tp tools s)) = None"
  by (simp add: seg_tools_def seg_deny_def seg_arguments_def seg_forward_def Let_def segments_policy
      split: option.split sum.split prod.split)

lemma reply_policy: "policy_of (fst (seg_reply E X t reply s)) = None"
  by (simp add: seg_reply_def Let_def segments_policy split: sum.split exn.split)

lemma begin_policy:
  "policy_of (fst (seg_begin C E X s)) = Some tp \<Longrightarrow>
    resolve_tool_policy (bc_policy C) (cx_principal X) (cx_tool_name X) = Some tp"
  by (auto simp: seg_begin_def seg_deny_def Let_def segments_policy split: sum.splits option.splits prod.splits if_splits)

lemma step_allowed:
  assumes "task_step C sig t sh = Some (t', sh')" "task_allowed C t"
  shows "task_allowed C t'"
  using assms(1)
  by (cases rule: task_step_cases)
    (use assms(2) in \<open>auto simp: task_allowed_def Let_def segments_policy tools_policy reply_policy dest: begin_policy\<close>)

text \<open>The tool offered that a run can see: the cached one and those that arrive.\<close>

definition tool_lists :: "gateway \<Rightarrow> (nat \<times> signal) list \<Rightarrow> tool list set" where
  "tool_lists g ls = set_option (gw_cache g) \<union> {tools. \<exists>i. (i, ToolsArrive (Inr tools)) \<in> set ls}"

lemma tool_lists_snoc:
  "tool_lists g (ls @ [(i, sig)]) = tool_lists g ls \<union> set_option (tools_of sig)"
  by (auto simp: tool_lists_def tools_of_def split: signal.split sum.split)

definition call_of :: "call_env \<times> call_params \<Rightarrow> string \<times> args" where
  "call_of c = (cp_name (snd c), call_arguments (snd c))"

definition authorized_by :: "bridge_config \<Rightarrow> tool list set \<Rightarrow> call_env \<times> call_params \<Rightarrow> bool" where
  "authorized_by C offered c \<longleftrightarrow>
     (\<exists>prin tools. ce_principal (fst c) = Some prin \<and> tools \<in> offered \<and>
        call_authorized C tools prin (cp_name (snd c)) (call_arguments (snd c)))"

text \<open>A step that makes an upstream call has checked it.\<close>

lemma step_authorized:
  assumes "task_step C sig t sh = Some (t', sh')" "task_ok t" "task_allowed C t" "call_point (tk_point t')"
    and "set_option (gw_cache (sh_gateway sh)) \<subseteq> offered" "set_option (tools_of sig) \<subseteq> offered"
  shows "authorized_by C offered (tk_env t, tk_params t)" "point_rank (tk_point t) > 5"
proof -
  have called: "authorized_by C offered (tk_env t, tk_params t)"
    if "policy_of (tk_point t) = Some tp" "tools \<in> offered"
      "call_point (fst (seg_tools C (tk_env t) (task_ctx t) tp tools s))" for tp tools s
  proof -
    have "ce_principal (tk_env t) \<noteq> None"
      using that(1) task_okD(1) [OF assms(2)] by (cases "tk_point t") auto
    moreover have "call_authorized C tools (task_principal t) (cp_name (tk_params t)) (call_arguments (tk_params t))"
      using tools_calling [OF that(3)] assms(3) that(1) by (simp add: task_allowed_def)
    ultimately show ?thesis using that(2) by (auto simp: authorized_by_def task_principal_def)
  qed
  show "authorized_by C offered (tk_env t, tk_params t)"
    using assms(1)
    by (cases rule: task_step_cases)
      (use assms(4-6) called in \<open>auto simp: Let_def tools_of_def begin_not_calling escape_not_calling
        over_not_calling reply_not_calling\<close>)
  have "point_rank (tk_point t') = 5" using assms(4) by (cases "tk_point t'") auto
  with step_rank [OF assms(1)] show "point_rank (tk_point t) > 5" by simp
qed


definition mediated :: "bridge_config \<Rightarrow> (call_env \<times> call_params) list \<Rightarrow> gateway \<Rightarrow> (nat \<times> signal) list
    \<Rightarrow> loop_state \<Rightarrow> bool" where
  "mediated C calls g ls s \<longleftrightarrow>
     list_all (task_allowed C) (fst s) \<and> set_option (gw_cache (sh_gateway (snd s))) \<subseteq> tool_lists g ls \<and>
     length (fst s) \<ge> length calls \<and> (\<forall>i<length (fst s). list_point (tk_point (fst s ! i)) \<longleftrightarrow> length calls \<le> i) \<and>
     (\<forall>i<length calls. (tk_env (fst s ! i), tk_params (fst s ! i)) = calls ! i) \<and>
     (\<exists>is. distinct is \<and>
        gw_forwarded (sh_gateway (snd s)) = gw_forwarded g @ map (\<lambda>i. call_of (calls ! i)) is \<and>
        (\<forall>i\<in>set is. i < length calls \<and> point_rank (tk_point (fst s ! i)) \<le> 5 \<and>
           authorized_by C (tool_lists g ls) (calls ! i)))"

lemma authorized_by_mono: "authorized_by C A c \<Longrightarrow> A \<subseteq> B \<Longrightarrow> authorized_by C B c"
  unfolding authorized_by_def by blast

lemma mediated_run:
  assumes "loop_run C ls (start_loop calls listers (g, cl)) s"
  shows "mediated C calls g ls s"
  using assms
proof (induction rule: loop_induct)
  case start
  have "list_all (task_allowed C) (map new_task calls @ map new_list listers)"
    by (auto simp: list_all_iff task_allowed_def new_task_def new_list_def)
  then show ?case
    by (auto simp: mediated_def start_loop_def tool_lists_def new_task_def new_list_def nth_append intro!: exI [of _ "[]"])
next
  case (step ls ts sh i sig t sh')
  let ?B = "tool_lists g (ls @ [(i, sig)])"
  from step(1) obtain js where old: "list_all (task_allowed C) ts"
      "set_option (gw_cache (sh_gateway sh)) \<subseteq> tool_lists g ls" "length calls \<le> length ts"
      "\<forall>j<length ts. list_point (tk_point (ts ! j)) \<longleftrightarrow> length calls \<le> j"
      "\<forall>j<length calls. (tk_env (ts ! j), tk_params (ts ! j)) = calls ! j"
    and js: "distinct js" "gw_forwarded (sh_gateway sh) = gw_forwarded g @ map (\<lambda>j. call_of (calls ! j)) js"
      "\<forall>j\<in>set js. j < length calls \<and> point_rank (tk_point (ts ! j)) \<le> 5 \<and>
         authorized_by C (tool_lists g ls) (calls ! j)"
    unfolding mediated_def fst_conv snd_conv by blast
  have mono: "tool_lists g ls \<subseteq> ?B" "set_option (tools_of sig) \<subseteq> ?B" by (auto simp: tool_lists_snoc)
  have same: "(tk_env t, tk_params t) = calls ! i" "(tk_env (ts ! i), tk_params (ts ! i)) = calls ! i" if "i < length calls"
    using step_same_call [OF step(5)] old(5) that by auto
  have rank: "point_rank (tk_point (ts[i := t] ! j)) \<le> point_rank (tk_point (ts ! j))" for j
    using step_rank [OF step(5)] step(3) by (cases "j = i") simp_all
  have rank5: "point_rank (tk_point (ts[i := t] ! j)) \<le> 5" if "point_rank (tk_point (ts ! j)) \<le> 5" for j
    using rank [of j] that by linarith
  have call: "call_of (calls ! i) = (cp_name (tk_params (ts ! i)), call_arguments (tk_params (ts ! i)))" if "i < length calls"
    by (simp add: same(2) [OF that, symmetric] call_of_def)
  have allowed: "task_allowed C (ts ! i)" using old(1) step(3) by (simp add: list_all_length)
  have "list_all (task_allowed C) (ts[i := t])"
    using old(1) step_allowed [OF step(5) allowed]
    by (auto simp: list_all_iff dest!: set_update_subset_insert [THEN subsetD])
  moreover have "set_option (gw_cache (sh_gateway sh')) \<subseteq> ?B"
    using step_gateway(1) [OF step(5,4)] old(2) mono by (auto split: option.splits)
  moreover have "\<forall>j<length calls. (tk_env (ts[i := t] ! j), tk_params (ts[i := t] ! j)) = calls ! j"
    using old(5) same(1) step(3) old(3) by (simp add: nth_list_update)
  moreover have kinds: "\<forall>j<length (ts[i := t]). list_point (tk_point (ts[i := t] ! j)) \<longleftrightarrow> length calls \<le> j"
    using old(4) step_kind [OF step(5,4)] step(3) by (simp add: nth_list_update)
  moreover have "\<exists>is. distinct is \<and>
      gw_forwarded (sh_gateway sh') = gw_forwarded g @ map (\<lambda>i. call_of (calls ! i)) is \<and>
      (\<forall>j\<in>set is. j < length calls \<and> point_rank (tk_point (ts[i := t] ! j)) \<le> 5 \<and>
         authorized_by C ?B (calls ! j))"
  proof (cases "call_point (tk_point t)")
    case True
    have "set_option (gw_cache (sh_gateway sh)) \<subseteq> ?B" using old(2) mono(1) by blast
    from True have i: "i < length calls" using kinds step(3) by (cases "tk_point t") fastforce+
    note new = step_authorized [OF step(5,4) allowed True \<open>set_option (gw_cache (sh_gateway sh)) \<subseteq> ?B\<close> mono(2), unfolded same [OF i]]
    have "point_rank (tk_point t) \<le> 5" using True by (cases "tk_point t") auto
    with new js rank5 mono(1) step(3) i step_gateway(3) [OF step(5,4)] True call [OF i]
    show ?thesis by (intro exI [of _ "js @ [i]"]) (fastforce intro: authorized_by_mono)
  next
    case False
    with js rank5 mono(1) step_gateway(3) [OF step(5,4)] show ?thesis
      by (intro exI [of _ js]) (auto intro: authorized_by_mono)
  qed
  ultimately show ?case using old(3) by (simp add: mediated_def)
qed

text \<open>
  C3: Complete mediation under interleaving. Of a number of concurrent calls each reaches the upstream
  at most once, with its tool name and arguments unchanged, and only if it is authenticated, the
  policy allows the tool to its principal, a tool list that the upstream sent offers the tool, the
  tool's schema accepts the arguments and the arguments satisfy every constraint of the policy.
\<close>

theorem concurrent_calls_mediated:
  assumes "loop_run C ls (start_loop calls listers (g, cl)) (ts, sh)"
  shows "\<exists>is. distinct is \<and> set is \<subseteq> {..<length calls} \<and>
    gw_forwarded (sh_gateway sh) = gw_forwarded g @ map (\<lambda>i. call_of (calls ! i)) is \<and>
    (\<forall>i\<in>set is. authorized_by C (tool_lists g ls) (calls ! i))"
  using mediated_run [OF assms] unfolding mediated_def by fastforce

theorem concurrent_calls_mediated_witness:
  "\<exists>is. distinct is \<and> set is \<subseteq> {..<2} \<and>
    gw_forwarded (sh_gateway (snd demo_end)) = map (\<lambda>i. call_of (demo_calls ! i)) is \<and>
    is \<noteq> []"
proof -
  have "gw_forwarded demo_gateway = []" "length demo_calls = 2" by (simp_all add: demo_gateway_def demo_calls_def)
  then show ?thesis using demo_facts(7) concurrent_calls_mediated [OF demo_run] by fastforce
qed



subsection \<open>One tool list\<close>

text \<open>While the cache lock is held the cache is empty; so it is filled once and then stays.\<close>

lemma lock_cold:
  assumes "loop_run C ls (start_loop calls listers (g, cl)) s"
  shows "sh_cache_lock (snd s) \<longrightarrow> gw_cache (sh_gateway (snd s)) = None"
  using assms
proof (induction rule: loop_induct)
  case (step ls ts sh i sig t sh')
  from step(5) show ?case
  proof (cases rule: task_step_cases)
    case (fetched tp tools)
    then show ?thesis by (simp add: Let_def)
  qed (use step(1) task_okD(2) [OF step(4)] seg_gateways in \<open>simp_all add: Let_def count_write_def\<close>)
qed (simp add: start_loop_def)

lemma arrival_cold:
  assumes "loop_run C ls (start_loop calls listers (g, cl)) (ts, sh)" "i < length ts"
    and "task_step C sig (ts ! i) sh = Some (t, sh')" "tools_of sig \<noteq> None"
  shows "gw_cache (sh_gateway sh) = None"
proof -
  have "fetch_point (tk_point (ts ! i))"
    using assms(3) by (cases rule: task_step_cases) (use assms(4) in \<open>auto simp: tools_of_def\<close>)
  then show ?thesis using section_locked [OF assms(1), of "ts ! i"] lock_cold [OF assms(1)] assms(2) by simp
qed

definition list_served :: "bridge_config \<Rightarrow> shared \<Rightarrow> task \<Rightarrow> bool" where
  "list_served C sh t \<longleftrightarrow>
     (\<forall>tools. tk_point t = Listed (Inr tools) \<longrightarrow>
        (\<exists>p cached. ce_principal (tk_env t) = Some p \<and> gw_cache (sh_gateway sh) = Some cached \<and>
           tools = listed_tools C p cached))"

lemma step_list_served:
  assumes "task_step C sig t sh = Some (t', sh')" "task_ok t" "list_served C sh t"
  shows "list_served C sh' t'"
proof -
  have p: "ce_principal (tk_env t) = Some (task_principal t)" if "\<not> end_point (tk_point t)"
    using task_okD(1) [OF assms(2) that] by (auto simp: task_principal_def)
  have "\<not> list_point (tk_point t') \<Longrightarrow> list_served C sh' t'" by (auto simp: list_served_def)
  then have call: "\<not> list_point (tk_point t) \<Longrightarrow> list_served C sh' t'" by (simp add: step_kind [OF assms(1,2)])
  show ?thesis
    using assms(1)
    by (cases rule: task_step_cases) (use p call in \<open>simp_all add: list_served_def\<close>)
qed

lemma one_list_run:
  assumes "loop_run C ls (start_loop calls listers (g, cl)) s"
  shows "tool_lists g ls = set_option (gw_cache (sh_gateway (snd s))) \<and> list_all (list_served C (snd s)) (fst s)"
  using assms
proof (induction rule: loop_induct)
  case start
  then show ?case
    by (auto simp: tool_lists_def start_loop_def list_all_iff list_served_def new_task_def new_list_def)
next
  case (step ls ts sh i sig t sh')
  note cold = arrival_cold [OF step(2,3,5)]
  have cache: "gw_cache (sh_gateway sh') = (case tools_of sig of Some tools \<Rightarrow> Some tools | None \<Rightarrow> gw_cache (sh_gateway sh))"
    by (rule step_gateway(1) [OF step(5,4)])
  have kept: "list_served C sh' u" if "list_served C sh u" for u
    using that cold by (auto simp: list_served_def cache split: option.split)
  have "list_served C sh' t"
    using step_list_served [OF step(5,4)] step(1,3) by (simp add: list_all_length)
  then have "list_all (list_served C sh') (ts[i := t])"
    using step(1) kept by (auto simp: list_all_iff dest!: set_update_subset_insert [THEN subsetD])
  moreover have "tool_lists g (ls @ [(i, sig)]) = set_option (gw_cache (sh_gateway sh'))"
    using step(1) cold by (auto simp: tool_lists_snoc cache split: option.split)
  ultimately show ?case by simp
qed

text \<open>
  C15: One tool list for all. Over any run of concurrent requests there is one tool list: every
  \<open>tools/list\<close> that succeeds returns what the policy allows its principal of the list that is cached,
  in its order, so two answers to one principal never differ; and each call that was forwarded is of a
  tool that \<open>tools/list\<close> shows to its principal.
\<close>

theorem concurrent_lists_agree:
  assumes "loop_run C ls (start_loop calls listers (g, cl)) (ts, sh)"
  shows "(\<forall>t\<in>set ts. \<forall>tools. tk_point t = Listed (Inr tools) \<longrightarrow>
      (\<exists>p cached. ce_principal (tk_env t) = Some p \<and> gw_cache (sh_gateway sh) = Some cached \<and>
         tools = listed_tools C p cached)) \<and>
    (\<exists>is. gw_forwarded (sh_gateway sh) = gw_forwarded g @ map (\<lambda>i. call_of (calls ! i)) is \<and>
       (\<forall>i\<in>set is. \<exists>p cached. ce_principal (fst (calls ! i)) = Some p \<and> gw_cache (sh_gateway sh) = Some cached \<and>
          cp_name (snd (calls ! i)) \<in> tl_name ` set (listed_tools C p cached)))"
proof -
  note one = one_list_run [OF assms, unfolded fst_conv snd_conv]
  obtain js where js: "gw_forwarded (sh_gateway sh) = gw_forwarded g @ map (\<lambda>i. call_of (calls ! i)) js"
    "\<forall>i\<in>set js. authorized_by C (tool_lists g ls) (calls ! i)"
    using mediated_run [OF assms] unfolding mediated_def by fastforce
  have "\<exists>p cached. ce_principal (fst c) = Some p \<and> gw_cache (sh_gateway sh) = Some cached \<and>
      cp_name (snd c) \<in> tl_name ` set (listed_tools C p cached)" if authorized: "authorized_by C (tool_lists g ls) c" for c
  proof -
    obtain p cached where c: "ce_principal (fst c) = Some p" "gw_cache (sh_gateway sh) = Some cached"
      "call_authorized C cached p (cp_name (snd c)) (call_arguments (snd c))"
      using authorized one by (auto simp: authorized_by_def)
    then obtain tp ut where "resolve_tool_policy (bc_policy C) p (cp_name (snd c)) = Some tp"
      "find (\<lambda>t. tl_name t = cp_name (snd c)) cached = Some ut"
      by (auto simp: call_authorized_def tool_policy_Some_iff)
    then have "ut \<in> set (listed_tools C p cached)" "tl_name ut = cp_name (snd c)"
      by (auto simp: listed_tools_def is_tool_allowed_def find_Some_iff)
    then show ?thesis using c by force
  qed
  then show ?thesis using one js by (auto simp: list_all_iff list_served_def)
qed

theorem concurrent_lists_agree_witness:
  "\<exists>tools. tk_point (fst demo_end ! 2) = Listed (Inr tools) \<and> map tl_name tools = [''echo''] \<and>
    (\<exists>cached. gw_cache (sh_gateway (snd demo_end)) = Some cached \<and> tools = listed_tools demo_bridge ''analyst'' cached)"
proof -
  have "fst demo_end ! 2 \<in> set (fst demo_end)" using demo_facts(2) by simp
  then show ?thesis using concurrent_lists_agree [OF demo_run] demo_facts(5) [of 2] demo_facts(6) by fastforce
qed



subsection \<open>The audit trail\<close>

text \<open>No write fails and no task is cancelled while it waits for one or for its end.\<close>

fun undisturbed :: "signal \<Rightarrow> bool" where
  "undisturbed CancelLogWait = False"
| "undisturbed (WriteEnds w) = (w = Written)"
| "undisturbed _ = True"

text \<open>A call that has its record: finished, authenticated, and not by a \<open>BaseException\<close>.\<close>

definition recorded :: "task \<Rightarrow> bool" where
  "recorded t \<longleftrightarrow>
     ce_principal (tk_env t) \<noteq> None \<and>
     (\<exists>r. tk_point t = Finished r \<and> (\<forall>m. r \<noteq> Inl (BaseExc m)))"

text \<open>What holds after a segment without a write: no record yet, and finished by a \<open>BaseException\<close> only.\<close>

definition unrecorded :: "point \<times> call_state \<Rightarrow> bool" where
  "unrecorded r \<longleftrightarrow>
     (case fst r of Finished x \<Rightarrow> (\<exists>m. x = Inl (BaseExc m)) | _ \<Rightarrow> \<not> lo_audit_emitted (st_lo (snd r)))"

abbreviation pending :: "call_state \<Rightarrow> bool" where
  "pending s \<equiv> known_mode (al_redaction_mode (gw_audit (st_gw s))) \<and> \<not> lo_audit_emitted (st_lo s)"

lemma unrecorded_escape: "pending s \<Longrightarrow> unrecorded (escape_to E X e s)"
  by (cases e) (simp_all add: unrecorded_def escape_to_def Let_def serialize_known count_reading_def)

lemma unrecorded_start: "pending s \<Longrightarrow> unrecorded (start_emission E X slot after out a c s)"
  by (simp add: unrecorded_def start_emission_def Let_def serialize_known count_reading_def)

lemma unrecorded_answer: "pending s \<Longrightarrow> unrecorded (answer E X slot out a c res s)"
  unfolding answer_def by (rule unrecorded_start)

lemma unrecorded_forward: "pending s \<Longrightarrow> unrecorded (seg_forward E X s)"
  by (auto simp: seg_forward_def Let_def handler_simps unrecorded_answer split: prod.split)
    (simp add: unrecorded_def count_reading_def)

lemma unrecorded_tools: "pending s \<Longrightarrow> unrecorded (seg_tools C E X tp tools s)"
  by (auto simp: seg_tools_def seg_deny_def seg_arguments_def Let_def handler_simps stop_policy_timer_def
      count_reading_def intro!: unrecorded_answer unrecorded_escape unrecorded_forward
      split: option.split sum.split)

lemma unrecorded_reply: "pending s \<Longrightarrow> unrecorded (seg_reply E X t reply s)"
  by (auto simp: seg_reply_def Let_def handler_simps stop_upstream_timer_def leave_slot_def
      intro!: unrecorded_answer unrecorded_escape unrecorded_start split: sum.split exn.split)

lemma unrecorded_begin: "pending s \<Longrightarrow> unrecorded (seg_begin C E X s)"
proof -
  assume p: "pending s"
  then have "pending (snd (acquire_token E X s))" by (simp add: acquire_token_def case_prod_beta)
  then show ?thesis
    by (cases "acquire_token E X s")
      (auto simp: seg_begin_def seg_deny_def Let_def handler_simps
        intro!: unrecorded_answer unrecorded_escape split: option.split sum.split; simp add: unrecorded_def)
qed

lemma written_finishes: "fst (emission_over E X em (Inr ()) s) = Finished (em_after em)"
  by (auto simp: emission_over_def Let_def escape_to_def leave_slot_def split: sum.split)

definition not_yet :: "task \<Rightarrow> bool" where
  "not_yet t \<longleftrightarrow> task_finished t \<or> tk_point t = Ready \<or> \<not> lo_audit_emitted (tk_locals t)"

text \<open>A step adds the line of its task's record if and only if it makes the task a recorded one.\<close>

lemma step_records:
  assumes "task_step C sig t sh = Some (t', sh')" "task_ok t" "not_yet t" "undisturbed sig"
    and "known_mode (al_redaction_mode (gw_audit (sh_gateway sh)))"
  shows "not_yet t' \<and> \<not> recorded t \<and>
    (if recorded t' then
       (\<exists>em res. tk_point t = Writing em \<and> tk_point t' = Finished res \<and>
          describes (tk_env t) (task_ctx t) (em_record em) \<and> outcome_fits (ar_outcome (em_record em)) res \<and>
          gw_audit (sh_gateway sh') =
            append_line (audit_line (al_redaction_mode (gw_audit (sh_gateway sh))) (em_record em) @ [CHR 0x0A])
              (gw_audit (sh_gateway sh)))
     else gw_audit (sh_gateway sh') = gw_audit (sh_gateway sh))"
proof -
  have seg: "not_yet (t\<lparr>tk_locals := st_lo (snd r), tk_point := fst r\<rparr>) \<and>
      \<not> recorded (t\<lparr>tk_locals := st_lo (snd r), tk_point := fst r\<rparr>)" if "unrecorded r" for r
    using that by (auto simp: unrecorded_def not_yet_def recorded_def task_finished_iff split: point.splits)
  have unfinished: "\<not> recorded t" "\<not> task_finished t"
    using step_rank [OF assms(1)] by (auto simp: recorded_def task_finished_iff)
  note audit = step_gateway(4) [OF assms(1,2)]
  show ?thesis
    using assms(1)
  proof (cases rule: task_step_cases)
    case (written em w res lg)
    then have w: "w = Written" using assms(4) by simp
    with written have res: "res = Inr ()" using logger_emit_Written [OF assms(5), of "em_record em"] by simp
    have ok: "emission_ok (tk_env t) (task_ctx t) em" using task_okD(3) [OF assms(2)] written by simp
    have point: "tk_point t' = Finished (em_after em)"
      using written(4) by (simp add: Let_def res written_finishes)
    moreover have "gw_audit (sh_gateway sh') =
        append_line (audit_line (al_redaction_mode (gw_audit (sh_gateway sh))) (em_record em) @ [CHR 0x0A])
          (gw_audit (sh_gateway sh))"
      using audit written(1,2) logger_emit_Written [OF assms(5)] by (simp add: w)
    moreover have "recorded t'"
      using point ok task_okD(1) [OF assms(2)] written(1) step_same_call [OF assms(1)]
      by (auto simp: recorded_def emission_ok_def)
    ultimately show ?thesis
      using ok unfinished written(1) by (auto simp: not_yet_def task_finished_iff emission_ok_def)
  next
    case (log_cancelled em)
    then show ?thesis using assms(4) by simp
  next
    case (begins p)
    then show ?thesis
      using seg [OF unrecorded_begin] audit unfinished assms(5) by (simp add: Let_def initial_locals_def)
  next
    case (replied timer reply)
    then show ?thesis
      using seg [OF unrecorded_reply] audit unfinished assms(3,5) by (simp add: Let_def not_yet_def [of t])
  next
    case (fetched tp tools)
    then show ?thesis
      using seg [OF unrecorded_tools] audit unfinished assms(3,5) by (simp add: Let_def not_yet_def [of t])
  next
    case (warm tp tools)
    then show ?thesis
      using seg [OF unrecorded_tools] audit unfinished assms(3,5) by (simp add: Let_def not_yet_def [of t])
  next
    case (gave_up tp)
    then show ?thesis
      using seg [OF unrecorded_escape] audit unfinished assms(3,5) by (simp add: Let_def not_yet_def [of t])
  next
    case (fetch_failed tp e)
    then show ?thesis
      using seg [OF unrecorded_escape] audit unfinished assms(3,5) by (simp add: Let_def not_yet_def [of t])
  qed (use audit unfinished assms(3) in \<open>simp_all add: not_yet_def recorded_def task_finished_iff\<close>)
qed


definition audit_lines :: "string \<Rightarrow> (nat \<times> audit_record) list \<Rightarrow> string" where
  "audit_lines mode ws = concat (map (\<lambda>(i, rec). audit_line mode rec @ [CHR 0x0A]) ws)"

text \<open>The record of a finished task, whose outcome fits the way the task ended.\<close>

definition record_of :: "task \<Rightarrow> audit_record \<Rightarrow> bool" where
  "record_of t rec \<longleftrightarrow>
     describes (tk_env t) (task_ctx t) rec \<and>
     (\<exists>res. tk_point t = Finished res \<and> outcome_fits (ar_outcome rec) res)"

definition trail_of :: "audit_logger \<Rightarrow> (nat \<times> audit_record) list \<Rightarrow> loop_state \<Rightarrow> bool" where
  "trail_of lg ws s \<longleftrightarrow>
     al_redaction_mode (gw_audit (sh_gateway (snd s))) = al_redaction_mode lg \<and>
     al_file (gw_audit (sh_gateway (snd s))) = al_file lg @ audit_lines (al_redaction_mode lg) ws \<and>
     distinct (map fst ws) \<and> (\<forall>i. i \<in> fst ` set ws \<longleftrightarrow> i < length (fst s) \<and> recorded (fst s ! i)) \<and>
     (\<forall>w \<in> set ws. record_of (fst s ! fst w) (snd w))"

lemma trail_step:
  assumes "trail_of lg ws (ts, sh)" "i < length ts" "task_ok (ts ! i)" "not_yet (ts ! i)" "undisturbed sig"
    and "task_step C sig (ts ! i) sh = Some (t, sh')" "known_mode (al_redaction_mode lg)"
  shows "\<exists>ws'. trail_of lg ws' (ts[i := t], sh') \<and>
    (ws' = ws \<or> (\<exists>em. tk_point (ts ! i) = Writing em \<and> ws' = ws @ [(i, em_record em)]))"
proof -
  from assms(1) have mode: "al_redaction_mode (gw_audit (sh_gateway sh)) = al_redaction_mode lg"
    and content: "al_file (gw_audit (sh_gateway sh)) = al_file lg @ audit_lines (al_redaction_mode lg) ws"
    and dist: "distinct (map fst ws)"
    and who: "j \<in> fst ` set ws \<longleftrightarrow> j < length ts \<and> recorded (ts ! j)"
    and recs: "w \<in> set ws \<Longrightarrow> record_of (ts ! fst w) (snd w)" for j w
    by (simp_all add: trail_of_def)
  note step = step_records [OF assms(6,3,4,5), unfolded mode, OF assms(7)]
  have new: "i \<notin> fst ` set ws" using step who by blast
  have recs': "record_of (ts[i := t] ! fst w) (snd w)" if "w \<in> set ws" for w
  proof -
    have "fst w \<noteq> i" using new that by force
    then show ?thesis using recs [OF that] by simp
  qed
  show ?thesis
  proof (cases "recorded t")
    case False
    with step have same: "gw_audit (sh_gateway sh') = gw_audit (sh_gateway sh)" by simp
    have "j \<in> fst ` set ws \<longleftrightarrow> j < length ts \<and> recorded (ts[i := t] ! j)" for j
      using who [of j] new False assms(2) by (cases "j = i") simp_all
    then have "trail_of lg ws (ts[i := t], sh')"
      unfolding trail_of_def fst_conv snd_conv same length_list_update using mode content dist recs' by blast
    then show ?thesis by blast
  next
    case True
    with step obtain em rec res where point: "tk_point t = Finished res" and em: "tk_point (ts ! i) = Writing em" "rec = em_record em"
      and about: "describes (tk_env (ts ! i)) (task_ctx (ts ! i)) rec" and fits: "outcome_fits (ar_outcome rec) res"
      and line: "gw_audit (sh_gateway sh') =
         append_line (audit_line (al_redaction_mode lg) rec @ [CHR 0x0A]) (gw_audit (sh_gateway sh))" by auto
    have "record_of t rec"
      using about point fits step_same_call [OF assms(6)] by (simp add: record_of_def)
    then have "record_of (ts[i := t] ! fst w) (snd w)" if "w \<in> set (ws @ [(i, rec)])" for w
      using that recs' assms(2) by (cases "w \<in> set ws") auto
    moreover have "j \<in> fst ` set (ws @ [(i, rec)]) \<longleftrightarrow> j < length ts \<and> recorded (ts[i := t] ! j)" for j
      using who [of j] True assms(2) by (cases "j = i") simp_all
    moreover have "distinct (map fst (ws @ [(i, rec)]))" using dist new by simp
    moreover have "al_redaction_mode (gw_audit (sh_gateway sh')) = al_redaction_mode lg"
      "al_file (gw_audit (sh_gateway sh')) =
         al_file lg @ audit_lines (al_redaction_mode lg) (ws @ [(i, rec)])"
      using mode content by (simp_all add: line append_line_def audit_lines_def)
    ultimately have "trail_of lg (ws @ [(i, rec)]) (ts[i := t], sh')"
      unfolding trail_of_def fst_conv snd_conv length_list_update by blast
    then show ?thesis using em by blast
  qed
qed

lemma trail_run:
  assumes "loop_run C ls (start_loop calls listers (g, cl)) s" "\<forall>(i, sig) \<in> set ls. undisturbed sig"
    and "known_mode (al_redaction_mode (gw_audit g))"
  shows "list_all not_yet (fst s) \<and> (\<exists>ws. trail_of (gw_audit g) ws s)"
  using assms(1,2)
proof (induction rule: loop_induct)
  case start
  have "trail_of (gw_audit g) [] (start_loop calls listers (g, cl))"
    by (auto simp: trail_of_def start_loop_def audit_lines_def new_task_def new_list_def nth_append recorded_def)
  then show ?case by (auto simp: start_loop_def new_task_def new_list_def initial_locals_def list_all_iff not_yet_def)
next
  case (step ls ts sh i sig t sh')
  then obtain ws where ws: "trail_of (gw_audit g) ws (ts, sh)" and ny: "list_all not_yet ts" by auto
  have i: "not_yet (ts ! i)" "undisturbed sig" using ny step(3,6) by (auto simp: list_all_length)
  have "al_redaction_mode (gw_audit (sh_gateway sh)) = al_redaction_mode (gw_audit g)"
    using ws by (simp add: trail_of_def)
  then have "not_yet t" using step_records [OF step(5,4) i] assms(3) by simp
  then have "list_all not_yet (ts[i := t])"
    using ny by (auto simp: list_all_iff dest!: set_update_subset_insert [THEN subsetD])
  then show ?case using trail_step [OF ws step(3,4) i step(5) assms(3)] by auto
qed

text \<open>
  C7: The audit trail under interleaving. Over any run of concurrent calls in which no audit write
  fails or is cancelled, the log grows by exactly one complete line for each authenticated call that
  has finished (by anything but a \<open>BaseException\<close>), in some order, and by nothing else; each line is
  that call's record, and its outcome fits the way the call ended.
\<close>

theorem concurrent_audit_trail:
  assumes "loop_run C ls (start_loop calls listers (g, cl)) (ts, sh)" "\<forall>(i, sig) \<in> set ls. undisturbed sig"
    and "known_mode (al_redaction_mode (gw_audit g))"
  shows "\<exists>ws. al_file (gw_audit (sh_gateway sh)) =
      al_file (gw_audit g) @ audit_lines (al_redaction_mode (gw_audit g)) ws \<and>
    distinct (map fst ws) \<and> (\<forall>i. i \<in> fst ` set ws \<longleftrightarrow> i < length ts \<and> recorded (ts ! i)) \<and>
    (\<forall>w \<in> set ws. record_of (ts ! fst w) (snd w))"
  using trail_run [OF assms] unfolding trail_of_def fst_conv snd_conv by blast

theorem concurrent_audit_trail_witness:
  "\<exists>ws. al_file (gw_audit (sh_gateway (snd demo_end))) = audit_lines ''redacted'' ws \<and>
    fst ` set ws = {0, 1} \<and> distinct (map fst ws)"
proof -
  have "\<forall>(i, sig) \<in> set demo_signals. undisturbed sig" by (simp add: demo_signals_def)
  moreover have "al_file (gw_audit demo_gateway) = []" "al_redaction_mode (gw_audit demo_gateway) = ''redacted''" "known_mode ''redacted''"
    by (simp_all add: demo_gateway_def make_logger_def known_mode_def)
  ultimately obtain ws where ws: "al_file (gw_audit (sh_gateway (snd demo_end))) = audit_lines ''redacted'' ws"
    "distinct (map fst ws)" "\<forall>i. i \<in> fst ` set ws \<longleftrightarrow> i < length (fst demo_end) \<and> recorded (fst demo_end ! i)"
    using concurrent_audit_trail [OF demo_run] by auto
  note three = demo_facts(2)
  have both: "recorded (fst demo_end ! i)" if "i < 2" for i
    using demo_facts(4,5) [of i] that by (auto simp: recorded_def)
  have "\<not> recorded (fst demo_end ! 2)" using demo_facts(6) by (auto simp: recorded_def)
  then have "i \<in> fst ` set ws \<longleftrightarrow> i < 2" for i
    using ws(3) [unfolded three] both [of i] by (cases "i = 2") (auto simp: not_less)
  then have "fst ` set ws = {0, 1}" by (simp add: set_eq_iff less_2_cases_iff)
  with ws(1,2) show ?thesis by blast
qed

end
