(* ===== verification/BridgeSolo.thy ===== *)
theory BridgeSolo
  imports LoopProperties
begin

text \<open>
  The handler as one function is the event loop with one task: from every point, the loop can go on to
  the end that the remaining stages of \<open>handle_call_tool\<close> compute, if the signals are what the call's
  environment says. So what is proved of \<open>handle_call_tool\<close> holds of a call that runs alone.
\<close>

subsection \<open>One task\<close>

definition solo_state :: "call_env \<Rightarrow> call_params \<Rightarrow> point \<times> call_state \<Rightarrow> loop_state" where
  "solo_state E params ps =
     ([\<lparr>tk_env = E, tk_params = params, tk_locals = st_lo (snd ps), tk_point = fst ps\<rparr>],
      \<lparr>sh_gateway = st_gw (snd ps), sh_limiter = st_cl (snd ps), sh_cache_lock = False, sh_log_lock = False\<rparr>)"

text \<open>From a point to the end with a given result, gateway and limiter.\<close>

definition reaches ::
  "bridge_config \<Rightarrow> call_env \<Rightarrow> call_params \<Rightarrow> point \<times> call_state \<Rightarrow> call_result res \<times> call_state \<Rightarrow> bool" where
  "reaches C E params ps rs \<longleftrightarrow>
     (\<exists>ls l. loop_run C ls (solo_state E params ps)
        (solo_state E params (Finished (fst rs), ((st_gw (snd rs), l), st_cl (snd rs)))))"

lemma loop_run_append: "loop_run C ls' u v \<Longrightarrow> loop_run C ls s u \<Longrightarrow> loop_run C (ls @ ls') s v"
proof (induction rule: loop_run.induct)
  case (run_snoc ls' s' u l v)
  then show ?case using loop_run.run_snoc [of C "ls @ ls'"] by simp
qed simp

lemma reaches_step:
  assumes "loop_exec C ls (solo_state E params ps) = Some (solo_state E params ps')" "reaches C E params ps' rs"
  shows "reaches C E params ps rs"
  using assms loop_exec_run loop_run_append unfolding reaches_def by blast

lemma reaches_finished: "reaches C E params (Finished r, s) (r, s)"
  unfolding reaches_def fst_conv snd_conv
  by (rule exI [of _ "[]"], rule exI [of _ "st_lo s"]) (simp add: loop_run.run_nil)

lemma reaches_finishedI: "fst ps = Finished r \<Longrightarrow> rs = (r, snd ps) \<Longrightarrow> reaches C E params ps rs"
  using reaches_finished [of C E params r "snd ps"] by (cases ps) simp

lemma reaches_same:
  "reaches C E params ps (r, s) \<Longrightarrow> st_gw s' = st_gw s \<Longrightarrow> st_cl s' = st_cl s \<Longrightarrow> reaches C E params ps (r, s')"
  by (simp add: reaches_def)

text \<open>The lock of the log is free and the write ends as the environment says.\<close>

definition after_write :: "call_env \<Rightarrow> emission \<Rightarrow> call_state \<Rightarrow> unit res \<times> call_state" where
  "after_write E em s =
     (case logger_emit (em_record em) (ce_write E (lo_writes (st_lo s))) (gw_audit (st_gw s)) of
        (res, lg) \<Rightarrow> (res, count_write (((st_gw s)\<lparr>gw_audit := lg\<rparr>, st_lo s), st_cl s)))"

lemma reaches_write:
  assumes "ce_principal E = Some p" "X = call_ctx E params p"
    and "reaches C E params (emission_over E X em (fst (after_write E em s)) (snd (after_write E em s))) rs"
  shows "reaches C E params (AtLog em, s) rs"
proof (rule reaches_step [OF _ assms(3)])
  show "loop_exec C [(0, TakeLock), (0, WriteEnds (ce_write E (lo_writes (st_lo s))))]
      (solo_state E params (AtLog em, s)) =
    Some (solo_state E params (emission_over E X em (fst (after_write E em s)) (snd (after_write E em s))))"
    using assms(1,2)
    by (simp add: solo_state_def task_step.simps list_step_def after_write_def task_ctx_def task_principal_def Let_def
        case_prod_beta)
qed

lemma emit_unless_apply:
  "emit_unless_emitted E X out s =
    (if lo_audit_emitted (st_lo s) then (Inr (), s) else emit E X out False None s)"
  by (simp add: emit_unless_emitted_def handler_simps)

lemma reaches_escape:
  assumes "ce_principal E = Some p" "X = call_ctx E params p"
  shows "reaches C E params (escape_to E X e s) (handle_escape E X e s)"
proof (cases "(e = Cancelled \<or> is_exception e) \<and> \<not> lo_audit_emitted (st_lo s)")
  case False
  then have "escape_to E X e s = (Finished (Inl e), s)" "handle_escape E X e s = (Inl e, s)"
    by (auto simp: escape_to_def handle_escape_def emit_unless_apply handler_simps)
  then show ?thesis by (simp add: reaches_finished)
next
  case True
  let ?out = "if e = Cancelled then OutcomeCancelled else InternalError"
  let ?r = "emit_record E X s ?out False None"
  have seq: "handle_escape E X e s = act_then (emit E X ?out False None) (act_raise e) s"
    using True by (auto simp: handle_escape_def emit_unless_apply act_then_apply split: sum.split)
  show ?thesis
  proof (cases "serialize (al_redaction_mode (gw_audit (st_gw s))) ?r")
    case (Inl e')
    then show ?thesis
      using True unfolding seq
      by (intro reaches_finishedI)
        (simp_all add: escape_to_def Let_def handler_simps emit_apply logger_emit_def count_reading_def count_write_def)
  next
    case (Inr line)
    let ?em = "\<lparr>em_record = ?r, em_slot = False, em_outer = True, em_after = Inl e\<rparr>"
    have "reaches C E params (AtLog ?em, count_reading s) (act_then (emit E X ?out False None) (act_raise e) s)"
      by (intro reaches_write [OF assms] reaches_finishedI)
        (auto simp: emission_over_def Let_def leave_slot_def after_write_def count_reading_def count_write_def
          handler_simps emit_apply case_prod_beta split: sum.split)
    then show ?thesis using True Inr unfolding seq by (simp add: escape_to_def Let_def)
  qed
qed


subsection \<open>The stages\<close>

text \<open>How \<open>try ... except\<close> around a stage goes on, inside the slot or not.\<close>

definition finish_try ::
  "call_env \<Rightarrow> call_context \<Rightarrow> bool \<Rightarrow> call_result res \<times> call_state \<Rightarrow> call_result res \<times> call_state" where
  "finish_try E X slot rs =
     (let s = leave_slot slot X (snd rs)
      in case fst rs of Inl e \<Rightarrow> handle_escape E X e s | Inr r \<Rightarrow> (Inr r, s))"

lemma reaches_over:
  assumes "ce_principal E = Some p" "X = call_ctx E params p" "\<not> em_outer em"
  shows "reaches C E params (emission_over E X em res s)
    (finish_try E X (em_slot em)
       (case res of Inl e \<Rightarrow> (Inl e, s)
        | Inr _ \<Rightarrow> (em_after em, ((st_gw s, (st_lo s)\<lparr>lo_audit_emitted := True\<rparr>), st_cl s))))"
proof -
  have "reaches C E params (escape_to E X e s') (handle_escape E X e s')" for e s'
    by (rule reaches_escape [OF assms(1,2)])
  then show ?thesis
    using assms(3)
    by (auto simp: emission_over_def finish_try_def Let_def reaches_finished split: sum.split)
qed

lemma reaches_start:
  assumes "ce_principal E = Some p" "X = call_ctx E params p"
  shows "reaches C E params (start_emission E X slot after out a c s)
    (finish_try E X slot (act_then (emit E X out a c) (\<lambda>s. (after, s)) s))"
proof -
  let ?r = "emit_record E X s out a c"
  let ?em = "\<lparr>em_record = ?r, em_slot = slot, em_outer = False, em_after = after\<rparr>"
  show ?thesis
  proof (cases "serialize (al_redaction_mode (gw_audit (st_gw s))) ?r")
    case (Inl e)
    have seq: "act_then (emit E X out a c) (\<lambda>s. (after, s)) s = (Inl e, count_write (count_reading s))"
      using Inl by (simp add: handler_simps emit_apply Let_def logger_emit_def count_reading_def count_write_def)
    from reaches_over [OF assms, of ?em C "Inl e" "count_write (count_reading s)"] show ?thesis
      unfolding seq using Inl by (simp add: start_emission_def Let_def)
  next
    case (Inr line)
    let ?w = "after_write E ?em (count_reading s)"
    have seq: "act_then (emit E X out a c) (\<lambda>s. (after, s)) s =
        (case fst ?w of Inl e \<Rightarrow> (Inl e, snd ?w)
         | Inr _ \<Rightarrow> (after, ((st_gw (snd ?w), (st_lo (snd ?w))\<lparr>lo_audit_emitted := True\<rparr>), st_cl (snd ?w))))"
      by (simp add: handler_simps emit_apply Let_def after_write_def count_reading_def count_write_def
          case_prod_beta split: sum.split)
    have "reaches C E params (emission_over E X ?em (fst ?w) (snd ?w))
        (finish_try E X slot (act_then (emit E X out a c) (\<lambda>s. (after, s)) s))"
      using reaches_over [OF assms, of ?em C "fst ?w" "snd ?w"] unfolding seq
      by (simp cong: sum.case_cong)
    from reaches_write [OF assms this] show ?thesis using Inr by (simp add: start_emission_def Let_def)
  qed
qed

lemma reaches_answer:
  assumes "ce_principal E = Some p" "X = call_ctx E params p"
  shows "reaches C E params (answer E X slot out a c res s)
    (finish_try E X slot (emit_and_return E X out a c res s))"
  using reaches_start [OF assms, of C slot "Inr (finalize (ce_correlation_id E) res)" out a c s]
  by (simp add: answer_def emit_and_return_def act_return_def)


lemma finish_try_simps [simp]:
  "finish_try E X slot (Inl e, s) = handle_escape E X e (leave_slot slot X s)"
  "finish_try E X slot (Inr r, s) = (Inr r, leave_slot slot X s)"
  by (simp_all add: finish_try_def Let_def)

lemma leave_slot_simps [simp]:
  "leave_slot False X s = s" "fst (leave_slot held X s) = fst s"
  by (simp_all add: leave_slot_def)

lemma finish_try_leave: "finish_try E X True (r, s) = finish_try E X False (r, leave_slot True X s)"
  by (cases r) simp_all

lemma reaches_reply:
  assumes "ce_principal E = Some p" "X = call_ctx E params p"
  shows "reaches C E params (seg_reply E X t reply s) (finish_try E X True (handle_reply E X t reply s))"
proof -
  let ?s = "snd (stop_upstream_timer E t s)"
  note answer = reaches_answer [OF assms, of C True _ True _ _ ?s]
  show ?thesis
  proof (cases reply)
    case (Inr result)
    then show ?thesis using answer by (simp add: seg_reply_def handle_reply_def Let_def act_then_apply)
  next
    case (Inl e)
    show ?thesis
    proof (cases e)
      case Cancelled
      then show ?thesis
        using Inl reaches_start [OF assms, of C True "Inl Cancelled" _ True _ ?s]
        by (simp add: seg_reply_def handle_reply_def Let_def act_then_apply [of "stop_upstream_timer E t"] act_raise_def)
    next
      case (BaseExc m)
      then show ?thesis
        using Inl reaches_escape [OF assms, of C "BaseExc m" "leave_slot True X s"]
        by (simp add: seg_reply_def handle_reply_def Let_def act_raise_def)
    qed (use Inl answer in \<open>simp_all add: seg_reply_def handle_reply_def Let_def act_then_apply\<close>)
  qed
qed

lemma reaches_calling:
  assumes "ce_principal E = Some p" "X = call_ctx E params p"
  shows "reaches C E params (Calling t, s)
    (finish_try E X True (handle_reply E X t (upstream_reply C E (cx_tool_name X) (cx_arguments X)) s))"
  (is "reaches C E params _ (finish_try E X True (handle_reply E X t ?reply s))")
proof (rule reaches_step [OF _ reaches_reply [OF assms]])
  show "loop_exec C [(0, ReplyArrives ?reply)] (solo_state E params (Calling t, s)) =
      Some (solo_state E params (seg_reply E X t ?reply s))"
    using assms by (simp add: solo_state_def task_step.simps list_step_def task_ctx_def task_principal_def Let_def)
qed

lemma reaches_forward:
  assumes "ce_principal E = Some p" "X = call_ctx E params p"
  shows "reaches C E params (seg_forward E X s)
    (finish_try E X False (with_slot (cx_principal X) (stage_forward C E X) s))"
proof (cases "slot_try_acquire (cx_principal X) (st_cl s)")
  case (Pair acquired cl)
  show ?thesis
  proof (cases acquired)
    case True
    let ?s = "(((st_gw s)\<lparr>gw_forwarded := gw_forwarded (st_gw s) @ [(cx_tool_name X, cx_arguments X)]\<rparr>,
      (st_lo s)\<lparr>lo_concurrency_result := Passed, lo_readings := Suc (lo_readings (st_lo s))\<rparr>), cl)"
    let ?t = "make_timer (ce_monotonic E (lo_readings (st_lo s)))"
    let ?r = "handle_reply E X ?t (upstream_reply C E (cx_tool_name X) (cx_arguments X)) ?s"
    have "seg_forward E X s = (Calling ?t, ?s)"
      using Pair True by (simp add: seg_forward_def Let_def handler_simps count_reading_def)
    moreover have "with_slot (cx_principal X) (stage_forward C E X) s = (fst ?r, leave_slot True X (snd ?r))"
      using Pair True by (simp add: with_slot_apply Let_def stage_forward_def handler_simps leave_slot_def)
    ultimately show ?thesis
      using reaches_calling [OF assms, of C ?t ?s] finish_try_leave [of E X "fst ?r" "snd ?r"] by simp
  next
    case False
    let ?s = "((st_gw s, (st_lo s)\<lparr>lo_concurrency_result := Failed\<rparr>), cl)"
    have "with_slot (cx_principal X) (stage_forward C E X) s =
        emit_and_return E X ConcurrencyRejected False None (concurrency_rejected_result (cx_tool_name X)) ?s"
      using Pair False by (simp add: with_slot_apply Let_def stage_forward_def handler_simps)
    then show ?thesis
      using Pair False reaches_answer [OF assms, of C False ConcurrencyRejected False None _ ?s]
      by (simp add: seg_forward_def handler_simps)
  qed
qed

lemma reaches_arguments:
  assumes "ce_principal E = Some p" "X = call_ctx E params p"
  shows "reaches C E params (seg_arguments C E X tp t s) (finish_try E X False (stage_arguments C E X tp t s))"
  using reaches_answer [OF assms, of C False PolicyDenied False None] reaches_forward [OF assms, of C]
  by (simp add: seg_arguments_def stage_arguments_def Let_def handler_simps stop_policy_timer_def
      split: option.split)

lemma reaches_deny:
  assumes "ce_principal E = Some p" "X = call_ctx E params p"
  shows "reaches C E params (seg_deny E X s) (finish_try E X False (deny_as_unknown E X s))"
  using reaches_answer [OF assms, of C False PolicyDenied False None]
  by (simp add: seg_deny_def deny_as_unknown_def handler_simps)


lemma reaches_tools:
  assumes "ce_principal E = Some p" "X = call_ctx E params p"
  shows "reaches C E params (seg_tools C E X tp tools s)
    (finish_try E X False
      ((case find (\<lambda>t. tl_name t = cx_tool_name X) tools of
          None \<Rightarrow> deny_as_unknown E X
        | Some ut \<Rightarrow> stage_schema C E X tp ut) s))"
proof (cases "find (\<lambda>t. tl_name t = cx_tool_name X) tools")
  case None
  then show ?thesis using reaches_deny [OF assms] by (simp add: seg_tools_def)
next
  case (Some ut)
  show ?thesis
  proof (cases "validate_input_schema (bc_js C) (tl_input_schema ut) (cx_arguments X)")
    case (Inl e)
    then show ?thesis
      using Some reaches_escape [OF assms, of C e "count_reading s"]
      by (simp add: seg_tools_def stage_schema_def Let_def handler_simps count_reading_def)
  next
    case (Inr violation)
    show ?thesis
    proof (cases violation)
      case None
      let ?s = "snd (set_local (\<lambda>l. l\<lparr>lo_schema_result := Passed\<rparr>) (count_reading s))"
      show ?thesis
        using Some Inr None
          reaches_arguments [OF assms, of C tp "make_timer (ce_monotonic E (lo_readings (st_lo s)))" ?s]
        by (simp add: seg_tools_def stage_schema_def Let_def handler_simps count_reading_def)
    next
      case (Some reason)
      with \<open>find _ _ = Some ut\<close> Inr show ?thesis
        using reaches_answer [OF assms, of C False SchemaRejected False None]
        by (simp add: seg_tools_def stage_schema_def Let_def handler_simps stop_policy_timer_def count_reading_def)
    qed
  qed
qed

lemma reaches_cache:
  assumes "ce_principal E = Some p" "X = call_ctx E params p"
  shows "reaches C E params (AtCache tp, s)
    (finish_try E X False
      (act_bind (get_tools E) (\<lambda>tools.
         case find (\<lambda>t. tl_name t = cx_tool_name X) tools of
           None \<Rightarrow> deny_as_unknown E X
         | Some ut \<Rightarrow> stage_schema C E X tp ut) s))"
    (is "reaches C E params _ (finish_try E X False (act_bind _ ?rest s))")
proof (cases "gw_cache (st_gw s)")
  case (Some tools)
  obtain g l cl where s: "s = ((g, l), cl)" by (metis prod.exhaust)
  have "get_tools E s = (Inr tools, s)"
    using Some by (cases g) (simp add: s get_tools_def cache_get_def)
  then have seq: "act_bind (get_tools E) ?rest s = ?rest tools s" by (simp add: act_bind_apply)
  show ?thesis
    unfolding seq
    by (rule reaches_step [of C "[(0, TakeLock)]", OF _ reaches_tools [OF assms, of C tp tools s]])
      (use assms Some in \<open>simp add: solo_state_def task_step.simps list_step_def task_ctx_def task_principal_def Let_def\<close>)
next
  case None
  let ?g = "(st_gw s)\<lparr>gw_fetches := Suc (gw_fetches (st_gw s))\<rparr>"
  show ?thesis
  proof (cases "ce_list_tools E")
    case (Inl e)
    have seq: "finish_try E X False (act_bind (get_tools E) ?rest s) =
        handle_escape E X e ((?g, st_lo s), st_cl s)"
    proof -
      have same: "(st_gw s)\<lparr>gw_cache := None, gw_fetches := n\<rparr> = (st_gw s)\<lparr>gw_fetches := n\<rparr>" for n
        using None by (cases "st_gw s") simp
      show ?thesis
        by (simp add: None Inl handler_simps Let_def cache_get_def) (simp only: same)
    qed
    show ?thesis
      unfolding seq
      by (rule reaches_step [of C "[(0, TakeLock), (0, ToolsArrive (Inl e))]",
            OF _ reaches_escape [OF assms, of C e "((?g, st_lo s), st_cl s)"]])
        (use assms None in \<open>simp add: solo_state_def task_step.simps list_step_def task_ctx_def task_principal_def Let_def\<close>)
  next
    case (Inr tools)
    let ?s = "((?g\<lparr>gw_cache := Some tools\<rparr>, st_lo s), st_cl s)"
    have swap: "g\<lparr>gw_cache := c, gw_fetches := n\<rparr> = g\<lparr>gw_fetches := n, gw_cache := c\<rparr>" for g :: gateway and c n
      by (cases g) simp
    have seq: "act_bind (get_tools E) ?rest s = ?rest tools ?s"
      by (simp add: None Inr handler_simps Let_def cache_get_def) (simp only: swap)
    show ?thesis
      unfolding seq
      by (rule reaches_step [of C "[(0, TakeLock), (0, ToolsArrive (Inr tools))]",
            OF _ reaches_tools [OF assms, of C tp tools ?s]])
        (use assms None in \<open>simp add: solo_state_def task_step.simps list_step_def task_ctx_def task_principal_def Let_def\<close>)
  qed
qed

lemma reaches_begin:
  assumes "ce_principal E = Some p" "X = call_ctx E params p"
  shows "reaches C E params (seg_begin C E X s) (run_call C E X s)"
proof -
  have run: "run_call C E X s = finish_try E X False (stage_rate C E X s)"
    by (cases "fst (stage_rate C E X s)") (simp_all add: run_call_def act_try_apply finish_try_def Let_def)
  obtain ok s1 where token: "acquire_token E X s = (ok, s1)" by (metis prod.exhaust)
  show ?thesis
  proof (cases ok)
    case (Inl e)
    then show ?thesis
      using token reaches_escape [OF assms, of C e s1]
      unfolding run by (simp add: seg_begin_def stage_rate_def act_bind_apply)
  next
    case (Inr granted)
    show ?thesis
    proof (cases granted)
      case False
      then show ?thesis
        using token Inr reaches_answer [OF assms, of C False RateLimited False None _ s1]
        unfolding run by (simp add: seg_begin_def stage_rate_def act_bind_apply)
    next
      case True
      then show ?thesis
        using token Inr reaches_deny [OF assms, of C] reaches_cache [OF assms, of C]
        unfolding run
        by (simp add: seg_begin_def stage_rate_def stage_authorize_def Let_def act_bind_apply [of "acquire_token E X"]
            act_then_apply act_simps split: option.split)
    qed
  qed
qed

text \<open>One call, and one \<open>tools/list\<close>.\<close>

lemma call_is_one_task:
  "\<exists>ls t sh. loop_run C ls (start_loop [(E, params)] [] st) ([t], sh) \<and>
     tk_point t = Finished (fst (handle_call_tool C E params st)) \<and>
     (sh_gateway sh, sh_limiter sh) = snd (handle_call_tool C E params st)"
proof -
  let ?start = "((fst st, initial_locals), snd st)"
  have start: "start_loop [(E, params)] [] st = solo_state E params (Ready, ?start)"
    by (simp add: start_loop_def new_task_def solo_state_def)
  have "reaches C E params (Ready, ?start)
    (fst (handle_call_tool C E params st),
     ((fst (snd (handle_call_tool C E params st)), initial_locals), snd (snd (handle_call_tool C E params st))))"
  proof (cases "ce_principal E")
    case None
    then obtain e where e: "current_principal None = Inl e" "handle_call_tool C E params st = (Inl e, st)"
      by (simp add: handle_call_tool_def current_principal_def case_prod_beta)
    have "reaches C E params (Ready, ?start) (Inl e, ?start)"
      by (rule reaches_step [of C "[(0, Begin)]", OF _ reaches_finished])
        (simp add: e(1) None solo_state_def task_step.simps list_step_def)
    then show ?thesis unfolding e(2) fst_conv snd_conv by (rule reaches_same) simp_all
  next
    case (Some p)
    let ?X = "call_ctx E params p" and ?s = "((fst st, initial_locals\<lparr>lo_readings := 1\<rparr>), snd st)"
    let ?r = "run_call C E ?X ?s"
    have seq: "handle_call_tool C E params st = (fst ?r, (st_gw (snd ?r), st_cl (snd ?r)))"
      using Some by (simp add: handle_call_tool_def current_principal_def case_prod_beta)
    have "reaches C E params (seg_begin C E ?X ?s) (fst ?r, snd ?r)"
      using reaches_begin [OF Some refl, of C params ?s] by simp
    then have "reaches C E params (Ready, ?start) (fst ?r, snd ?r)"
      by (intro reaches_step [of C "[(0, Begin)]" E params "(Ready, ?start)"])
        (auto simp: Some solo_state_def task_step.simps list_step_def current_principal_def task_ctx_def task_principal_def Let_def)
    then show ?thesis unfolding seq fst_conv snd_conv by (rule reaches_same) simp_all
  qed
  then show ?thesis unfolding start reaches_def by (fastforce simp: solo_state_def)
qed

definition list_signals :: "call_env \<Rightarrow> gateway_state \<Rightarrow> (nat \<times> signal) list" where
  "list_signals E st =
     (if ce_principal E = None then [(0, Begin)]
      else if gw_cache (fst st) = None then [(0, Begin), (0, TakeLock), (0, ToolsArrive (ce_list_tools E))]
      else [(0, Begin), (0, TakeLock)])"

lemma list_is_one_task:
  "\<exists>ls t sh. loop_run C ls (start_loop [] [E] st) ([t], sh) \<and>
     tk_point t = Listed (fst (handle_list_tools C E st)) \<and>
     (sh_gateway sh, sh_limiter sh) = snd (handle_list_tools C E st)"
proof -
  obtain g cl where st: "st = (g, cl)" by (cases st)
  have "\<exists>t sh. loop_exec C (list_signals E st) (start_loop [] [E] st) = Some ([t], sh) \<and>
     tk_point t = Listed (fst (handle_list_tools C E st)) \<and>
     (sh_gateway sh, sh_limiter sh) = snd (handle_list_tools C E st)"
    unfolding st
    by (cases "ce_principal E"; cases "gw_cache g"; cases "ce_list_tools E")
      (auto simp: list_signals_def start_loop_def new_list_def task_step.simps list_step_def handle_list_tools_def
        current_principal_def get_tools_def cache_get_def listed_tools_def task_principal_def Let_def)
  then show ?thesis using loop_exec_run by blast
qed


end
