(* ===== verification/FloatText.thy ===== *)
theory FloatText
  imports AuditLog
begin

text \<open>
  Decimal text of binary64 numbers. The library prints a float as the shortest decimal that reads
  back; this theory shows that it does read back: a number within \<open>2 ^ -54\<close> of a float, relative to
  it, rounds to it, so one of the two candidates with seventeen digits always does.
\<close>

subsection \<open>Numbers near a float round to it\<close>

lemma f64_exponent_mono: "0 < x \<Longrightarrow> x \<le> y \<Longrightarrow> f64_exponent x \<le> f64_exponent y"
  using ilog2_mono [of x y] by (simp add: f64_exponent_def max_def)

lemma round_half_even_near:
  assumes "\<bar>q - of_int m\<bar> < 1 / 2"
  shows "round_half_even q = m"
proof -
  have "of_int (round_half_even q) < of_int m + (1::rat)" "of_int m < of_int (round_half_even q) + (1::rat)"
    using round_half_even_bounds [of q] assms by linarith+
  then have "rat_of_int (round_half_even q) < of_int (m + 1)" "rat_of_int m < of_int (round_half_even q + 1)" by simp_all
  then show ?thesis by (simp only: of_int_less_iff)
qed

text \<open>The mantissa of a positive float is below \<open>2 ^ 53\<close>.\<close>

lemma f64_mantissa:
  assumes "rnd64 x = x" "0 < x"
  obtains m where "x = of_int m * 2 powi f64_exponent x" "0 < m" "m < 2 ^ 53"
proof
  let ?e = "f64_exponent x" and ?m = "round_half_even (x / 2 powi f64_exponent x)"
  show m: "x = of_int ?m * 2 powi ?e" using assms by (simp add: rnd64_def)
  then have "0 < rat_of_int ?m * 2 powi ?e" using assms(2) by simp
  then have "0 < rat_of_int ?m" using powi_pos [of ?e] zero_less_mult_pos2 by blast
  then show "0 < ?m" by simp
  have "x < 2 powi (ilog2 x + 1)" using ilog2_bounds [OF assms(2)] by simp
  also have "\<dots> \<le> 2 powi (53 + ?e)" using assms(2) by (simp only: powi_le_iff) (simp add: f64_exponent_def)
  also have "\<dots> = 2 ^ 53 * 2 powi ?e" by (simp only: powi_add) simp
  finally have "of_int ?m * 2 powi ?e < of_int (2 ^ 53) * (2::rat) powi ?e" using m by simp
  then have "rat_of_int ?m < of_int (2 ^ 53)" by (rule mult_right_less_imp_less) (simp add: less_imp_le)
  then show "?m < 2 ^ 53" by (simp only: of_int_less_iff)
qed

lemma rnd64_near:
  assumes "rnd64 x = x" "0 < x" "\<bar>y - x\<bar> * 2 ^ 54 < x"
  shows "rnd64 y = x"
proof -
  define e where "e = f64_exponent x"
  let ?e' = "f64_exponent y" and ?L = "ilog2 x"
  obtain m where m: "x = of_int m * 2 powi e" "0 < m" "m < 2 ^ 53"
    unfolding e_def by (rule f64_mantissa [OF assms(1,2)])
  have y: "0 < y" "x < 2 * y" using assms(2,3) by (simp_all add: abs_if split: if_splits)
  have m53: "rat_of_int m \<le> 2 ^ 53 - 1" using m(3) of_int_le_iff [of m "2 ^ 53 - 1", where 'a = rat] by simp
  have "x \<le> (2 ^ 53 - 1) * 2 powi e" unfolding m(1) using m53 by (intro mult_right_mono) simp_all
  then have x53: "x < 2 ^ 53 * 2 powi e" "x + 2 powi e \<le> 2 ^ 53 * 2 powi e"
    using powi_pos [of e] unfolding left_diff_distrib by linarith+
  have near: "\<bar>y - x\<bar> < 2 powi e / 2" using assms(3) x53(1) by simp
  have le: "?e' \<le> e"
  proof (cases "y \<le> x")
    case False
    have "y < 2 ^ 53 * 2 powi e" using near x53(2) powi_pos [of e] by linarith
    also have "\<dots> = 2 powi (53 + e)" by (simp only: powi_add) simp
    finally have "ilog2 y < 53 + e" using ilog2_less_iff y(1) by blast
    then show ?thesis using y(1) f64_exponent_ge [of x] by (simp add: f64_exponent_def e_def)
  qed (use f64_exponent_mono y in \<open>simp add: e_def\<close>)
  have big: "x \<le> 2 powi (?e' + 53)"
  proof (cases "?e' = e")
    case True
    then show ?thesis using x53(1) by (simp add: powi_add mult.commute)
  next
    case False
    have e: "e = ?L - 52" and yL: "ilog2 y < ?L"
      using False le assms(2) y(1) by (auto simp: f64_exponent_def e_def)
    then have yL: "y < 2 powi ?L" using ilog2_less_iff y(1) by blast
    have L: "(2::rat) powi ?L = 2 ^ 52 * 2 powi e" using powi_add [of 52 e] e by simp
    have "m \<le> 2 ^ 52"
    proof (rule ccontr)
      assume "\<not> m \<le> 2 ^ 52"
      then have "rat_of_int (2 ^ 52 + 1) \<le> of_int m" by (simp only: of_int_le_iff)
      then have "rat_of_int (2 ^ 52 + 1) * 2 powi e \<le> x" by (subst m(1)) (intro mult_right_mono, simp_all)
      then have "2 powi ?L + 2 powi e \<le> x" using L by (simp add: algebra_simps)
      then show False using near yL powi_pos [of e] by linarith
    qed
    then have "rat_of_int m \<le> of_int (2 ^ 52)" by (simp only: of_int_le_iff)
    then have "x \<le> of_int (2 ^ 52) * 2 powi e" by (subst m(1)) (intro mult_right_mono, simp_all)
    then have "x \<le> 2 powi ?L" using L by simp
    moreover have "2 powi (?L - 1) \<le> y"
      using y(2) ilog2_bounds(1) [OF assms(2)] by (simp add: powi_diff)
    then have "?L - 1 \<le> ilog2 y" using ilog2_ge_iff y(1) by blast
    then have "?L \<le> ?e' + 53" using y(1) by (simp add: f64_exponent_def)
    then have "(2::rat) powi ?L \<le> 2 powi (?e' + 53)" by (simp only: powi_le_iff)
    ultimately show ?thesis by linarith
  qed
  let ?K = "m * 2 ^ nat (e - ?e')"
  have xK: "x = of_int ?K * 2 powi ?e'"
    using le powi_nat [of "e - ?e'"] powi_add [of "e - ?e'" ?e'] by (subst m(1)) simp
  have "\<bar>y - x\<bar> * 2 ^ 54 < 2 ^ 53 * 2 powi ?e'"
    using assms(3) big by (simp add: powi_add mult.commute)
  then have "\<bar>y - x\<bar> < 2 powi ?e' / 2" by simp
  then have "\<bar>y / 2 powi ?e' - of_int ?K\<bar> < 1 / 2"
    using powi_pos [of ?e'] by (subst (asm) xK) (simp add: abs_if field_simps split: if_splits)
  then have "round_half_even (y / 2 powi ?e') = ?K" by (rule round_half_even_near)
  then have "rnd64 y = of_int ?K * 2 powi ?e'" using y(1) by (simp only: rnd64_def) simp
  then show ?thesis using xK by simp
qed


subsection \<open>Digits\<close>

definition is_digit :: "char \<Rightarrow> bool" where
  "is_digit c = (48 \<le> (of_char c :: nat) \<and> (of_char c :: nat) \<le> 57)"

definition digits_value :: "string \<Rightarrow> int" where
  "digits_value ds = foldl (\<lambda>n c. 10 * n + (int (of_char c) - 48)) 0 ds"

lemma digits_value_snoc: "digits_value (ds @ [c]) = 10 * digits_value ds + (int (of_char c) - 48)"
  by (simp add: digits_value_def)

lemma digits_value_append: "digits_value (a @ b) = digits_value a * 10 ^ length b + digits_value b"
proof (induction b rule: rev_induct)
  case (snoc c b)
  then show ?case by (simp add: digits_value_snoc algebra_simps flip: append_assoc)
qed (simp add: digits_value_def)

lemma digits_value_zeros: "digits_value (ds @ zeros n) = digits_value ds * 10 ^ n"
proof -
  have "digits_value (zeros n) = 0"
    by (induction n) (simp_all add: zeros_def digits_value_def)
  then show ?thesis by (simp add: digits_value_append zeros_def)
qed

lemma decimal_digit:
  assumes "0 \<le> d" "d < 10"
  shows "int (of_char (char_of (48 + nat d) :: char)) = 48 + d" "is_digit (char_of (48 + nat d))"
    "char_of (48 + nat d) = CHR ''0'' \<longleftrightarrow> d = 0"
proof -
  have c: "(of_char (char_of (48 + nat d) :: char) :: nat) = 48 + nat d" using assms by simp
  then show "int (of_char (char_of (48 + nat d) :: char)) = 48 + d" using assms by simp
  show "is_digit (char_of (48 + nat d))" using c assms by (simp only: is_digit_def) simp
  have "(of_char (CHR ''0'') :: nat) = 48" by simp
  then show "char_of (48 + nat d) = CHR ''0'' \<longleftrightarrow> d = 0"
    using c assms by (metis add.right_neutral add_left_cancel nat_0_iff nle_le of_char_eq_iff)
qed

lemma nat_digits_props:
  assumes "0 \<le> n"
  shows "digits_value (nat_digits n) = n \<and> list_all is_digit (nat_digits n) \<and> nat_digits n \<noteq> [] \<and>
    (0 < n \<longrightarrow> hd (nat_digits n) \<noteq> CHR ''0'' \<and> 10 ^ (length (nat_digits n) - 1) \<le> n) \<and> n < 10 ^ length (nat_digits n)"
  using assms
proof (induction n rule: nat_digits.induct)
  case (1 n)
  show ?case
  proof (cases "n < 10")
    case True
    then have "nat_digits n = [char_of (48 + nat n)]" by (subst nat_digits.simps) simp
    then show ?thesis using True 1(2) decimal_digit [of n]
      by (simp add: digits_value_def del: of_char_of)
  next
    case False
    let ?q = "n div 10" and ?r = "n mod 10"
    have d: "nat_digits n = nat_digits ?q @ [char_of (48 + nat ?r)]" using False by (subst nat_digits.simps) simp
    have q: "0 < ?q" "n = 10 * ?q + ?r" "0 \<le> ?r" "?r < 10" using False by simp_all
    from 1(1) [OF False] q(1) have ih: "digits_value (nat_digits ?q) = ?q" "list_all is_digit (nat_digits ?q)"
      "nat_digits ?q \<noteq> []" "hd (nat_digits ?q) \<noteq> CHR ''0''" "10 ^ (length (nat_digits ?q) - 1) \<le> ?q"
      "?q < 10 ^ length (nat_digits ?q)" by simp_all
    have len: "length (nat_digits ?q) = Suc (length (nat_digits ?q) - 1)" using ih(3) by simp
    have "(10::int) ^ length (nat_digits ?q) \<le> n" using ih(5) q by (subst len) simp
    moreover have up: "n < 10 * 10 ^ length (nat_digits ?q)" using ih(6) q by linarith
    ultimately show ?thesis
      using ih q decimal_digit [of ?r] by (simp add: d digits_value_snoc del: of_char_of) (rule up)
  qed
qed


subsection \<open>The decimal exponent\<close>

lemma pow10_pos [simp]: "0 < pow10 e"
  by (simp add: pow10_def)

lemma pow10_eq: "pow10 e = 10 powi e"
  by (simp add: pow10_def power_int_def power_one_over inverse_eq_divide)

lemma pow10_add: "pow10 (a + b) = pow10 a * pow10 b"
  by (simp add: pow10_eq power_int_add)

lemma pow10_nat [simp]: "pow10 (int n) = 10 ^ n"
  by (simp add: pow10_def)

lemma pow10_minus: "pow10 (- e) = 1 / pow10 e"
  by (simp add: pow10_eq power_int_minus divide_inverse)

lemma pow10_1 [simp]: "pow10 1 = 10" and pow10_0 [simp]: "pow10 0 = 1"
  by (simp_all add: pow10_def)

lemma dec_exponent_bounds:
  assumes "0 < x"
  shows "pow10 (dec_exponent x) \<le> x" "x < pow10 (dec_exponent x + 1)"
proof -
  have "pow10 (dec_exponent x) \<le> x \<and> x < pow10 (dec_exponent x + 1)"
  proof (cases "1 \<le> x")
    case True
    then have n: "0 < \<lfloor>x\<rfloor>" by simp
    let ?l = "length (nat_digits \<lfloor>x\<rfloor>)"
    have p: "(10::int) ^ (?l - 1) \<le> \<lfloor>x\<rfloor>" "\<lfloor>x\<rfloor> < 10 ^ ?l" "nat_digits \<lfloor>x\<rfloor> \<noteq> []"
      using nat_digits_props [of "\<lfloor>x\<rfloor>"] n by simp_all
    then have "dec_exponent x = int (?l - 1)" "dec_exponent x + 1 = int ?l"
      using True by (simp_all add: dec_exponent_def of_nat_diff Suc_leI)
    moreover have "(10::rat) ^ (?l - 1) \<le> x" using p(1) by (simp add: le_floor_iff)
    moreover have "x < 10 ^ ?l" using p(2) by (simp add: floor_less_iff)
    ultimately show ?thesis by (simp only: pow10_nat)
  next
    case False
    let ?k = "\<lceil>1 / x\<rceil> - 1"
    let ?l = "length (nat_digits ?k)"
    have "1 < 1 / x" using False assms by simp
    then have k: "0 < ?k" by (simp add: less_ceiling_iff)
    have p: "(10::int) ^ (?l - 1) \<le> ?k" "?k < 10 ^ ?l" "nat_digits ?k \<noteq> []"
      using nat_digits_props [OF less_imp_le [OF k]] k by blast+
    then have e: "dec_exponent x = - int ?l" "dec_exponent x + 1 = - int (?l - 1)"
      using False by (simp_all add: dec_exponent_def of_nat_diff Suc_leI)
    have "1 / x \<le> of_int \<lceil>1 / x\<rceil>" by simp
    also have "\<dots> \<le> of_int (10 ^ ?l)" using p(2) by (simp only: of_int_le_iff)
    finally have "1 / x \<le> 10 ^ ?l" by simp
    moreover have "rat_of_int (10 ^ (?l - 1)) \<le> of_int ?k" using p(1) by (simp only: of_int_le_iff)
    then have "10 ^ (?l - 1) < 1 / x" by simp linarith
    ultimately have "pow10 (dec_exponent x) \<le> x" "x < pow10 (dec_exponent x + 1)"
      unfolding e(2) using assms by (simp_all add: e(1) pow10_minus field_simps)
    then show ?thesis by blast
  qed
  then show "pow10 (dec_exponent x) \<le> x" "x < pow10 (dec_exponent x + 1)" by blast+
qed


subsection \<open>Seventeen digits suffice\<close>

lemma f_round_near:
  assumes "f64_valid (Fin x)" "0 < x" "\<bar>y - x\<bar> * 2 ^ 54 < x"
  shows "f_round y = Fin x"
  using assms rnd64_near [of x y] by (simp add: f64_valid_def f_round_def Let_def)

lemma candidate_17:
  assumes "f64_valid (Fin x)" "0 < x"
  shows "decimal_candidate x 17 \<noteq> None"
proof -
  let ?s = "dec_exponent x - 17 + 1"
  let ?p = "pow10 ?s" and ?lo = "\<lfloor>x / pow10 ?s\<rfloor>"
  have "?p * 10 ^ 16 = pow10 (dec_exponent x)" using pow10_add [of ?s 16] pow10_nat [of 16] by simp
  then have p: "?p * 10 ^ 16 \<le> x" using dec_exponent_bounds(1) [OF assms(2)] by simp
  have lo: "of_int ?lo * ?p \<le> x" "x < (of_int ?lo + 1) * ?p"
    using floor_correct [of "x / ?p"] by (simp_all add: pos_le_divide_eq [symmetric] pos_divide_less_eq [symmetric])
  have "f_round (of_int ?lo * ?p) = Fin x \<or> f_round (of_int (?lo + 1) * ?p) = Fin x"
  proof (cases "x - of_int ?lo * ?p \<le> ?p / 2")
    case True
    then have "\<bar>of_int ?lo * ?p - x\<bar> * 2 ^ 54 < x" using lo(1) p assms(2) by (simp add: abs_if)
    then show ?thesis using f_round_near [OF assms] by blast
  next
    case False
    then have "\<bar>of_int (?lo + 1) * ?p - x\<bar> * 2 ^ 54 < x" using lo(2) p assms(2) by (simp add: abs_if algebra_simps)
    then show ?thesis using f_round_near [OF assms] by blast
  qed
  then show ?thesis by (auto simp: decimal_candidate_def Let_def)
qed

lemma first_some_Some: "first_some f xs = Some y \<Longrightarrow> \<exists>x\<in>set xs. f x = Some y"
  by (induction xs) (auto split: option.splits)

lemma first_some_None: "first_some f xs = None \<Longrightarrow> x \<in> set xs \<Longrightarrow> f x = None"
  by (induction xs) (auto split: option.splits)

lemma shortest_decimal_reads:
  assumes "f64_valid (Fin x)" "0 < x" "shortest_decimal x = (m, s)"
  shows "f_round (of_int m * pow10 s) = Fin x" "0 < m"
proof -
  have "first_some (decimal_candidate x) [1..<18] \<noteq> None"
    using first_some_None [of "decimal_candidate x" "[1..<18]" 17] candidate_17 [OF assms(1,2)] by force
  then obtain n where "decimal_candidate x n = Some (m, s)"
    using assms(3) first_some_Some [of "decimal_candidate x" "[1..<18]"] by (auto simp: shortest_decimal_def)
  then show r: "f_round (of_int m * pow10 s) = Fin x"
    by (auto simp: decimal_candidate_def Let_def split: if_splits)
  show "0 < m"
  proof (rule ccontr)
    assume "\<not> 0 < m"
    then have "rat_of_int m * pow10 s \<le> 0" by (simp add: mult_nonpos_nonneg less_imp_le)
    then have "rnd64 (of_int m * pow10 s) \<le> 0" using rnd64_mono [of "of_int m * pow10 s" 0] by simp
    then show False using r assms(2) by (auto simp: f_round_def Let_def split: if_splits)
  qed
qed

end
