(* ===== verification/JsonReader.thy ===== *)
theory JsonReader
  imports FloatText
begin

text \<open>
  \<open>json.loads\<close> of the standard library, which the benchmark uses to read the audit log, and the
  round trip with the \<open>json.dumps\<close> of AuditLog: what the log holds can be read back, floats and escaped
  text included. The parser descends with fuel twice the length of the text; \<open>json_loads_total\<close> shows
  that the fuel is never used up. Code points above 255 in an escape are outside the model of text,
  and the limits of the interpreter (on nesting, and of 4300 digits for an integer) are not modelled.
\<close>

subsection \<open>json.loads\<close>

definition json_error :: "string \<Rightarrow> exn" where
  "json_error m = Exc ''JSONDecodeError'' m"

text \<open>What the code points of the model cannot represent, and the bound on the recursion.\<close>

definition beyond_model :: exn where
  "beyond_model = Exc ''BeyondModel'' ''a code point above 255''"

definition recursion_error :: exn where
  "recursion_error = Exc ''RecursionError'' ''''"

definition skip_ws :: "string \<Rightarrow> string" where
  "skip_ws s = dropWhile (\<lambda>c. c \<in> {CHR '' '', CHR 0x09, CHR 0x0A, CHR 0x0D}) s"

text \<open>\<open>-?(0|[1-9][0-9]*)(\.[0-9]+)?([eE][-+]?[0-9]+)?\<close>, group by group.\<close>

definition int_run :: "string \<Rightarrow> (string \<times> string) option" where
  "int_run s =
     (case s of
        [] \<Rightarrow> None
      | c # cs \<Rightarrow>
          if c = CHR ''0'' then Some ([c], cs)
          else if is_digit c then Some (takeWhile is_digit s, dropWhile is_digit s) else None)"

definition frac_run :: "string \<Rightarrow> string \<times> string" where
  "frac_run s =
     (case s of
        c # d # _ \<Rightarrow>
          if c = CHR ''.'' \<and> is_digit d then (takeWhile is_digit (tl s), dropWhile is_digit (tl s)) else ([], s)
      | _ \<Rightarrow> ([], s))"

definition exp_run :: "string \<Rightarrow> int option \<times> string" where
  "exp_run s =
     (case s of
        [] \<Rightarrow> (None, s)
      | c # cs \<Rightarrow>
          if c = CHR ''e'' \<or> c = CHR ''E'' then
            (let minus = (take 1 cs = ''-'');
                 ds = (if minus \<or> take 1 cs = ''+'' then tl cs else cs);
                 v = digits_value (takeWhile is_digit ds)
             in if takeWhile is_digit ds = [] then (None, s)
                else (Some (if minus then - v else v), dropWhile is_digit ds))
          else (None, s))"

definition json_number :: "string \<Rightarrow> (pyval \<times> string) res" where
  "json_number s =
     (let minus = (take 1 s = ''-'') in
      case int_run (if minus then tl s else s) of
        None \<Rightarrow> Inl (json_error ''Expecting value'')
      | Some (ip, s1) \<Rightarrow>
          (case frac_run s1 of (fp, s2) \<Rightarrow>
             (case exp_run s2 of (ev, s3) \<Rightarrow>
                if fp = [] \<and> ev = None
                then Inr (PInt (if minus then - digits_value ip else digits_value ip), s3)
                else
                  (let q = of_int (digits_value (ip @ fp)) * pow10 ((case ev of None \<Rightarrow> 0 | Some e \<Rightarrow> e) - int (length fp))
                   in Inr (PFloat (if minus then f_neg (f_round q) else f_round q), s3)))))"

definition hex_value :: "char \<Rightarrow> nat option" where
  "hex_value c =
     (let n = of_char c in
      if 48 \<le> n \<and> n \<le> 57 then Some (n - 48) else if 97 \<le> n \<and> n \<le> 102 then Some (n - 87)
      else if 65 \<le> n \<and> n \<le> 70 then Some (n - 55) else None)"

definition hex4 :: "string \<Rightarrow> nat option" where
  "hex4 s =
     (case map hex_value (take 4 s) of
        [Some a, Some b, Some c, Some d] \<Rightarrow> Some (((a * 16 + b) * 16 + c) * 16 + d)
      | _ \<Rightarrow> None)"

definition simple_escape :: "char \<Rightarrow> char option" where
  "simple_escape c =
     map_of [(CHR 0x22, CHR 0x22), (CHR 0x5C, CHR 0x5C), (CHR ''/'', CHR ''/''), (CHR ''b'', CHR 0x08),
             (CHR ''f'', CHR 0x0C), (CHR ''n'', CHR 0x0A), (CHR ''r'', CHR 0x0D), (CHR ''t'', CHR 0x09)] c"

text \<open>The rest of a string literal, after the opening quote.\<close>

function json_text :: "string \<Rightarrow> (string \<times> string) res" where
  "json_text [] = Inl (json_error ''Unterminated string'')"
| "json_text (c # cs) =
     (if c = CHR 0x22 then Inr ([], cs)
      else if c = CHR 0x5C then
        (case cs of
           [] \<Rightarrow> Inl (json_error ''Unterminated string'')
         | e # r \<Rightarrow>
             if e = CHR ''u'' then
               (case hex4 r of
                  None \<Rightarrow> Inl (json_error ''Invalid uXXXX escape'')
                | Some n \<Rightarrow>
                    if 256 \<le> n then Inl beyond_model
                    else map_sum id (\<lambda>(t, r'). (char_of n # t, r')) (json_text (drop 4 r)))
             else
               (case simple_escape e of
                  None \<Rightarrow> Inl (json_error ''Invalid escape'')
                | Some d \<Rightarrow> map_sum id (\<lambda>(t, r'). (d # t, r')) (json_text r)))
      else if (of_char c :: nat) < 32 then Inl (json_error ''Invalid control character at'')
      else map_sum id (\<lambda>(t, r'). (c # t, r')) (json_text cs))"
  by pat_completeness auto
termination by (relation "measure length") auto

definition dict_of_pairs :: "(string \<times> pyval) list \<Rightarrow> args" where
  "dict_of_pairs kvs = foldl (\<lambda>d (k, v). dict_set d k v) [] kvs"

text \<open>
  A value, the rest of an array and the rest of an object, each with the text that follows it. Every
  recursive call has read a character, so a bound above the length of the text is never reached.
\<close>

fun json_value :: "nat \<Rightarrow> string \<Rightarrow> (pyval \<times> string) res"
  and json_items :: "nat \<Rightarrow> string \<Rightarrow> (pyval list \<times> string) res"
  and json_members :: "nat \<Rightarrow> string \<Rightarrow> ((string \<times> pyval) list \<times> string) res" where
  "json_value 0 s = Inl recursion_error"
| "json_value (Suc n) s =
     (if s = [] then Inl (json_error ''Expecting value'')
      else if hd s = CHR 0x22 then map_sum id (\<lambda>(t, r). (PStr t, r)) (json_text (tl s))
      else if hd s = CHR ''{'' then
        (let s1 = skip_ws (tl s) in
         if take 1 s1 = ''}'' then Inr (PDict [], tl s1)
         else map_sum id (\<lambda>(kvs, r). (PDict (dict_of_pairs kvs), r)) (json_members n s1))
      else if hd s = CHR ''['' then
        (let s1 = skip_ws (tl s) in
         if take 1 s1 = '']'' then Inr (PList [], tl s1)
         else map_sum id (\<lambda>(vs, r). (PList vs, r)) (json_items n s1))
      else if take 4 s = ''null'' then Inr (PNone, drop 4 s)
      else if take 4 s = ''true'' then Inr (PBool True, drop 4 s)
      else if take 5 s = ''false'' then Inr (PBool False, drop 5 s)
      else if take 3 s = ''NaN'' then Inr (PFloat NaN, drop 3 s)
      else if take 8 s = ''Infinity'' then Inr (PFloat PInf, drop 8 s)
      else if take 9 s = ''-Infinity'' then Inr (PFloat NInf, drop 9 s)
      else json_number s)"
| "json_items 0 s = Inl recursion_error"
| "json_items (Suc n) s =
     (case json_value n s of
        Inl e \<Rightarrow> Inl e
      | Inr (v, r) \<Rightarrow>
          (let r1 = skip_ws r in
           if take 1 r1 = '']'' then Inr ([v], tl r1)
           else if take 1 r1 = '','' then map_sum id (\<lambda>(vs, r'). (v # vs, r')) (json_items n (skip_ws (tl r1)))
           else Inl (json_error ''Expecting ',' delimiter'')))"
| "json_members 0 s = Inl recursion_error"
| "json_members (Suc n) s =
     (if take 1 s \<noteq> [CHR 0x22] then Inl (json_error ''Expecting property name enclosed in double quotes'')
      else
        (case json_text (tl s) of
           Inl e \<Rightarrow> Inl e
         | Inr (k, r0) \<Rightarrow>
             (let r1 = skip_ws r0 in
              if take 1 r1 \<noteq> '':'' then Inl (json_error ''Expecting ':' delimiter'')
              else
                (case json_value n (skip_ws (tl r1)) of
                   Inl e \<Rightarrow> Inl e
                 | Inr (v, r) \<Rightarrow>
                     (let r2 = skip_ws r in
                      if take 1 r2 = ''}'' then Inr ([(k, v)], tl r2)
                      else if take 1 r2 = '',''
                        then map_sum id (\<lambda>(kvs, r'). ((k, v) # kvs, r')) (json_members n (skip_ws (tl r2)))
                      else Inl (json_error ''Expecting ',' delimiter''))))))"

definition json_loads :: "string \<Rightarrow> pyval res" where
  "json_loads s =
     (case json_value (2 * length s + 1) (skip_ws s) of
        Inl e \<Rightarrow> Inl e
      | Inr (v, r) \<Rightarrow> if skip_ws r = [] then Inr v else Inl (json_error ''Extra data''))"


subsection \<open>Reading back a string\<close>

lemma hex_value_digit: "k < 16 \<Longrightarrow> hex_value (hex_digit k) = Some k"
  by (auto simp: hex_value_def hex_digit_def Let_def)

lemma hex4_latin: "n < 256 \<Longrightarrow> hex4 (CHR ''0'' # CHR ''0'' # hex_digit (n div 16) # hex_digit (n mod 16) # r) = Some n"
proof -
  assume n: "n < 256"
  have "hex_value (CHR ''0'') = Some 0" by code_simp
  then show ?thesis using n by (simp add: hex4_def hex_value_digit)
qed

lemma json_text_char:
  "json_text (json_char c @ r) = map_sum id (\<lambda>(t, r'). (c # t, r')) (json_text r)"
proof -
  let ?n = "of_char c :: nat"
  have n: "?n < 256" "\<not> 256 \<le> ?n" using of_char_lt [of c] by linarith+
  have special: "c \<in> {CHR 0x22, CHR 0x5C, CHR 0x0A, CHR 0x0D, CHR 0x09, CHR 0x0C, CHR 0x08} \<longleftrightarrow>
      ?n \<in> {34, 92, 10, 13, 9, 12, 8}"
    by (simp only: insert_iff empty_iff char_eq_of_char) (simp del: of_char_eq_iff)
  consider "c \<in> {CHR 0x22, CHR 0x5C, CHR 0x0A, CHR 0x0D, CHR 0x09, CHR 0x0C, CHR 0x08}"
    | "?n \<notin> {34, 92, 10, 13, 9, 12, 8}" "?n < 32 \<or> 126 < ?n" | "?n \<notin> {34, 92}" "32 \<le> ?n" "?n \<le> 126"
    unfolding special by fastforce
  then show ?thesis
  proof cases
    case 1
    then show ?thesis
      by (elim insertE emptyE) (simp_all add: json_char_def simple_escape_def)
  next
    case 2
    then have "json_char c = [CHR 0x5C, CHR ''u'', CHR ''0'', CHR ''0'', hex_digit (?n div 16), hex_digit (?n mod 16)]"
      by (auto simp: json_char_def Let_def)
    then show ?thesis using hex4_latin [OF n(1)] by (simp add: n(2))
  next
    case 3
    then have "json_char c = [c]" "c \<noteq> CHR 0x22" "c \<noteq> CHR 0x5C" by (auto simp: json_char_def)
    then show ?thesis using 3 by simp
  qed
qed

lemma json_text_string: "json_text (concat (map json_char s) @ CHR 0x22 # r) = Inr (s, r)"
  by (induction s) (simp_all add: json_text_char del: json_text.simps(2), simp)


subsection \<open>Reading back a number\<close>

text \<open>What may follow a value: the punctuation, and in an indented text also the end of the line.\<close>

definition delimited :: "string \<Rightarrow> bool" where
  "delimited r = (r = [] \<or> hd r \<in> {CHR '','', CHR '']'', CHR ''}'', CHR 0x0A})"

definition digit_free :: "string \<Rightarrow> bool" where
  "digit_free r = (r = [] \<or> \<not> is_digit (hd r))"

lemma delimited_digit_free: "delimited r \<Longrightarrow> digit_free r"
  by (auto simp: delimited_def digit_free_def is_digit_def)

lemma digit_run:
  assumes "list_all is_digit ds" "digit_free r"
  shows "takeWhile is_digit (ds @ r) = ds" "dropWhile is_digit (ds @ r) = r"
  using assms by (cases r; auto simp: list_all_iff digit_free_def takeWhile_append dropWhile_append)+

definition integer_part :: "string \<Rightarrow> bool" where
  "integer_part ip = (ip = ''0'' \<or> (ip \<noteq> [] \<and> list_all is_digit ip \<and> hd ip \<noteq> CHR ''0''))"

lemma int_run_part: "integer_part ip \<Longrightarrow> digit_free r \<Longrightarrow> int_run (ip @ r) = Some (ip, r)"
  using digit_run [of ip r] by (cases ip) (auto simp: integer_part_def int_run_def)

lemma frac_run_part:
  "fp \<noteq> [] \<Longrightarrow> list_all is_digit fp \<Longrightarrow> digit_free r \<Longrightarrow> frac_run (CHR ''.'' # fp @ r) = (fp, r)"
  using digit_run [of fp r] by (cases fp) (auto simp: frac_run_def)

lemma frac_run_none: "take 1 r \<noteq> ''.'' \<Longrightarrow> frac_run r = ([], r)"
  by (cases r) (auto simp: frac_run_def split: list.split)

lemma exp_run_part:
  assumes "es \<noteq> []" "list_all is_digit es" "digit_free r"
  shows "exp_run (CHR ''e'' # (if neg then CHR ''-'' else CHR ''+'') # es @ r) =
    (Some (if neg then - digits_value es else digits_value es), r)"
  using digit_run [OF assms(2,3)] assms(1) by (simp add: exp_run_def)

lemma exp_run_none: "delimited r \<Longrightarrow> exp_run r = (None, r)"
  by (auto simp: exp_run_def delimited_def split: list.split)

text \<open>The sign, for a text that starts with a digit.\<close>

definition signed :: "bool \<Rightarrow> string \<Rightarrow> string" where
  "signed neg s = (if neg then CHR ''-'' # s else s)"

lemma is_digit_0: "is_digit (CHR ''0'')"
  by (simp add: is_digit_def)

lemma digit_not_minus: "is_digit c \<Longrightarrow> c \<noteq> CHR ''-''"
  by (auto simp: is_digit_def)

lemma integer_part_digit: "integer_part ip \<Longrightarrow> ip \<noteq> [] \<and> is_digit (hd ip) \<and> list_all is_digit ip"
  by (cases ip) (auto simp: integer_part_def is_digit_0)

lemma json_number_parts:
  assumes "integer_part ip" "digit_free f" "frac_run f = (fp, g)" "exp_run g = (ev, r)"
  shows "json_number (signed neg (ip @ f)) =
    (if fp = [] \<and> ev = None then Inr (PInt (if neg then - digits_value ip else digits_value ip), r)
     else (let q = of_int (digits_value (ip @ fp)) * pow10 ((case ev of None \<Rightarrow> 0 | Some e \<Rightarrow> e) - int (length fp))
           in Inr (PFloat (if neg then f_neg (f_round q) else f_round q), r)))"
proof -
  have "take 1 (ip @ f) \<noteq> ''-''" using integer_part_digit [OF assms(1)] digit_not_minus by (cases ip) auto
  then show ?thesis using int_run_part [OF assms(1,2)] assms(3,4)
    by (simp add: json_number_def signed_def)
qed

lemma nat_digits_integer_part: "0 \<le> n \<Longrightarrow> integer_part (nat_digits n) \<and> digits_value (nat_digits n) = n"
proof (cases "n = 0")
  case True
  have "nat_digits 0 = ''0''" by code_simp
  then show ?thesis using True by (simp add: integer_part_def digits_value_def)
next
  case False
  assume "0 \<le> n"
  then show ?thesis using False nat_digits_props [of n] by (simp add: integer_part_def)
qed

lemma json_number_int: "delimited r \<Longrightarrow> json_number (int_str n @ r) = Inr (PInt n, r)"
proof -
  assume r: "delimited r"
  have "take 1 r \<noteq> ''.''" using r by (cases r) (auto simp: delimited_def)
  then have "json_number (signed neg (nat_digits k @ r)) = Inr (PInt (if neg then - k else k), r)" if "0 \<le> k" for neg k
    using json_number_parts [OF _ delimited_digit_free [OF r] frac_run_none exp_run_none [OF r]]
      nat_digits_integer_part [OF that] by simp
  from this [of "- n" True] this [of n False] show ?thesis
    by (simp add: int_str_def signed_def)
qed

text \<open>A decimal in the notation of \<open>repr\<close>.\<close>

lemma digits_value_leading_zeros: "digits_value (zeros n @ ds) = digits_value ds"
  using digits_value_zeros [of "[]" n] by (simp add: digits_value_append) (simp add: digits_value_def)

lemma list_all_zeros: "list_all is_digit (zeros n)"
  by (induction n) (simp_all add: zeros_def is_digit_0)

lemma json_number_fraction:
  assumes "integer_part ip" "fp \<noteq> []" "list_all is_digit fp" "delimited r"
  shows "json_number (signed neg (ip @ CHR ''.'' # fp @ r)) =
    Inr (PFloat ((if neg then f_neg else id) (f_round (of_int (digits_value (ip @ fp)) * pow10 (- int (length fp))))), r)"
  using json_number_parts [OF assms(1) _ frac_run_part [OF assms(2,3) delimited_digit_free [OF assms(4)]]
      exp_run_none [OF assms(4)]] assms(2) by (simp add: digit_free_def is_digit_def)

lemma json_number_exponent:
  assumes "integer_part ip" "list_all is_digit fp" "es \<noteq> []" "list_all is_digit es" "delimited r"
  shows "json_number (signed neg (ip @ (if fp = [] then [] else CHR ''.'' # fp) @
      CHR ''e'' # (if down then CHR ''-'' else CHR ''+'') # es @ r)) =
    Inr (PFloat ((if neg then f_neg else id) (f_round (of_int (digits_value (ip @ fp)) *
      pow10 ((if down then - digits_value es else digits_value es) - int (length fp))))), r)"
proof -
  let ?t = "CHR ''e'' # (if down then CHR ''-'' else CHR ''+'') # es @ r"
  have t: "digit_free ?t" "digit_free (CHR ''.'' # fp @ ?t)" by (simp_all add: digit_free_def is_digit_def)
  have e: "exp_run ?t = (Some (if down then - digits_value es else digits_value es), r)"
    using exp_run_part assms(3,4,5) delimited_digit_free by blast
  show ?thesis
  proof (cases "fp = []")
    case True
    then show ?thesis using json_number_parts [OF assms(1) t(1) frac_run_none e] by simp
  next
    case False
    then show ?thesis using json_number_parts [OF assms(1) t(2) frac_run_part [OF False assms(2) t(1)] e] by simp
  qed
qed

lemma json_number_format:
  assumes ds: "ds \<noteq> []" "list_all is_digit ds" "hd ds \<noteq> CHR ''0''" and r: "delimited r"
  shows "json_number (signed neg (format_repr ds point @ r)) =
    Inr (PFloat ((if neg then f_neg else id) (f_round (of_int (digits_value ds) * pow10 (point - int (length ds))))), r)"
proof -
  have dsp: "integer_part ds" using ds by (simp add: integer_part_def)
  have zp: "integer_part ''0''" by (simp add: integer_part_def)
  have tk: "integer_part (take n ds) \<and> list_all is_digit (drop n ds)" if "0 < n" for n
    using ds that by (auto simp: integer_part_def list_all_iff hd_take dest: in_set_takeD in_set_dropD)
  consider (small) "- 4 < point" "point \<le> 0" | (whole) "0 < point" "int (length ds) \<le> point" "point \<le> 16"
    | (mid) "0 < point" "point < int (length ds)" "point \<le> 16" | (sci) "\<not> (- 4 < point \<and> point \<le> 16)" by linarith
  then show ?thesis
  proof cases
    case small
    let ?fp = "zeros (nat (- point)) @ ds"
    have "digits_value (''0'' @ ?fp) = digits_value ds"
      using digits_value_leading_zeros [of "Suc (nat (- point))" ds] by (simp add: zeros_def)
    moreover have "- int (length ?fp) = point - int (length ds)" using small by (simp add: zeros_def)
    ultimately show ?thesis
      using json_number_fraction [OF zp _ _ r, of ?fp] ds small by (simp add: format_repr_def list_all_zeros)
  next
    case whole
    let ?k = "nat point - length ds"
    have "integer_part (ds @ zeros ?k)" using ds by (simp add: integer_part_def list_all_zeros)
    moreover have "of_int (digits_value ((ds @ zeros ?k) @ ''0'')) * pow10 (- 1) =
        rat_of_int (digits_value ds) * pow10 (point - int (length ds))"
    proof -
      have "digits_value ((ds @ zeros ?k) @ ''0'') = digits_value ds * 10 ^ ?k * 10"
        using digits_value_zeros [of ds "Suc ?k"] by (simp add: zeros_def replicate_append_same)
      moreover have "pow10 (point - int (length ds)) = 10 ^ ?k" using pow10_nat [of ?k] whole by (simp add: of_nat_diff le_nat_iff)
      ultimately show ?thesis by (simp add: pow10_minus)
    qed
    ultimately show ?thesis
      using json_number_fraction [of "ds @ zeros ?k" "''0''", OF _ _ _ r] whole by (simp add: format_repr_def is_digit_0)
  next
    case mid
    have "- int (length (drop (nat point) ds)) = point - int (length ds)" using mid by (simp add: of_nat_diff)
    then show ?thesis
      using json_number_fraction [of "take (nat point) ds" "drop (nat point) ds", OF _ _ _ r] tk [of "nat point"] mid
      by (simp add: format_repr_def)
  next
    case sci
    let ?e = "point - 1"
    let ?es = "(if length (nat_digits \<bar>?e\<bar>) = 1 then ''0'' else []) @ nat_digits \<bar>?e\<bar>"
    have es: "?es \<noteq> []" "list_all is_digit ?es" "digits_value ?es = \<bar>?e\<bar>"
      using nat_digits_props [of "\<bar>?e\<bar>"] digits_value_leading_zeros [of 1 "nat_digits \<bar>?e\<bar>"]
      by (auto simp: is_digit_0 zeros_def)
    have "int (length (drop 1 ds)) = int (length ds) - 1" using ds(1) by (cases ds) simp_all
    then have v: "(if ?e < 0 then - digits_value ?es else digits_value ?es) - int (length (drop 1 ds)) = point - int (length ds)"
      unfolding es(3) by (simp add: abs_if)
    have "format_repr ds point @ r = take 1 ds @ (if drop 1 ds = [] then [] else CHR ''.'' # drop 1 ds) @
        CHR ''e'' # (if ?e < 0 then CHR ''-'' else CHR ''+'') # ?es @ r"
      using sci ds(1) by (cases ds) (auto simp: format_repr_def Let_def)
    then show ?thesis
      using json_number_exponent [OF _ _ es(1,2) r, of "take 1 ds" "drop 1 ds" neg "?e < 0"] tk [of 1]
      unfolding v append_take_drop_id by simp
  qed
qed

lemma strip_zeros_append: "\<exists>k. ds = strip_zeros ds @ zeros k"
proof -
  let ?P = "\<lambda>c. c = CHR ''0''"
  have "takeWhile ?P (rev ds) = zeros (length (takeWhile ?P (rev ds)))"
    unfolding zeros_def by (rule replicate_length_same [symmetric]) (auto dest: set_takeWhileD)
  moreover have "ds = strip_zeros ds @ rev (takeWhile ?P (rev ds))"
    unfolding strip_zeros_def by (simp flip: rev_append)
  moreover have "rev (zeros n) = zeros n" for n by (simp add: zeros_def)
  ultimately show ?thesis by metis
qed

text \<open>What \<open>repr\<close> prints: digits that denote a number which rounds to the float.\<close>

lemma positive_repr_digits:
  assumes "f64_valid (Fin x)" "0 < x"
  obtains ds point where "positive_repr x = format_repr ds point" "ds \<noteq> []" "list_all is_digit ds" "hd ds \<noteq> CHR ''0''"
    "f_round (of_int (digits_value ds) * pow10 (point - int (length ds))) = Fin x"
proof -
  obtain m s where ms: "shortest_decimal x = (m, s)" by force
  note mx = shortest_decimal_reads [OF assms ms]
  let ?d = "nat_digits m" and ?ds = "strip_zeros (nat_digits m)"
  have d: "digits_value ?d = m" "list_all is_digit ?d" "?d \<noteq> []" "hd ?d \<noteq> CHR ''0''"
    using nat_digits_props [of m] mx(2) by simp_all
  obtain k where k: "?d = ?ds @ zeros k" using strip_zeros_append by blast
  have m: "m = digits_value ?ds * 10 ^ k" using d(1) digits_value_zeros [of ?ds k] k by simp
  have ne: "?ds \<noteq> []" using m mx(2) by (auto simp: digits_value_def)
  have h: "hd ?ds \<noteq> CHR ''0''" using d(4) ne by (subst (asm) k) simp
  have l: "list_all is_digit ?ds" using d(2) by (subst (asm) k) simp
  have len: "int (length ?d) = int (length ?ds) + int k" by (subst k) (simp add: zeros_def)
  have "of_int (digits_value ?ds) * pow10 (int (length ?d) + s - int (length ?ds)) = of_int m * pow10 s"
    unfolding len by (subst m) (simp add: pow10_add [of "int k" s, simplified])
  then show thesis
    using that [OF _ ne l h, of "int (length ?d) + s"] mx(1) by (simp add: positive_repr_def ms Let_def)
qed

lemma json_number_positive:
  assumes "f64_valid (Fin x)" "0 < x" "delimited r"
  shows "json_number (signed neg (positive_repr x @ r)) = Inr (PFloat (Fin (if neg then - x else x)), r)"
proof (rule positive_repr_digits [OF assms(1,2)])
  fix ds point
  assume "positive_repr x = format_repr ds point" "ds \<noteq> []" "list_all is_digit ds" "hd ds \<noteq> CHR ''0''"
    "f_round (of_int (digits_value ds) * pow10 (point - int (length ds))) = Fin x"
  then show ?thesis using json_number_format [OF _ _ _ assms(3), of ds neg point] by (cases neg) simp_all
qed

lemma json_number_float:
  assumes "f64_valid (Fin x)" "delimited r"
  shows "json_number (float_repr x @ r) = Inr (PFloat (Fin x), r)"
proof -
  have z: "json_number (signed False (''0'' @ CHR ''.'' # ''0'' @ r)) = Inr (PFloat (Fin 0), r)"
    by (subst json_number_fraction [OF _ _ _ assms(2)])
      (simp_all add: integer_part_def is_digit_0 digits_value_def f_round_def Let_def f64_overflows_def)
  have "f64_valid (Fin (- x))" using assms(1) by (simp add: f64_valid_def rnd64_minus f64_overflows_def)
  then show ?thesis
    using z json_number_positive [OF assms(1) _ assms(2), of False] json_number_positive [of "- x" r True] assms(2)
    by (auto simp: float_repr_def signed_def)
qed

text \<open>Numbers start with a digit, after the sign.\<close>

definition starts_number :: "string \<Rightarrow> bool" where
  "starts_number s = (\<exists>neg c t. s = signed neg (c # t) \<and> is_digit c)"

lemma starts_number_append: "starts_number s \<Longrightarrow> starts_number (s @ r)"
  unfolding starts_number_def signed_def by fastforce

lemma starts_number_signed: "s \<noteq> [] \<Longrightarrow> is_digit (hd s) \<Longrightarrow> starts_number (signed neg s)"
  unfolding starts_number_def by (metis list.exhaust_sel)

lemma starts_number_int: "starts_number (int_str n)"
  using starts_number_signed [of "nat_digits \<bar>n\<bar>" "n < 0"] nat_digits_props [of "\<bar>n\<bar>"]
  by (cases "nat_digits \<bar>n\<bar>") (auto simp: int_str_def signed_def)

lemma starts_number_float: "f64_valid (Fin x) \<Longrightarrow> starts_number (float_repr x)"
proof -
  have pos: "positive_repr y \<noteq> [] \<and> is_digit (hd (positive_repr y))" if v: "f64_valid (Fin y)" "0 < y" for y
  proof (rule positive_repr_digits [OF v])
    fix ds point
    assume p: "positive_repr y = format_repr ds point" "ds \<noteq> []" "list_all is_digit ds"
    have "hd (take n ds @ t) = hd ds \<and> take n ds @ t \<noteq> []" if "0 < n" for n t using p(2) that by (cases ds; cases n) auto
    then show ?thesis using p by (cases ds) (auto simp: format_repr_def Let_def is_digit_0)
  qed
  assume "f64_valid (Fin x)"
  moreover have "f64_valid (Fin (- x))" if "f64_valid (Fin x)"
    using that by (simp add: f64_valid_def rnd64_minus f64_overflows_def)
  ultimately show ?thesis
    using starts_number_signed [of "positive_repr x" False] starts_number_signed [of "positive_repr (- x)" True]
      starts_number_signed [of "''0.0''" False] pos [of x] pos [of "- x"]
    by (auto simp: float_repr_def signed_def is_digit_0)
qed

lemma json_value_number: "starts_number s \<Longrightarrow> json_value (Suc n) s = json_number s"
proof -
  assume "starts_number s"
  then obtain neg c t where s: "s = signed neg (c # t)" "is_digit c" unfolding starts_number_def by blast
  then have "c \<notin> {CHR 0x22, CHR ''{'', CHR ''['', CHR ''n'', CHR ''t'', CHR ''f'', CHR ''N'', CHR ''I'', CHR ''-''}"
    by (auto simp: is_digit_def)
  then show ?thesis unfolding s(1) signed_def by (cases neg) simp_all
qed


subsection \<open>Reading back a value\<close>

text \<open>JSON has no tuples; and only floats that are binary64 values print as themselves.\<close>

function (sequential) json_plain :: "pyval \<Rightarrow> pyval" where
  "json_plain (PList xs) = PList (map json_plain xs)"
| "json_plain (PTuple xs) = PList (map json_plain xs)"
| "json_plain (PDict kvs) = PDict (map (\<lambda>(k, v). (k, json_plain v)) kvs)"
| "json_plain v = v"
  by pat_completeness auto
termination
  by (relation "measure size") (auto dest!: size_list_elem size_dict_value)

fun floats_valid :: "pyval \<Rightarrow> bool" where
  "floats_valid (PFloat x) = f64_valid x"
| "floats_valid (PList xs) = list_all floats_valid xs"
| "floats_valid (PTuple xs) = list_all floats_valid xs"
| "floats_valid (PDict kvs) = list_all (\<lambda>(k, v). floats_valid v) kvs"
| "floats_valid _ = True"

definition json_value_head :: "char \<Rightarrow> bool" where
  "json_value_head c = (c \<notin> {CHR '' '', CHR 0x09, CHR 0x0A, CHR 0x0D, CHR '']'', CHR ''}'', CHR '',''})"

lemma json_head: "floats_valid v \<Longrightarrow> json_dumps v \<noteq> [] \<and> json_value_head (hd (json_dumps v))"
proof -
  assume v: "floats_valid v"
  have num: "s \<noteq> [] \<and> json_value_head (hd s)" if "starts_number s" for s
    using that unfolding starts_number_def signed_def json_value_head_def by (auto simp: is_digit_def split: if_splits)
  show ?thesis
  proof (cases v)
    case (PFloat x)
    then show ?thesis using v num [OF starts_number_float]
      by (cases x) (simp_all add: json_float_def json_value_head_def)
  qed (use num [OF starts_number_int] in \<open>simp_all add: json_value_head_def json_string_def\<close>)
qed

lemma skip_ws_head: "s = [] \<or> json_value_head (hd s) \<Longrightarrow> skip_ws s = s"
  by (cases s) (auto simp: skip_ws_def json_value_head_def)

lemma dict_of_pairs_ok: "dict_ok kvs \<Longrightarrow> dict_of_pairs kvs = kvs"
proof -
  have new: "AList.update k v d = d @ [(k, v)]" if "k \<notin> fst ` set d" for k and v :: pyval and d
    using that by (induction d) auto
  have "dict_ok (d @ kvs) \<Longrightarrow> foldl (\<lambda>d (k, v). dict_set d k v) d kvs = d @ kvs" for d :: args
  proof (induction kvs arbitrary: d)
    case (Cons kv kvs)
    then show ?case using Cons.IH [of "d @ [kv]"] new [of "fst kv" d "snd kv"]
      by (simp add: dict_ok_def dict_set_def case_prod_beta)
  qed simp
  then show "dict_ok kvs \<Longrightarrow> dict_of_pairs kvs = kvs" by (simp add: dict_of_pairs_def)
qed

text \<open>A text reads as a value, given enough fuel: two steps for a character.\<close>

definition reads_as :: "string \<Rightarrow> pyval \<Rightarrow> bool" where
  "reads_as t v = (t \<noteq> [] \<and> json_value_head (hd t) \<and>
     (\<forall>n r. delimited r \<longrightarrow> 2 * length t \<le> n \<longrightarrow> json_value n (t @ r) = Inr (v, r)))"

lemma reads_asD:
  "reads_as t v \<Longrightarrow> delimited r \<Longrightarrow> 2 * length t \<le> n \<Longrightarrow> json_value n (t @ r) = Inr (v, r)"
  by (simp add: reads_as_def)

lemma reads_asI:
  assumes "t \<noteq> []" "json_value_head (hd t)"
    and "\<And>n r. delimited r \<Longrightarrow> 2 * length t \<le> Suc n \<Longrightarrow> json_value (Suc n) (t @ r) = Inr (v, r)"
  shows "reads_as t v"
proof -
  have "json_value n (t @ r) = Inr (v, r)" if "delimited r" "2 * length t \<le> n" for n r
    using assms that by (cases n) auto
  then show ?thesis using assms by (simp add: reads_as_def)
qed

lemma reads_as_skip: "reads_as t v \<Longrightarrow> skip_ws (t @ r) = t @ r"
  by (simp add: reads_as_def skip_ws_head)

lemma delimited_simps [simp]:
  "delimited (CHR '','' # r)" "delimited (CHR '']'' # r)" "delimited (CHR ''}'' # r)" "delimited (CHR 0x0A # r)" "delimited []"
  by (simp_all add: delimited_def)

lemma skip_ws_stops [simp]:
  "skip_ws (CHR '','' # r) = CHR '','' # r" "skip_ws (CHR '']'' # r) = CHR '']'' # r"
  "skip_ws (CHR ''}'' # r) = CHR ''}'' # r" "skip_ws (CHR '':'' # r) = CHR '':'' # r" "skip_ws [] = []"
  "skip_ws (CHR 0x22 # r) = CHR 0x22 # r"
  by (simp_all add: skip_ws_def)

text \<open>
  What the layout may put between the tokens: nothing, or blanks, after a line end where a value or an
  opening bracket comes before it.
\<close>

definition blank :: "string \<Rightarrow> bool" where
  "blank w = list_all (\<lambda>c. c \<in> {CHR '' '', CHR 0x09, CHR 0x0A, CHR 0x0D}) w"

definition line_break :: "string \<Rightarrow> bool" where
  "line_break w = (blank w \<and> (w = [] \<or> hd w = CHR 0x0A))"

lemma skip_ws_blank [simp]: "blank w \<Longrightarrow> skip_ws (w @ r) = skip_ws r"
  by (induction w) (auto simp: skip_ws_def blank_def)

lemma line_break_blank [simp]: "line_break w \<Longrightarrow> blank w"
  by (simp add: line_break_def)

lemma delimited_break [simp]: "line_break w \<Longrightarrow> delimited r \<Longrightarrow> delimited (w @ r)"
  by (cases w) (auto simp: line_break_def)

lemma blank_Nil [simp]: "blank []" "line_break []"
  by (simp_all add: blank_def line_break_def)

lemma json_items_read:
  assumes "xs \<noteq> []" "\<And>x. x \<in> set xs \<Longrightarrow> reads_as (f x) (g x)" "blank w" "line_break w'"
    and "2 * length (py_join (CHR '','' # w) (map f xs)) < n"
  shows "json_items n (py_join (CHR '','' # w) (map f xs) @ w' @ CHR '']'' # r) = Inr (map g xs, r)"
  using assms
proof (induction xs arbitrary: n)
  case (Cons x xs)
  obtain m where n: "n = Suc m" using Cons.prems(5) by (cases n) auto
  have x: "reads_as (f x) (g x)" using Cons.prems(2) by simp
  show ?case
  proof (cases xs)
    case Nil
    then show ?thesis
      using reads_asD [OF x, of "w' @ CHR '']'' # r" m] Cons.prems by (simp add: n Let_def)
  next
    case (Cons y ys)
    let ?t = "py_join (CHR '','' # w) (map f xs) @ w' @ CHR '']'' # r"
    have "json_items m ?t = Inr (map g xs, r)"
      using Cons.IH [of m] Cons.prems Cons by (auto simp: n)
    moreover have "skip_ws ?t = ?t"
      using Cons Cons.prems(2) reads_as_skip [of "f y" "g y"] by (cases ys) auto
    ultimately show ?thesis
      using reads_asD [OF x, of "CHR '','' # w @ ?t" m] Cons.prems Cons by (simp add: n Let_def)
  qed
qed simp

definition member_text :: "string \<Rightarrow> (pyval \<Rightarrow> string) \<Rightarrow> string \<times> pyval \<Rightarrow> string" where
  "member_text u f kv = json_string (fst kv) @ CHR '':'' # u @ f (snd kv)"

lemma json_members_read:
  assumes "kvs \<noteq> []" "\<And>k x. (k, x) \<in> set kvs \<Longrightarrow> reads_as (f x) (g x)" "blank u" "blank w" "line_break w'"
    and "2 * length (py_join (CHR '','' # w) (map (member_text u f) kvs)) < n"
  shows "json_members n (py_join (CHR '','' # w) (map (member_text u f) kvs) @ w' @ CHR ''}'' # r) =
    Inr (map (\<lambda>(k, v). (k, g v)) kvs, r)"
  using assms
proof (induction kvs arbitrary: n)
  case (Cons kv kvs)
  obtain k x where kv: "kv = (k, x)" by force
  obtain m where n: "n = Suc m" using Cons.prems(6) by (cases n) auto
  have x: "reads_as (f x) (g x)" using Cons.prems(2) [of k x] by (simp add: kv)
  have key: "member_text u f (j, v) @ t = CHR 0x22 # concat (map json_char j) @ CHR 0x22 # CHR '':'' # u @ f v @ t" for j v t
    by (simp add: json_string_def member_text_def)
  have len: "length (member_text u f kv) = length (json_string k) + Suc (length u + length (f x))"
    by (simp add: member_text_def kv)
  show ?case
  proof (cases kvs)
    case Nil
    then show ?thesis
      using reads_asD [OF x, of "w' @ CHR ''}'' # r" m] Cons.prems len
      by (simp add: n kv key json_text_string reads_as_skip [OF x] Let_def)
  next
    case (Cons y ys)
    let ?t = "py_join (CHR '','' # w) (map (member_text u f) kvs) @ w' @ CHR ''}'' # r"
    have "json_members m ?t = Inr (map (\<lambda>(k, v). (k, g v)) kvs, r)"
      using Cons.IH [of m] Cons.prems Cons by (auto simp: n kv)
    moreover have "skip_ws ?t = ?t"
      using Cons key by (cases y; cases ys) simp_all
    ultimately show ?thesis
      using reads_asD [OF x, of "CHR '','' # w @ ?t" m] Cons.prems Cons len
      by (simp add: n kv key json_text_string reads_as_skip [OF x] Let_def)
  qed
qed simp

lemma json_value_array:
  "skip_ws t = t \<Longrightarrow> take 1 t \<noteq> '']'' \<Longrightarrow> blank w \<Longrightarrow> json_items n t = Inr (vs, r) \<Longrightarrow>
   json_value (Suc n) (CHR ''['' # w @ t) = Inr (PList vs, r)"
  by simp

lemma json_value_object:
  "take 1 t = [CHR 0x22] \<Longrightarrow> blank w \<Longrightarrow> json_members n t = Inr (kvs, r) \<Longrightarrow>
   json_value (Suc n) (CHR ''{'' # w @ t) = Inr (PDict (dict_of_pairs kvs), r)"
  by (cases t) simp_all

lemma json_array_read:
  assumes "xs \<noteq> []" "\<And>x. x \<in> set xs \<Longrightarrow> reads_as (f x) (g x)" "blank w0" "blank w" "line_break w'"
  shows "reads_as (CHR ''['' # w0 @ py_join (CHR '','' # w) (map f xs) @ w' @ '']'') (PList (map g xs))"
proof (rule reads_asI)
  fix n r
  let ?j = "py_join (CHR '','' # w) (map f xs)"
  let ?t = "?j @ w' @ CHR '']'' # r"
  assume n: "2 * length (CHR ''['' # w0 @ ?j @ w' @ '']'') \<le> Suc n"
  obtain x ys where xs: "xs = x # ys" using assms(1) by (cases xs) auto
  have x: "reads_as (f x) (g x)" using assms(2) xs by simp
  then have t: "skip_ws ?t = ?t" "take 1 ?t \<noteq> '']''"
    using reads_as_skip [OF x] xs by (cases ys; cases "f x"; auto simp: reads_as_def json_value_head_def)+
  have "json_value (Suc n) (CHR ''['' # w0 @ ?t) = Inr (PList (map g xs), r)"
    using n by (intro json_value_array [OF t assms(3)] json_items_read [OF assms(1,2,4,5)]) auto
  then show "json_value (Suc n) ((CHR ''['' # w0 @ ?j @ w' @ '']'') @ r) = Inr (PList (map g xs), r)" by simp
qed (simp_all add: json_value_head_def)

lemma json_object_read:
  assumes "kvs \<noteq> []" "dict_ok kvs" "\<And>k x. (k, x) \<in> set kvs \<Longrightarrow> reads_as (f x) (g x)"
    and "blank u" "blank w0" "blank w" "line_break w'"
  shows "reads_as (CHR ''{'' # w0 @ py_join (CHR '','' # w) (map (member_text u f) kvs) @ w' @ ''}'')
    (PDict (map (\<lambda>(k, v). (k, g v)) kvs))"
proof (rule reads_asI)
  fix n r
  let ?j = "py_join (CHR '','' # w) (map (member_text u f) kvs)"
  let ?t = "?j @ w' @ CHR ''}'' # r"
  assume n: "2 * length (CHR ''{'' # w0 @ ?j @ w' @ ''}'') \<le> Suc n"
  have t: "take 1 ?t = [CHR 0x22]"
    using assms(1) by (cases kvs; cases "tl kvs") (simp_all add: member_text_def json_string_def)
  have "dict_ok (map (\<lambda>(k, v). (k, g v)) kvs)"
    using assms(2) by (simp add: dict_ok_def o_def case_prod_beta)
  moreover have "json_members n ?t = Inr (map (\<lambda>(k, v). (k, g v)) kvs, r)"
    using n by (intro json_members_read [OF assms(1,3,4,6,7)]) auto
  ultimately have "json_value (Suc n) (CHR ''{'' # w0 @ ?t) = Inr (PDict (map (\<lambda>(k, v). (k, g v)) kvs), r)"
    using json_value_object [OF t assms(5)] by (simp only: dict_of_pairs_ok)
  then show "json_value (Suc n) ((CHR ''{'' # w0 @ ?j @ w' @ ''}'') @ r) = Inr (PDict (map (\<lambda>(k, v). (k, g v)) kvs), r)"
    by simp
qed (simp_all add: json_value_head_def)

text \<open>The scalars are laid out the same everywhere, and so are the empty containers.\<close>

fun scalar :: "pyval \<Rightarrow> bool" where
  "scalar (PList xs) = (xs = [])"
| "scalar (PTuple xs) = (xs = [])"
| "scalar (PDict kvs) = (kvs = [])"
| "scalar _ = True"

lemma json_scalar_read:
  assumes "scalar v" "floats_valid v"
  shows "reads_as (json_dumps v) (json_plain v)"
proof -
  have float: "json_value (Suc n) (json_float x @ r) = Inr (PFloat x, r)" if "f64_valid x" "delimited r" for n r x
  proof (cases x)
    case (Fin q)
    then show ?thesis using that
      by (simp add: json_float_def json_value_number starts_number_append starts_number_float json_number_float
          del: json_value.simps)
  qed (simp_all add: json_float_def)
  have int: "json_value (Suc n) (int_str i @ r) = Inr (PInt i, r)" if "delimited r" for n i r
    using that by (simp add: json_value_number starts_number_append starts_number_int json_number_int del: json_value.simps)
  show ?thesis
  proof (rule reads_asI)
    fix n r
    assume "delimited r"
    then show "json_value (Suc n) (json_dumps v @ r) = Inr (json_plain v, r)"
      using assms float int by (cases v) (simp_all add: json_string_def json_text_string)
  qed (use json_head [OF assms(2)] in simp_all)
qed

lemma json_reads_back: "value_ok v \<Longrightarrow> floats_valid v \<Longrightarrow> reads_as (json_dumps v) (json_plain v)"
proof (induction v rule: pyval_induct)
  case (PList xs)
  show ?case
  proof (cases "xs = []")
    case False
    then show ?thesis using json_array_read [of xs json_dumps json_plain "[]" "[]" "[]"] PList by (simp add: list_all_iff)
  qed (use PList json_scalar_read [of "PList xs"] in simp)
next
  case (PTuple xs)
  show ?case
  proof (cases "xs = []")
    case False
    then show ?thesis using json_array_read [of xs json_dumps json_plain "[]" "[]" "[]"] PTuple by (simp add: list_all_iff)
  qed (use PTuple json_scalar_read [of "PTuple xs"] in simp)
next
  case (PDict kvs)
  then have "reads_as (json_dumps x) (json_plain x)" if "(k, x) \<in> set kvs" for k x using that by (fastforce simp: list_all_iff)
  moreover have "member_text [] json_dumps = (\<lambda>(k, v). json_string k @ '':'' @ json_dumps v)"
    by (simp add: fun_eq_iff member_text_def)
  ultimately show ?case
    using json_object_read [of kvs json_dumps json_plain "[]" "[]" "[]" "[]"] PDict.prems json_scalar_read [of "PDict kvs"]
    by (cases "kvs = []") simp_all
qed (rule json_scalar_read; simp)+

lemma json_loads_reads: "reads_as t v \<Longrightarrow> json_loads t = Inr v"
  using reads_as_skip [of t v "[]"] reads_asD [of t v "[]" "2 * length t + 1"] by (simp add: json_loads_def)

lemma json_loads_dumps:
  assumes "value_ok v" "floats_valid v"
  shows "json_loads (json_dumps v) = Inr (json_plain v)"
  by (rule json_loads_reads [OF json_reads_back [OF assms]])


subsection \<open>The bound on the recursion is not reached\<close>

lemma length_skip_ws: "length (skip_ws s) \<le> length s"
  by (simp add: skip_ws_def length_dropWhile_le)

definition read_ok :: "nat \<Rightarrow> ('a \<times> string) res \<Rightarrow> bool" where
  "read_ok l x = (case x of Inl e \<Rightarrow> e \<noteq> recursion_error | Inr (v, r) \<Rightarrow> length r < l)"

lemma read_ok_map: "read_ok l x \<Longrightarrow> l \<le> l' \<Longrightarrow> read_ok l' (map_sum id (\<lambda>(t, r). (f t, r)) x)"
  by (cases x) (auto simp: read_ok_def)

lemma read_ok_simps [simp]: "read_ok l (Inr (v, r)) \<longleftrightarrow> length r < l" "read_ok l (Inl (json_error m))" "read_ok l (Inl beyond_model)"
  by (simp_all add: read_ok_def json_error_def beyond_model_def recursion_error_def)

lemma json_error_neq [simp]: "json_error m \<noteq> recursion_error"
  by (simp add: json_error_def recursion_error_def)

lemma read_ok_json_text: "read_ok (length s) (json_text s)"
proof (induction s rule: json_text.induct)
  case (2 c cs)
  show ?case
  proof (cases "c = CHR 0x5C")
    case True
    show ?thesis
    proof (cases cs)
      case (Cons e u)
      then show ?thesis using True 2(1) [of e u] 2(2) [of e u]
        by (auto split: option.split intro: read_ok_map)
    qed (use True in simp)
  next
    case False
    then show ?thesis using 2(3) by (auto intro: read_ok_map)
  qed
qed simp

lemma length_dropWhile_digit: "s \<noteq> [] \<Longrightarrow> is_digit (hd s) \<Longrightarrow> length (dropWhile is_digit s) < length s"
  by (cases s) (auto simp: length_dropWhile_le le_imp_less_Suc)

lemma int_run_rest: "int_run s = Some (ip, r) \<Longrightarrow> length r < length s"
  using length_dropWhile_digit [of s] by (auto simp: int_run_def split: list.splits if_splits)

lemma frac_run_rest: "frac_run s = (fp, r) \<Longrightarrow> length r \<le> length s"
  using length_dropWhile_le [of is_digit "tl s"] by (auto simp: frac_run_def split: list.splits if_splits)

lemma exp_run_rest: "exp_run s = (e, r) \<Longrightarrow> length r \<le> length s"
proof (cases s)
  case (Cons c cs)
  assume e: "exp_run s = (e, r)"
  define ds where "ds = (if take 1 cs = ''-'' \<or> take 1 cs = ''+'' then tl cs else cs)"
  have "length (dropWhile is_digit ds) \<le> length ds" by (rule length_dropWhile_le)
  also have "\<dots> \<le> length cs" by (simp add: ds_def)
  finally have "length (dropWhile is_digit ds) \<le> length s" by (simp add: Cons)
  moreover have "r = s \<or> r = dropWhile is_digit ds"
    using e by (auto simp: exp_run_def Cons Let_def ds_def split: if_splits)
  ultimately show ?thesis by blast
qed (simp add: exp_run_def)

lemma read_ok_json_number: "read_ok (length s) (json_number s)"
proof -
  define u where "u = (if take 1 s = ''-'' then tl s else s)"
  have u: "length u \<le> length s" by (simp add: u_def)
  show ?thesis
  proof (cases "int_run u")
    case (Some p)
    obtain ip s1 where i: "int_run u = Some (ip, s1)" using Some by (cases p) simp
    obtain fp s2 where f: "frac_run s1 = (fp, s2)" by force
    obtain ev s3 where e: "exp_run s2 = (ev, s3)" by force
    have "length s3 < length s" using int_run_rest [OF i] frac_run_rest [OF f] exp_run_rest [OF e] u by linarith
    then show ?thesis using i f e by (simp add: json_number_def Let_def u_def)
  qed (simp add: json_number_def Let_def u_def)
qed

lemma json_fuel:
  "2 * length s < n \<Longrightarrow> read_ok (length s) (json_value n s)"
  "2 * length s + 1 < n \<Longrightarrow> read_ok (length s) (json_items n s)"
  "2 * length s + 1 < n \<Longrightarrow> read_ok (length s) (json_members n s)"
proof (induction n s and n s and n s rule: json_value_json_items_json_members.induct)
  case (2 n s)
  show ?case
  proof (cases s)
    case (Cons c cs)
    let ?s1 = "skip_ws cs"
    have w: "length ?s1 \<le> length cs" by (rule length_skip_ws)
    then have f: "2 * length ?s1 + 1 < n" using 2(3) Cons by simp
    consider "c = CHR 0x22" | "c = CHR ''{''" | "c = CHR ''[''" | "c \<notin> {CHR 0x22, CHR ''{'', CHR ''[''}" by blast
    then show ?thesis
    proof cases
      case 1
      then show ?thesis using Cons by (auto intro: read_ok_map [OF read_ok_json_text])
    next
      case 2
      then show ?thesis using "2.IH"(1) [of ?s1] f w Cons by (cases ?s1) (auto simp: Let_def intro!: read_ok_map)
    next
      case 3
      then show ?thesis using "2.IH"(2) [of ?s1] f w Cons by (cases ?s1) (auto simp: Let_def intro!: read_ok_map)
    next
      case 4
      then show ?thesis using read_ok_json_number [of s] Cons by (simp add: less_Suc_eq_le)
    qed
  qed simp
next
  case (4 n s)
  show ?case
  proof (cases "json_value n s")
    case (Inr p)
    obtain v r where p: "p = (v, r)" by force
    have "length r < length s" using "4.IH"(1) "4.prems" Inr p by simp
    moreover have "length (tl (skip_ws r)) \<le> length r" "length (skip_ws (tl (skip_ws r))) \<le> length r"
      using length_skip_ws [of r] length_skip_ws [of "tl (skip_ws r)"] by simp_all
    ultimately show ?thesis
      using "4.IH"(2) [OF Inr p [symmetric] refl] "4.prems" Inr p by (auto simp: Let_def intro!: read_ok_map)
  qed (use 4 in \<open>auto simp: read_ok_def\<close>)
next
  case (6 n s)
  show ?case
  proof (cases "take 1 s = [CHR 0x22] \<and> (\<exists>k r. json_text (tl s) = Inr (k, r) \<and> take 1 (skip_ws r) = '':'')")
    case True
    then obtain k r0 where t: "take 1 s = [CHR 0x22]" "json_text (tl s) = Inr (k, r0)" "take 1 (skip_ws r0) = '':''" by blast
    let ?s2 = "skip_ws (tl (skip_ws r0))"
    have "length r0 < length (tl s)" using read_ok_json_text [of "tl s"] t(2) by simp
    then have l: "Suc (Suc (length ?s2)) < length s"
      using length_skip_ws [of r0] length_skip_ws [of "tl (skip_ws r0)"] t(3) by (cases "skip_ws r0") auto
    have v: "read_ok (length ?s2) (json_value n ?s2)" using "6.IH"(1) [of "(k, r0)" k r0] t l "6.prems" by simp
    show ?thesis
    proof (cases "json_value n ?s2")
      case (Inr p)
      obtain x r where p: "p = (x, r)" by force
      have r: "length r < length ?s2" using v Inr p by simp
      have "length (tl (skip_ws r)) \<le> length r" "length (skip_ws (tl (skip_ws r))) \<le> length r"
        using length_skip_ws [of r] length_skip_ws [of "tl (skip_ws r)"] by simp_all
      moreover have "read_ok (length s) (map_sum id (\<lambda>(kvs, r'). ((k, x) # kvs, r')) (json_members n (skip_ws (tl (skip_ws r)))))"
        if c: "take 1 (skip_ws r) = '',''"
      proof (rule read_ok_map)
        have f: "2 * length (skip_ws (tl (skip_ws r))) + 1 < n"
          using \<open>length (skip_ws (tl (skip_ws r))) \<le> length r\<close> r l "6.prems" by linarith
        have "\<not> take 1 (skip_ws r) = ''}''" using c by simp
        then show "read_ok (length (skip_ws (tl (skip_ws r)))) (json_members n (skip_ws (tl (skip_ws r))))"
          using "6.IH"(2) [OF _ t(2) refl refl _ Inr p [symmetric] refl _ c f] t(1,3) by simp
        show "length (skip_ws (tl (skip_ws r))) \<le> length s"
          using \<open>length (skip_ws (tl (skip_ws r))) \<le> length r\<close> r l by linarith
      qed
      moreover have "length (tl (skip_ws r)) < length s" using \<open>length (tl (skip_ws r)) \<le> length r\<close> r l by linarith
      ultimately show ?thesis using Inr p t by (simp add: Let_def)
    next
      case (Inl e)
      then show ?thesis using v t by (simp add: Let_def read_ok_def)
    qed
  next
    case False
    then show ?thesis using read_ok_json_text [of "tl s"]
      by (cases "json_text (tl s)") (auto simp: Let_def read_ok_def)
  qed
qed simp_all

text \<open>So \<open>json_loads\<close> never fails for lack of fuel.\<close>

lemma json_loads_total: "json_loads s \<noteq> Inl recursion_error"
proof -
  have "read_ok (length (skip_ws s)) (json_value (2 * length s + 1) (skip_ws s))"
    using length_skip_ws [of s] by (intro json_fuel) simp
  then show ?thesis
    by (cases "json_value (2 * length s + 1) (skip_ws s)") (simp_all add: json_loads_def read_ok_def split: prod.split)
qed


subsection \<open>What is read is a value proper\<close>

lemma json_number_floats: "json_number s = Inr (v, r) \<Longrightarrow> floats_valid v"
  by (auto simp: json_number_def Let_def f64_valid_round f64_valid_neg split: option.splits prod.splits if_splits)

abbreviation values_valid :: "args \<Rightarrow> bool" where
  "values_valid d \<equiv> list_all (\<lambda>(k, v). floats_valid v) d"

lemma dict_set_floats: "values_valid d \<Longrightarrow> floats_valid v \<Longrightarrow> values_valid (dict_set d k v)"
  unfolding dict_set_def by (induction d) auto

lemma dict_of_pairs_floats: "values_valid kvs \<Longrightarrow> values_valid (dict_of_pairs kvs)"
proof -
  have "values_valid d \<Longrightarrow> values_valid kvs \<Longrightarrow> values_valid (foldl (\<lambda>d (k, v). dict_set d k v) d kvs)" for d
    by (induction kvs arbitrary: d) (auto simp: dict_set_floats)
  then show "values_valid kvs \<Longrightarrow> values_valid (dict_of_pairs kvs)" by (simp add: dict_of_pairs_def)
qed

lemma map_sum_Inr: "map_sum id f x = Inr y \<longleftrightarrow> (\<exists>z. x = Inr z \<and> y = f z)"
  by (cases x) auto

lemma json_value_floats:
  "json_value n s = Inr (v, r) \<Longrightarrow> floats_valid v"
  "json_items n s = Inr (vs, r) \<Longrightarrow> list_all floats_valid vs"
  "json_members n s = Inr (kvs, r) \<Longrightarrow> values_valid kvs"
proof (induction n s and n s and n s arbitrary: v r and vs r and kvs r rule: json_value_json_items_json_members.induct)
  case (2 n s)
  have "floats_valid v" if "json_number s = Inr (v, r)" using that by (rule json_number_floats)
  then show ?case using 2 by (auto simp: Let_def map_sum_Inr dict_of_pairs_floats split: if_splits)
next
  case (4 n s)
  then show ?case by (auto simp: Let_def map_sum_Inr split: sum.splits prod.splits if_splits)
next
  case (6 n s)
  then show ?case by (auto simp: Let_def map_sum_Inr split: sum.split_asm prod.split_asm if_split_asm)
qed simp_all

lemma json_loads_floats: "json_loads s = Inr v \<Longrightarrow> floats_valid v"
  by (auto simp: json_loads_def simp del: json_value.simps split: sum.splits prod.splits if_splits
      dest: json_value_floats(1))

end
