(* ===== verification/BenchmarkStats.thy ===== *)
theory BenchmarkStats
  imports PyFloat SM_Prelude
begin

text \<open>
  The measurements of the benchmark: benchmarks/run.py, its statistics and the part of its workload
  that decides what is measured. Latencies are binary64; \<open>statistics.fmean\<close> rounds the exact sum
  once and divides, \<open>statistics.median\<close> sorts and takes the middle. What a request of a worker does
  (its two clock readings and how the call ends) comes from outside.
\<close>

subsection \<open>Data\<close>

record sample =
  sm_elapsed_seconds :: pyfloat
  sm_is_error :: bool
  sm_is_timeout :: bool

record trial_stats =
  ts_request_count :: int
  ts_wall_seconds :: pyfloat
  ts_throughput_rps :: pyfloat
  ts_p50_ms :: pyfloat
  ts_p95_ms :: pyfloat
  ts_p99_ms :: pyfloat
  ts_mean_ms :: pyfloat
  ts_error_rate :: pyfloat
  ts_timeout_rate :: pyfloat

record configuration_result =
  cr_path :: string
  cr_tool :: string
  cr_concurrency :: int
  cr_trials :: "trial_stats list"
  cr_median :: trial_stats
  cr_variability :: "pyfloat pydict"

definition concurrency_levels :: "int list" where
  "concurrency_levels = [1, 10, 25, 50, 100]"

definition trials_per_configuration :: nat where
  "trials_per_configuration = 5"


subsection \<open>Statistics\<close>

text \<open>\<open>xs[i]\<close>: a negative index counts from the end, one out of range raises.\<close>

definition py_index :: "'a list \<Rightarrow> int \<Rightarrow> 'a res" where
  "py_index xs i =
     (if 0 \<le> i \<and> i < int (length xs) then Inr (xs ! nat i)
      else if - int (length xs) \<le> i \<and> i < 0 then Inr (xs ! nat (int (length xs) + i))
      else Inl (Exc ''IndexError'' ''list index out of range''))"

definition percentile :: "pyfloat list \<Rightarrow> pyfloat \<Rightarrow> pyfloat res" where
  "percentile sorted_values pct =
     (if sorted_values = [] then Inr NaN
      else
        (case f_mul (float_of_int (int (length sorted_values) - 1)) (f_div pct (Fin 100)) of
           Fin k \<Rightarrow>
             (let f = \<lfloor>k\<rfloor>; c = \<lceil>k\<rceil> in
              if f = c then py_index sorted_values \<lfloor>k\<rfloor>
              else
                (case (py_index sorted_values f, py_index sorted_values c) of
                   (Inr lo, Inr hi) \<Rightarrow>
                     Inr (f_add lo (f_mul (f_sub hi lo) (f_sub (Fin k) (float_of_int f))))
                 | (Inl e, _) \<Rightarrow> Inl e
                 | (_, Inl e) \<Rightarrow> Inl e))
         | NaN \<Rightarrow> Inl (ValueError ''cannot convert float NaN to integer'')
         | _ \<Rightarrow> Inl (Exc ''OverflowError'' ''cannot convert float infinity to integer'')))"

text \<open>
  \<open>statistics.fmean\<close>: \<open>fsum\<close> of finite floats is correctly rounded, and a NaN or an infinity carries over.
  Infinities of both signs, on which it raises, do not occur among latencies.
\<close>

definition fmean :: "pyfloat list \<Rightarrow> pyfloat" where
  "fmean xs =
     (if list_all is_finite xs
      then f_div (f_round (sum_list (map f_value xs))) (float_of_int (int (length xs)))
      else if NaN \<in> set xs \<or> (PInf \<in> set xs \<and> NInf \<in> set xs) then NaN
      else if PInf \<in> set xs then PInf else NInf)"

text \<open>\<open>statistics.median\<close> of a non-empty list.\<close>

definition median :: "pyfloat list \<Rightarrow> pyfloat" where
  "median xs =
     (let data = sort xs; n = length xs in
      if odd n then data ! (n div 2)
      else f_div (f_add (data ! (n div 2 - 1)) (data ! (n div 2))) (Fin 2))"

text \<open>\<open>a / b\<close> of two integers: the exact quotient, rounded once.\<close>

definition int_ratio :: "int \<Rightarrow> int \<Rightarrow> pyfloat" where
  "int_ratio a b = f_round (of_int a / of_int b)"

definition count_samples :: "(sample \<Rightarrow> bool) \<Rightarrow> sample list \<Rightarrow> int" where
  "count_samples P samples = int (length (filter P samples))"

definition compute_trial_stats :: "sample list \<Rightarrow> pyfloat \<Rightarrow> trial_stats res" where
  "compute_trial_stats samples wall_seconds =
     (let n = int (length samples);
          elapsed_ms_sorted = sort (map (\<lambda>s. f_mul (sm_elapsed_seconds s) (Fin 1000)) samples);
          errors = count_samples sm_is_error samples;
          timeouts = count_samples sm_is_timeout samples
      in case (percentile elapsed_ms_sorted (Fin 50), percentile elapsed_ms_sorted (Fin 95),
               percentile elapsed_ms_sorted (Fin 99)) of
           (Inr p50, Inr p95, Inr p99) \<Rightarrow>
             Inr \<lparr>ts_request_count = n, ts_wall_seconds = wall_seconds,
                  ts_throughput_rps =
                    (if f_less (Fin 0) wall_seconds then f_div (float_of_int n) wall_seconds else NaN),
                  ts_p50_ms = p50, ts_p95_ms = p95, ts_p99_ms = p99,
                  ts_mean_ms = (if elapsed_ms_sorted = [] then NaN else fmean elapsed_ms_sorted),
                  ts_error_rate = (if n \<noteq> 0 then int_ratio errors n else NaN),
                  ts_timeout_rate = (if n \<noteq> 0 then int_ratio timeouts n else NaN)\<rparr>
         | (Inl e, _, _) \<Rightarrow> Inl e
         | (_, Inl e, _) \<Rightarrow> Inl e
         | (_, _, Inl e) \<Rightarrow> Inl e)"

definition median_fields :: "(string \<times> (trial_stats \<Rightarrow> pyfloat)) list" where
  "median_fields =
     [(''throughput_rps'', ts_throughput_rps), (''p50_ms'', ts_p50_ms), (''p95_ms'', ts_p95_ms),
      (''p99_ms'', ts_p99_ms), (''mean_ms'', ts_mean_ms), (''error_rate'', ts_error_rate),
      (''timeout_rate'', ts_timeout_rate)]"

text \<open>\<open>max(...)\<close> and \<open>min(...)\<close> of a non-empty sequence, from the left.\<close>

definition py_max_of :: "pyfloat list \<Rightarrow> pyfloat" where
  "py_max_of xs = foldl py_max (hd xs) (tl xs)"

definition py_min_of :: "pyfloat list \<Rightarrow> pyfloat" where
  "py_min_of xs = foldl py_min (hd xs) (tl xs)"

definition median_trial_stats :: "trial_stats list \<Rightarrow> trial_stats \<times> pyfloat pydict" where
  "median_trial_stats trials =
     (let of_field = (\<lambda>f. median (map f trials));
          variability = map (\<lambda>(name, f). (name, f_sub (py_max_of (map f trials)) (py_min_of (map f trials))))
                          median_fields
      in (\<lparr>ts_request_count = ts_request_count (hd trials),
           ts_wall_seconds = of_field ts_wall_seconds,
           ts_throughput_rps = of_field ts_throughput_rps,
           ts_p50_ms = of_field ts_p50_ms, ts_p95_ms = of_field ts_p95_ms, ts_p99_ms = of_field ts_p99_ms,
           ts_mean_ms = of_field ts_mean_ms, ts_error_rate = of_field ts_error_rate,
           ts_timeout_rate = of_field ts_timeout_rate\<rparr>, variability))"


subsection \<open>Workload\<close>

text \<open>One request of a worker: when it starts, how \<open>call_tool\<close> ends (its \<open>is_error\<close>), when that is.\<close>

record request_run =
  rr_start :: pyfloat
  rr_outcome :: "bool res"
  rr_stop :: pyfloat

definition request_sample :: "request_run \<Rightarrow> sample res" where
  "request_sample q =
     (let elapsed = f_sub (rr_stop q) (rr_start q) in
      case rr_outcome q of
        Inr is_error \<Rightarrow> Inr \<lparr>sm_elapsed_seconds = elapsed, sm_is_error = is_error, sm_is_timeout = False\<rparr>
      | Inl (TimeoutErr m) \<Rightarrow> Inr \<lparr>sm_elapsed_seconds = elapsed, sm_is_error = True, sm_is_timeout = True\<rparr>
      | Inl (Exc c m) \<Rightarrow> Inr \<lparr>sm_elapsed_seconds = elapsed, sm_is_error = True, sm_is_timeout = False\<rparr>
      | Inl e \<Rightarrow> Inl e)"

text \<open>\<open>run i\<close> is what the \<open>i\<close>-th request of the worker does.\<close>

fun worker_loop :: "(nat \<Rightarrow> request_run) \<Rightarrow> nat \<Rightarrow> nat \<Rightarrow> sample list res" where
  "worker_loop run i 0 = Inr []"
| "worker_loop run i (Suc n) =
     (case request_sample (run i) of
        Inl e \<Rightarrow> Inl e
      | Inr s \<Rightarrow> (case worker_loop run (Suc i) n of Inl e \<Rightarrow> Inl e | Inr ss \<Rightarrow> Inr (s # ss)))"

text \<open>
  A worker opens its client, makes its requests and closes the client. Opening may raise; closing gets
  the exception that the body raised, if any, and may raise one of its own.
\<close>

record worker_run =
  wr_enter :: "unit res"
  wr_request :: "nat \<Rightarrow> request_run"
  wr_leave :: "exn option \<Rightarrow> unit res"

definition worker :: "worker_run \<Rightarrow> nat \<Rightarrow> sample list res" where
  "worker q requests_per_client =
     (case wr_enter q of
        Inl e \<Rightarrow> Inl e
      | Inr _ \<Rightarrow>
          (case worker_loop (wr_request q) 0 requests_per_client of
             Inl e \<Rightarrow> (case wr_leave q (Some e) of Inl e' \<Rightarrow> Inl e' | Inr _ \<Rightarrow> Inl e)
           | Inr samples \<Rightarrow> (case wr_leave q None of Inl e \<Rightarrow> Inl e | Inr _ \<Rightarrow> Inr samples)))"

text \<open>\<open>asyncio.gather\<close>: the results in the order of the workers, or the exception of one that failed.\<close>

fun gather :: "'a res list \<Rightarrow> 'a list res" where
  "gather [] = Inr []"
| "gather (r # rs) =
     (case r of Inl e \<Rightarrow> Inl e | Inr x \<Rightarrow> (case gather rs of Inl e \<Rightarrow> Inl e | Inr xs \<Rightarrow> Inr (x # xs)))"

definition run_trial :: "(nat \<Rightarrow> worker_run) \<Rightarrow> nat \<Rightarrow> nat \<Rightarrow> pyfloat \<Rightarrow> pyfloat \<Rightarrow> trial_stats res" where
  "run_trial runs concurrency requests_per_client start stop =
     (case gather (map (\<lambda>w. worker (runs w) requests_per_client) [0..<concurrency]) of
        Inl e \<Rightarrow> Inl e
      | Inr results \<Rightarrow> compute_trial_stats (concat results) (f_sub stop start))"


subsection \<open>Overhead\<close>

record overhead_row =
  ov_tool :: string
  ov_concurrency :: int
  ov_direct_p50_ms :: pyfloat
  ov_gateway_p50_ms :: pyfloat
  ov_absolute_overhead_ms :: pyfloat
  ov_percentage_overhead :: pyfloat

text \<open>\<open>{(r.tool, r.concurrency): r for r in direct_results}.get(key)\<close>: the last one with the key.\<close>

definition direct_by_key ::
  "configuration_result list \<Rightarrow> string \<times> int \<Rightarrow> configuration_result option" where
  "direct_by_key results key =
     find (\<lambda>r. (cr_tool r, cr_concurrency r) = key) (rev results)"

definition overhead_of :: "configuration_result \<Rightarrow> configuration_result \<Rightarrow> overhead_row" where
  "overhead_of d g =
     (let d50 = ts_p50_ms (cr_median d); g50 = ts_p50_ms (cr_median g);
          absolute_ms = f_sub g50 d50
      in \<lparr>ov_tool = cr_tool g, ov_concurrency = cr_concurrency g, ov_direct_p50_ms = d50,
          ov_gateway_p50_ms = g50, ov_absolute_overhead_ms = absolute_ms,
          ov_percentage_overhead =
            (if d50 \<noteq> Fin 0 then f_mul (f_div absolute_ms d50) (Fin 100) else NaN)\<rparr>)"

fun compute_overhead ::
  "configuration_result list \<Rightarrow> configuration_result list \<Rightarrow> overhead_row list" where
  "compute_overhead direct [] = []"
| "compute_overhead direct (g # gs) =
     (case direct_by_key direct (cr_tool g, cr_concurrency g) of
        None \<Rightarrow> compute_overhead direct gs
      | Some d \<Rightarrow> overhead_of d g # compute_overhead direct gs)"


subsection \<open>What the statistics are\<close>

text \<open>The rank \<open>k = (n - 1) * (pct / 100)\<close> that \<open>percentile\<close> computes.\<close>

definition percentile_rank :: "nat \<Rightarrow> rat \<Rightarrow> rat" where
  "percentile_rank n p = rnd64 (of_nat (n - 1) * rnd64 (p / 100))"

lemma percentile_rank_bounds:
  assumes "0 < n" "n \<le> 2 ^ 53" "0 \<le> p" "p \<le> 100"
  shows "0 \<le> percentile_rank n p" "percentile_rank n p \<le> of_nat (n - 1)"
    "f_mul (float_of_int (int n - 1)) (f_div (Fin p) (Fin 100)) = Fin (percentile_rank n p)"
proof -
  have q: "0 \<le> rnd64 (p / 100)" "rnd64 (p / 100) \<le> 1"
    using assms f64.rnd_between [of 0 1 "p / 100"] f64.rnd_zero f64.rnd_one by simp_all
  have n: "rnd64 (of_nat (n - 1)) = of_nat (n - 1)" using assms(2) by (intro rnd64_of_nat) simp
  have pr: "0 \<le> of_nat (n - 1) * rnd64 (p / 100)" "of_nat (n - 1) * rnd64 (p / 100) \<le> of_nat (n - 1)"
    using q mult_left_le [of "rnd64 (p / 100)" "of_nat (n - 1)"] by simp_all
  then show "0 \<le> percentile_rank n p" "percentile_rank n p \<le> of_nat (n - 1)"
    unfolding percentile_rank_def using f64.rnd_between [OF f64.rnd_zero n] by simp_all
  have "of_nat (n - 1) \<le> (2::rat) ^ 53"
    using assms(2) of_nat_le_iff [of "n - 1" "2 ^ 53", where 'a = rat] by simp
  then have "f_round (of_nat (n - 1) * rnd64 (p / 100)) = Fin (percentile_rank n p)"
    using pr f_round_small [of "of_nat (n - 1) * rnd64 (p / 100)"] by (simp add: percentile_rank_def)
  moreover have "float_of_int (int n - 1) = Fin (of_nat (n - 1))"
    using assms(1,2) float_of_int_small [of "int n - 1"] by (simp add: of_nat_diff)
  moreover have "f_round (p / 100) = Fin (rnd64 (p / 100))"
    using assms(3,4) by (intro f_round_small) simp
  ultimately show "f_mul (float_of_int (int n - 1)) (f_div (Fin p) (Fin 100)) = Fin (percentile_rank n p)"
    by simp
qed

definition latencies_ok :: "rat list \<Rightarrow> bool" where
  "latencies_ok vs = (sorted vs \<and> (\<forall>v\<in>set vs. 0 \<le> v \<and> v \<le> 2 ^ 53 \<and> rnd64 v = v))"

lemma interpolate_bounds:
  assumes "0 \<le> a" "a \<le> b" "b \<le> 2 ^ 53" "rnd64 a = a" "0 \<le> t" "t \<le> 1"
  shows "f_add (Fin a) (f_mul (f_sub (Fin b) (Fin a)) (Fin t)) = Fin (rnd64 (a + rnd64 (rnd64 (b - a) * t)))"
    and "a \<le> rnd64 (a + rnd64 (rnd64 (b - a) * t))"
    and "rnd64 (a + rnd64 (rnd64 (b - a) * t)) \<le> rnd64 (a + rnd64 (b - a))"
proof -
  let ?d = "rnd64 (b - a)"
  have two: "rnd64 (2 ^ 53) = 2 ^ 53" using rnd64_of_int [of "2 ^ 53"] by simp
  have d: "0 \<le> ?d" "?d \<le> 2 ^ 53"
    using assms(1-3) f64.rnd_between [OF f64.rnd_zero two, of "b - a"] by simp_all
  have dt: "0 \<le> ?d * t" "?d * t \<le> ?d" using d assms(5,6) by (simp_all add: mult_left_le)
  have y: "0 \<le> rnd64 (?d * t)" "rnd64 (?d * t) \<le> ?d"
    using f64.rnd_between [OF f64.rnd_zero rnd64_idem dt] by simp_all
  show "a \<le> rnd64 (a + rnd64 (?d * t))"
    using y(1) assms(4) by (intro f64.rnd_ge_fixed) simp_all
  show "rnd64 (a + rnd64 (?d * t)) \<le> rnd64 (a + ?d)"
    using y(2) by (intro rnd64_mono) simp
  show "f_add (Fin a) (f_mul (f_sub (Fin b) (Fin a)) (Fin t)) = Fin (rnd64 (a + rnd64 (?d * t)))"
    using f_round_small [of "b - a"] f_round_small [of "?d * t"] f_round_small [of "a + rnd64 (?d * t)"]
      assms(1-3) d dt y by (simp add: f_sub_def)
qed

text \<open>
  A percentile lies where it should. For sorted latencies below \<open>2 ^ 53\<close> and a percentage between
  0 and 100 the rank is in range, so nothing raises; the result is the value at the rank if that is
  an integer, and otherwise between the neighbour below and the sum of that neighbour and their
  distance, as binary64 rounds it.
\<close>

lemma percentile_between:
  assumes "vs \<noteq> []" "length vs \<le> 2 ^ 53" "latencies_ok vs" "0 \<le> p" "p \<le> 100"
  defines "k \<equiv> percentile_rank (length vs) p"
  shows "\<exists>v. percentile (map Fin vs) (Fin p) = Inr (Fin v) \<and> nat \<lceil>k\<rceil> < length vs \<and>
    vs ! nat \<lfloor>k\<rfloor> \<le> v \<and> v \<le> rnd64 (vs ! nat \<lfloor>k\<rfloor> + rnd64 (vs ! nat \<lceil>k\<rceil> - vs ! nat \<lfloor>k\<rfloor>)) \<and>
    (k \<in> \<int> \<longrightarrow> v = vs ! nat \<lfloor>k\<rfloor>)"
proof -
  let ?n = "length vs" and ?f = "nat \<lfloor>k\<rfloor>" and ?c = "nat \<lceil>k\<rceil>"
  have n: "0 < ?n" using assms(1) by simp
  have k: "0 \<le> k" "k \<le> of_nat (?n - 1)"
    "f_mul (float_of_int (int ?n - 1)) (f_div (Fin p) (Fin 100)) = Fin k"
    unfolding k_def using percentile_rank_bounds [OF n assms(2,4,5)] by blast+
  have fc: "0 \<le> \<lfloor>k\<rfloor>" "\<lfloor>k\<rfloor> \<le> \<lceil>k\<rceil>" "\<lceil>k\<rceil> < int ?n" "?f \<le> ?c"
    using k n by (auto simp: ceiling_le_iff of_nat_diff le_floor_iff floor_le_ceiling nat_mono) linarith
  then have fn: "\<lfloor>k\<rfloor> < int ?n" by linarith
  have i: "py_index (map Fin vs) \<lfloor>k\<rfloor> = Inr (Fin (vs ! ?f))" "py_index (map Fin vs) \<lceil>k\<rceil> = Inr (Fin (vs ! ?c))"
    using fc fn by (simp_all add: py_index_def nat_less_iff)
  have ok: "0 \<le> vs ! ?f" "vs ! ?f \<le> vs ! ?c" "vs ! ?c \<le> 2 ^ 53" "rnd64 (vs ! ?f) = vs ! ?f"
    using assms(3) fc fn by (auto simp: latencies_ok_def sorted_iff_nth_mono nat_less_iff)
  show ?thesis
  proof (cases "\<lfloor>k\<rfloor> = \<lceil>k\<rceil>")
    case True
    then show ?thesis
      using i ok fc k(3) assms(1) rnd64_mono [of "vs ! ?f" "vs ! ?f + rnd64 (vs ! ?c - vs ! ?f)"]
      by (simp add: percentile_def nat_less_iff)
  next
    case False
    let ?t = "rnd64 (k - of_int \<lfloor>k\<rfloor>)"
    have frac: "0 \<le> k - of_int \<lfloor>k\<rfloor>" "k - of_int \<lfloor>k\<rfloor> \<le> 1" by linarith+
    then have t: "0 \<le> ?t" "?t \<le> 1"
      using f64.rnd_between [OF f64.rnd_zero f64.rnd_one] by blast+
    have "int ?n \<le> 2 ^ 53" using assms(2) of_nat_le_iff [of ?n "2 ^ 53", where 'a = int] by simp
    then have "\<bar>\<lfloor>k\<rfloor>\<bar> \<le> 2 ^ 53" using fc(1) fn by linarith
    then have "f_sub (Fin k) (float_of_int \<lfloor>k\<rfloor>) = Fin ?t"
      using frac f_round_small [of "k - of_int \<lfloor>k\<rfloor>"] by (simp add: float_of_int_small f_sub_def)
    moreover have "k \<notin> \<int>" using False by (auto elim!: Ints_cases)
    ultimately show ?thesis
      using interpolate_bounds [OF ok t] i k(3) fc assms(1) False
      by (simp add: percentile_def nat_less_iff Let_def del: f_add.simps f_mul.simps)
  qed
qed

text \<open>A trial measures every request: as many samples as connections times requests of each.\<close>

lemma worker_loop_length: "worker_loop run i n = Inr ss \<Longrightarrow> length ss = n"
  by (induction run i n arbitrary: ss rule: worker_loop.induct) (auto split: sum.splits)

lemma gather_Inr: "gather rs = Inr xs \<Longrightarrow> rs = map Inr xs"
  by (induction rs arbitrary: xs) (auto split: sum.splits)

lemma compute_trial_stats_count:
  "compute_trial_stats samples w = Inr st \<Longrightarrow> ts_request_count st = int (length samples) \<and> ts_wall_seconds st = w"
  by (auto simp: compute_trial_stats_def Let_def split: sum.splits)

lemma run_trial_counts:
  assumes "run_trial runs concurrency n start stop = Inr st"
  shows "ts_request_count st = int (concurrency * n)"
proof -
  obtain results where r: "gather (map (\<lambda>w. worker (runs w) n) [0..<concurrency]) = Inr results"
    "compute_trial_stats (concat results) (f_sub stop start) = Inr st"
    using assms by (auto simp: run_trial_def split: sum.splits)
  have "length results = concurrency"
    using arg_cong [OF gather_Inr [OF r(1)], of length] by simp
  moreover have "length ss = n" if "ss \<in> set results" for ss
  proof -
    have "Inr ss \<in> set (map (\<lambda>w. worker (runs w) n) [0..<concurrency])" using that gather_Inr [OF r(1)] by simp
    then obtain w where "worker (runs w) n = Inr ss" by auto
    then show ?thesis using worker_loop_length by (auto simp: worker_def split: sum.splits)
  qed
  ultimately have "length (concat results) = concurrency * n"
    by (simp add: length_concat sum_list_triv cong: map_cong)
  then show ?thesis using compute_trial_stats_count [OF r(2)] by simp
qed

end
