(* ===== verification/AuditReport.thy ===== *)
theory AuditReport
  imports JsonReader BenchmarkStats
begin

text \<open>
  The audit log as its reader sees it: \<open>_policy_latency_stats_from_audit_log\<close> of benchmarks/run.py,
  with the standard library's \<open>read_text\<close> (the newline translation of text mode), \<open>str.splitlines\<close> and
  \<open>json.loads\<close>. The log reads back to the records that were written, so the reported latencies are
  those that the gateway measured. A latency that is neither null nor a float is not one that
  \<open>AuditLogger\<close> writes; what sorting makes of it is outside the model.
\<close>

subsection \<open>Lines\<close>

definition is_line_break :: "char \<Rightarrow> bool" where
  "is_line_break c =
     (c \<in> {CHR 0x0A, CHR 0x0D, CHR 0x0B, CHR 0x0C, CHR 0x1C, CHR 0x1D, CHR 0x1E, CHR 0x85})"

function py_splitlines :: "string \<Rightarrow> string list" where
  "py_splitlines s =
     (if s = [] then []
      else takeWhile (\<lambda>c. \<not> is_line_break c) s #
        (case dropWhile (\<lambda>c. \<not> is_line_break c) s of
           [] \<Rightarrow> []
         | c # cs \<Rightarrow> py_splitlines (if c = CHR 0x0D \<and> take 1 cs = [CHR 0x0A] then tl cs else cs)))"
  by pat_completeness auto
termination
proof (relation "measure length")
  fix s :: string and c cs
  assume "dropWhile (\<lambda>c. \<not> is_line_break c) s = c # cs"
  then have "length (c # cs) \<le> length s" by (metis length_dropWhile_le)
  then show "(if c = CHR 0x0D \<and> take 1 cs = [CHR 0x0A] then tl cs else cs, s) \<in> measure length"
    by (cases cs) auto
qed simp

declare py_splitlines.simps [simp del]

text \<open>Text mode reads \<open>\r\n\<close> and \<open>\r\<close> as \<open>\n\<close>.\<close>

fun universal_newlines :: "string \<Rightarrow> string" where
  "universal_newlines [] = []"
| "universal_newlines (c # cs) =
     (if c = CHR 0x0D then (if take 1 cs = [CHR 0x0A] then universal_newlines cs else CHR 0x0A # universal_newlines cs)
      else c # universal_newlines cs)"

lemma universal_newlines_id: "CHR 0x0D \<notin> set s \<Longrightarrow> universal_newlines s = s"
  by (induction s) auto

definition one_line :: "string \<Rightarrow> bool" where
  "one_line l = list_all (\<lambda>c. \<not> is_line_break c) l"

lemma py_splitlines_Nil [simp]: "py_splitlines [] = []"
  by (simp add: py_splitlines.simps)

lemma py_splitlines_line: "one_line l \<Longrightarrow> py_splitlines (l @ CHR 0x0A # r) = l # py_splitlines r"
  by (subst py_splitlines.simps)
    (simp add: one_line_def list_all_iff takeWhile_append dropWhile_append is_line_break_def)

lemma splitlines_of_lines:
  "list_all one_line ls \<Longrightarrow> py_splitlines (concat (map (\<lambda>l. l @ [CHR 0x0A]) ls)) = ls"
  by (induction ls) (simp_all add: py_splitlines_line)

lemma printable_one_line: "printable s \<Longrightarrow> one_line s"
  by (auto simp: printable_def one_line_def list_all_iff is_line_break_def)


subsection \<open>The report of policy latencies\<close>

definition record_get :: "pyval \<Rightarrow> string \<Rightarrow> pyval res" where
  "record_get record k =
     (case record of PDict kvs \<Rightarrow> Inr (dict_get_or kvs k PNone)
      | _ \<Rightarrow> Inl (Exc ''AttributeError'' ''object has no attribute 'get''))"

fun read_latencies :: "string list \<Rightarrow> pyval list res" where
  "read_latencies [] = Inr []"
| "read_latencies (line # lines) =
     (case json_loads line of
        Inl e \<Rightarrow> Inl e
      | Inr record \<Rightarrow>
          (case record_get record ''policy_latency_ms'' of
             Inl e \<Rightarrow> Inl e
           | Inr v \<Rightarrow> map_sum id (\<lambda>vs. if v \<noteq> PNone then v # vs else vs) (read_latencies lines)))"

definition float_of :: "pyval \<Rightarrow> pyfloat option" where
  "float_of v = (case v of PFloat x \<Rightarrow> Some x | _ \<Rightarrow> None)"

definition latency_stats :: "pyfloat list \<Rightarrow> pyval pydict res" where
  "latency_stats latencies =
     (if latencies = [] then Inr [(''sample_count'', PInt 0)]
      else
        (let data = sort latencies in
         case (percentile data (Fin 50), percentile data (Fin 95), percentile data (Fin 99)) of
           (Inr p50, Inr p95, Inr p99) \<Rightarrow>
             Inr [(''sample_count'', PInt (int (length data))), (''p50_ms'', PFloat p50), (''p95_ms'', PFloat p95),
                  (''p99_ms'', PFloat p99), (''mean_ms'', PFloat (fmean data))]
         | (Inl e, _, _) \<Rightarrow> Inl e
         | (_, Inl e, _) \<Rightarrow> Inl e
         | (_, _, Inl e) \<Rightarrow> Inl e))"

text \<open>\<open>file\<close> is the text of the log, if it exists.\<close>

definition policy_latency_stats_from_audit_log :: "string option \<Rightarrow> pyval pydict res" where
  "policy_latency_stats_from_audit_log file =
     (case (case file of None \<Rightarrow> Inr [] | Some s \<Rightarrow> read_latencies (py_splitlines (universal_newlines s))) of
        Inl e \<Rightarrow> Inl e
      | Inr vs \<Rightarrow>
          if list_all (\<lambda>v. float_of v \<noteq> None) vs then latency_stats (List.map_filter float_of vs)
          else Inl (Exc ''BeyondModel'' ''a latency that the gateway does not write''))"


subsection \<open>Records survive the log\<close>

text \<open>What the code can put into a record: binary64 floats, dictionaries with distinct keys.\<close>

definition latency_valid :: "pyfloat option \<Rightarrow> bool" where
  "latency_valid x = (case x of None \<Rightarrow> True | Some y \<Rightarrow> f64_valid y)"

definition record_valid :: "audit_record \<Rightarrow> bool" where
  "record_valid r =
     (value_ok (PDict (ar_arguments r)) \<and> floats_valid (PDict (ar_arguments r)) \<and>
      latency_valid (ar_policy_latency_ms r) \<and> latency_valid (ar_upstream_latency_ms r) \<and>
      f64_valid (ar_total_latency_ms r))"

lemma dict_ok_map_values: "dict_ok (map (\<lambda>(k, v). (k, f k v)) kvs) = dict_ok kvs"
  by (simp add: dict_ok_def o_def case_prod_beta)

lemma redact_valid: "value_ok v \<and> floats_valid v \<Longrightarrow> value_ok (redact v) \<and> floats_valid (redact v)"
proof (induction v rule: pyval_induct)
  case (PDict kvs)
  then show ?case using dict_ok_map_values [of "\<lambda>key val. if is_sensitive_name key then PStr redacted_placeholder else redact val" kvs]
    by (fastforce simp: list_all_iff)
qed (auto simp: list_all_iff)

lemma keys_only_valid: "value_ok v \<Longrightarrow> value_ok (keys_only v) \<and> floats_valid (keys_only v)"
proof (induction v rule: pyval_induct)
  case (PDict kvs)
  then show ?case using dict_ok_map_values [of "\<lambda>key val. keys_only val" kvs] by (fastforce simp: list_all_iff)
qed (auto simp: list_all_iff)

lemma represented_valid:
  assumes "record_valid r" "represent_arguments (ar_arguments r) mode = Inr v"
  shows "value_ok v \<and> floats_valid v"
  using assms redact_valid [of "PDict (ar_arguments r)"] keys_only_valid [of "PDict (ar_arguments r)"]
  by (auto simp: represent_arguments_def record_valid_def simp del: redact.simps keys_only.simps split: if_splits)

lemma payload_valid:
  assumes "record_valid r" "value_ok v" "floats_valid v"
  shows "value_ok (record_payload r v) \<and> floats_valid (record_payload r v)"
  using assms by (auto simp: record_payload_def record_valid_def latency_valid_def dict_ok_def opt_val_def split: option.split)

text \<open>What the reader gets for a record.\<close>

definition audit_entry :: "string \<Rightarrow> audit_record \<Rightarrow> pyval" where
  "audit_entry mode r =
     (case represent_arguments (ar_arguments r) mode of
        Inl e \<Rightarrow> PNone | Inr v \<Rightarrow> json_plain (record_payload r v))"

lemma audit_line_reads:
  assumes "known_mode mode" "record_valid r"
  shows "json_loads (audit_line mode r) = Inr (audit_entry mode r)"
proof -
  obtain v where v: "represent_arguments (ar_arguments r) mode = Inr v"
    using assms(1) represent_arguments_known by blast
  then show ?thesis
    using json_loads_dumps payload_valid [OF assms(2)] represented_valid [OF assms(2) v]
    by (simp add: audit_line_def serialize_def audit_entry_def)
qed

lemma audit_line_printable: "printable (audit_line mode r)"
  by (simp add: audit_line_def serialize_def printable_json split: sum.split)

lemma file_of_lines: "al_file (fold (\<lambda>l. append_line (l @ [CHR 0x0A])) ls lg) = al_file lg @ concat (map (\<lambda>l. l @ [CHR 0x0A]) ls)"
  by (induction ls arbitrary: lg) (simp_all add: append_line_def)

text \<open>The log file as the lines that \<open>str.splitlines\<close> sees.\<close>

lemma audit_splitlines:
  "py_splitlines (universal_newlines (concat (map (\<lambda>l. l @ [CHR 0x0A]) (map (audit_line mode) recs)))) =
    map (audit_line mode) recs"
proof -
  let ?ls = "map (audit_line mode) recs"
  have one: "list_all one_line ?ls"
    using printable_one_line [OF audit_line_printable] by (auto simp: list_all_iff)
  then have "CHR 0x0D \<notin> set (concat (map (\<lambda>l. l @ [CHR 0x0A]) ?ls))"
    by (auto simp: list_all_iff one_line_def is_line_break_def)
  then have "universal_newlines (concat (map (\<lambda>l. l @ [CHR 0x0A]) ?ls)) = concat (map (\<lambda>l. l @ [CHR 0x0A]) ?ls)"
    by (rule universal_newlines_id)
  then show ?thesis using splitlines_of_lines [OF one] by metis
qed

lemma log_splitlines:
  assumes "known_mode mode" "\<forall>r e n. (r, WriteFails e n) \<notin> set rs"
  shows "py_splitlines (universal_newlines (al_file (emit_all rs (make_logger mode)))) =
    map (audit_line mode \<circ> fst) (filter (reached \<circ> snd) rs)"
proof -
  have "al_file (emit_all rs (make_logger mode)) =
      concat (map (\<lambda>l. l @ [CHR 0x0A]) (map (audit_line mode) (map fst (filter (reached \<circ> snd) rs))))"
    by (subst emit_all_fold [OF assms(1) _ assms(2)]) (simp_all add: make_logger_def file_of_lines o_assoc)
  then show ?thesis using audit_splitlines [of mode "map fst (filter (reached \<circ> snd) rs)"] by simp
qed

text \<open>
  C19: The audit log can be read back. After any sequence of \<open>emit\<close> calls, none cut short by a failing
  write, splitting the file's text into lines and parsing each as JSON gives, one for one and in
  order, the payloads of the records that were written: every field, with floats equal to the last
  bit and strings whatever characters they contain; a tuple among the arguments reads as a list.
\<close>

theorem audit_log_reads_back:
  assumes "known_mode mode" "\<forall>r e n. (r, WriteFails e n) \<notin> set rs" "\<forall>(r, w)\<in>set rs. record_valid r"
  shows "map json_loads (py_splitlines (universal_newlines (al_file (emit_all rs (make_logger mode))))) =
    map (Inr \<circ> audit_entry mode \<circ> fst) (filter (reached \<circ> snd) rs)"
  using assms audit_line_reads [OF assms(1)] by (auto simp: log_splitlines)

theorem audit_log_reads_back_witness:
  "map json_loads (py_splitlines (universal_newlines (al_file (emit_all
      [(demo_record, Written), (demo_record, WriteCancelled False)] (make_logger ''redacted''))))) =
    [Inr (audit_entry ''redacted'' demo_record)]"
proof -
  have "record_valid demo_record" by code_simp
  then show ?thesis
    by (subst audit_log_reads_back) (simp_all add: known_mode_def reached_def)
qed

lemma entry_latency:
  "known_mode mode \<Longrightarrow> record_get (audit_entry mode r) ''policy_latency_ms'' = Inr (opt_val PFloat (ar_policy_latency_ms r))"
  using represent_arguments_known [of mode "ar_arguments r"]
  by (auto simp: audit_entry_def record_payload_def record_get_def dict_get_or_def opt_val_def split: option.split)

text \<open>
  The report tells the truth about the log. The policy-latency section of the benchmark report is
  computed from exactly the policy latencies of the records that were written, those that have one.
\<close>

lemma latency_report_of_log:
  assumes "known_mode mode" "\<forall>r e n. (r, WriteFails e n) \<notin> set rs" "\<forall>(r, w)\<in>set rs. record_valid r"
  shows "policy_latency_stats_from_audit_log (Some (al_file (emit_all rs (make_logger mode)))) =
    latency_stats (List.map_filter (ar_policy_latency_ms \<circ> fst) (filter (reached \<circ> snd) rs))"
proof -
  have "\<forall>(r, w)\<in>set qs. record_valid r \<Longrightarrow> read_latencies (map (audit_line mode \<circ> fst) qs) =
      Inr (map PFloat (List.map_filter (ar_policy_latency_ms \<circ> fst) qs))" for qs :: "(audit_record \<times> write_outcome) list"
  proof (induction qs)
    case (Cons q qs)
    then show ?case
      by (cases "ar_policy_latency_ms (fst q)")
        (simp_all add: audit_line_reads [OF assms(1)] entry_latency [OF assms(1)] opt_val_def map_filter_simps case_prod_beta)
  qed (simp add: map_filter_simps)
  from this [of "filter (reached \<circ> snd) rs"] have
    "read_latencies (map (audit_line mode \<circ> fst) (filter (reached \<circ> snd) rs)) =
      Inr (map PFloat (List.map_filter (ar_policy_latency_ms \<circ> fst) (filter (reached \<circ> snd) rs)))"
    using assms(3) by auto
  moreover have "List.map_filter float_of (map PFloat xs) = xs" for xs
    by (induction xs) (simp_all add: map_filter_simps float_of_def)
  ultimately show ?thesis
    by (simp add: policy_latency_stats_from_audit_log_def log_splitlines [OF assms(1,2)] list_all_iff float_of_def)
qed

end
