(* ===== verification/LoopRate.thy ===== *)
theory LoopRate
  imports LoopProperties
begin

text \<open>
  The rate limit under interleaving. What a task remembers of the two limits in its locals
  (\<open>rate_limit_result\<close>, \<open>concurrency_result\<close>) tells which calls took a token and which were forwarded;
  counted over all tasks and set against the answers of the buckets, this carries the bound on one
  bucket (GatewayLimits) over to the calls that reach the upstream.
\<close>

subsection \<open>The limits in the locals\<close>

text \<open>A segment that takes no token, and passes the ceiling exactly if it ends in the upstream call.\<close>

definition past_rate :: "call_state \<Rightarrow> point \<times> call_state \<Rightarrow> bool" where
  "past_rate s r \<longleftrightarrow>
     gw_rate (st_gw (snd r)) = gw_rate (st_gw s) \<and>
     lo_rate_limit_result (st_lo (snd r)) = lo_rate_limit_result (st_lo s) \<and>
     (lo_concurrency_result (st_lo (snd r)) = Passed \<longleftrightarrow>
        call_point (fst r) \<or> lo_concurrency_result (st_lo s) = Passed)"

lemma past_rate_from:
  "past_rate u r \<Longrightarrow> gw_rate (st_gw u) = gw_rate (st_gw s) \<Longrightarrow>
   lo_rate_limit_result (st_lo u) = lo_rate_limit_result (st_lo s) \<Longrightarrow>
   (lo_concurrency_result (st_lo u) = Passed \<longleftrightarrow> lo_concurrency_result (st_lo s) = Passed) \<Longrightarrow> past_rate s r"
  by (simp add: past_rate_def)

lemma past_rate_end:
  "\<not> call_point pt \<Longrightarrow> gw_rate (st_gw u) = gw_rate (st_gw s) \<Longrightarrow>
   lo_rate_limit_result (st_lo u) = lo_rate_limit_result (st_lo s) \<Longrightarrow>
   lo_concurrency_result (st_lo u) = lo_concurrency_result (st_lo s) \<Longrightarrow> past_rate s (pt, u)"
  by (simp add: past_rate_def)

lemma past_rate_escape: "past_rate s (escape_to E X e s)"
  by (auto simp: past_rate_def escape_to_def Let_def count_reading_def count_write_def split: sum.split)

lemma past_rate_over: "past_rate s (emission_over E X em res s)"
  by (auto simp: emission_over_def Let_def leave_slot_def intro!: past_rate_end past_rate_from [OF past_rate_escape] split: sum.split)

lemma past_rate_written: "past_rate s (emission_over E X em res (count_write s))"
  by (rule past_rate_from [OF past_rate_over]) (simp_all add: count_write_def)

lemma past_rate_start: "past_rate s (start_emission E X slot after out a c s)"
  by (auto simp: start_emission_def Let_def count_reading_def count_write_def
      intro!: past_rate_end past_rate_from [OF past_rate_over] split: sum.split)

lemma past_rate_answer: "past_rate s (answer E X slot out a c res s)"
  unfolding answer_def by (rule past_rate_start)

lemma past_rate_reply: "past_rate s (seg_reply E X t reply s)"
  by (auto simp: seg_reply_def Let_def handler_simps stop_upstream_timer_def leave_slot_def
      intro!: past_rate_from [OF past_rate_start] past_rate_from [OF past_rate_answer] past_rate_from [OF past_rate_escape]
      split: sum.split exn.split)

lemma past_rate_forward: "lo_concurrency_result (st_lo s) \<noteq> Passed \<Longrightarrow> past_rate s (seg_forward E X s)"
  by (auto simp: seg_forward_def Let_def handler_simps count_reading_def past_rate_def [of _ "(Calling t, s)" for t s]
      intro!: past_rate_from [OF past_rate_answer] split: prod.split)

lemma past_rate_tools: "lo_concurrency_result (st_lo s) \<noteq> Passed \<Longrightarrow> past_rate s (seg_tools C E X tp tools s)"
  by (auto simp: seg_tools_def seg_deny_def seg_arguments_def Let_def handler_simps stop_policy_timer_def count_reading_def
      intro!: past_rate_from [OF past_rate_answer] past_rate_from [OF past_rate_escape] past_rate_from [OF past_rate_forward]
      split: option.split sum.split)

lemma past_rate_begin:
  assumes "lo_rate_limit_result (st_lo s) = Failed" "lo_concurrency_result (st_lo s) \<noteq> Passed"
  shows "gw_rate (st_gw (snd (seg_begin C E X s))) = gw_rate (st_gw (snd (acquire_token E X s)))"
    and "lo_rate_limit_result (st_lo (snd (seg_begin C E X s))) = Passed \<longleftrightarrow> fst (acquire_token E X s) = Inr True"
    and "lo_concurrency_result (st_lo (snd (seg_begin C E X s))) \<noteq> Passed"
    and "policy_of (fst (seg_begin C E X s)) \<noteq> None \<Longrightarrow> fst (acquire_token E X s) = Inr True"
proof -
  obtain res s1 where s1: "acquire_token E X s = (res, s1)" by (cases "acquire_token E X s")
  then have keep: "lo_rate_limit_result (st_lo s1) = Failed" "lo_concurrency_result (st_lo s1) \<noteq> Passed"
    using assms by (auto simp: acquire_token_def split: prod.splits)
  let ?u = "if res = Inr True then with_local (\<lambda>l. l\<lparr>lo_rate_limit_result := Passed\<rparr>) s1 else s1"
  have past: "past_rate ?u (seg_begin C E X s)"
    by (cases s1) (auto simp: seg_begin_def seg_deny_def s1 Let_def set_local_def
        intro!: past_rate_end past_rate_from [OF past_rate_answer] past_rate_from [OF past_rate_escape]
        split: sum.split option.split if_splits)
  have u: "gw_rate (st_gw ?u) = gw_rate (st_gw s1)" "lo_rate_limit_result (st_lo ?u) = Passed \<longleftrightarrow> res = Inr True"
    "lo_concurrency_result (st_lo ?u) \<noteq> Passed"
    using keep by (simp_all add: set_local_def case_prod_beta)
  from past u begin_not_calling show "gw_rate (st_gw (snd (seg_begin C E X s))) = gw_rate (st_gw (snd (acquire_token E X s)))"
    and "lo_rate_limit_result (st_lo (snd (seg_begin C E X s))) = Passed \<longleftrightarrow> fst (acquire_token E X s) = Inr True"
    and "lo_concurrency_result (st_lo (snd (seg_begin C E X s))) \<noteq> Passed"
    by (simp_all add: past_rate_def s1)
  show "policy_of (fst (seg_begin C E X s)) \<noteq> None \<Longrightarrow> fst (acquire_token E X s) = Inr True"
    by (auto simp: seg_begin_def seg_deny_def s1 Let_def segments_policy split: sum.splits if_splits)
qed


subsection \<open>Steps\<close>

text \<open>A call holds a token before it may wait for the tool list, and when it has been forwarded.\<close>

definition limits_ok :: "task \<Rightarrow> bool" where
  "limits_ok t \<longleftrightarrow>
     (tk_point t = Ready \<longrightarrow> tk_locals t = initial_locals) \<and>
     (policy_of (tk_point t) \<noteq> None \<longrightarrow>
        lo_rate_limit_result (tk_locals t) = Passed \<and> lo_concurrency_result (tk_locals t) \<noteq> Passed) \<and>
     (lo_concurrency_result (tk_locals t) = Passed \<longrightarrow> lo_rate_limit_result (tk_locals t) = Passed)"

text \<open>What a task asks of the buckets when it steps: nothing, unless a call begins.\<close>

definition task_attempt :: "task \<Rightarrow> (string \<times> pyfloat \<times> pyfloat) option" where
  "task_attempt t =
     (case tk_point t of
        Ready \<Rightarrow> map_option (\<lambda>p. (p, ce_rate_new (tk_env t), ce_rate_now (tk_env t))) (ce_principal (tk_env t))
      | _ \<Rightarrow> None)"

definition limits_step :: "task \<Rightarrow> shared \<Rightarrow> task \<Rightarrow> shared \<Rightarrow> bool" where
  "limits_step t sh t' sh' \<longleftrightarrow>
     limits_ok t' \<and> tk_point t' \<noteq> Ready \<and>
     (case task_attempt t of
        None \<Rightarrow>
          gw_rate (sh_gateway sh') = gw_rate (sh_gateway sh) \<and>
          lo_rate_limit_result (tk_locals t') = lo_rate_limit_result (tk_locals t)
      | Some (p, t0, t1) \<Rightarrow>
          (case rate_try_acquire p t0 t1 (gw_rate (sh_gateway sh)) of
             (ok, rl) \<Rightarrow>
               gw_rate (sh_gateway sh') = rl \<and>
               (lo_rate_limit_result (tk_locals t') = Passed \<longleftrightarrow> ok = Inr True))) \<and>
     (lo_concurrency_result (tk_locals t') = Passed \<longleftrightarrow>
        call_point (tk_point t') \<or> lo_concurrency_result (tk_locals t) = Passed)"

text \<open>A segment after the first one.\<close>

lemma past_rate_step:
  assumes "past_rate ((sh_gateway sh1, tk_locals t), sh_limiter sh1) r"
    and "gw_rate (sh_gateway sh1) = gw_rate (sh_gateway sh)" "limits_ok t" "tk_point t \<noteq> Ready"
    and "policy_of (fst r) = None" "fst r \<noteq> Ready"
    and "call_point (fst r) \<Longrightarrow> lo_rate_limit_result (tk_locals t) = Passed"
    and "t' = t\<lparr>tk_locals := st_lo (snd r), tk_point := fst r\<rparr>" "gw_rate (sh_gateway sh') = gw_rate (st_gw (snd r))"
  shows "limits_step t sh t' sh'"
  using assms by (auto simp: limits_step_def limits_ok_def past_rate_def task_attempt_def split: point.split)

lemma same_rate_step:
  assumes "limits_ok t" "tk_point t \<noteq> Ready \<or> ce_principal (tk_env t) = None" "pt \<noteq> Ready" "\<not> call_point pt"
    and "policy_of pt \<noteq> None \<Longrightarrow> policy_of (tk_point t) \<noteq> None" "gw_rate (sh_gateway sh') = gw_rate (sh_gateway sh)"
  shows "limits_step t sh (t\<lparr>tk_point := pt\<rparr>) sh'"
  using assms by (auto simp: limits_step_def limits_ok_def task_attempt_def split: point.split)

lemma seg_not_ready: "seg_facts E X held s pt s' \<Longrightarrow> pt \<noteq> Ready"
  by (simp add: seg_facts_def)

lemmas segs_not_ready =
  facts.obeys_begin [THEN seg_not_ready] facts.obeys_tools [THEN seg_not_ready]
  facts.obeys_escape [THEN seg_not_ready] facts.obeys_reply [THEN seg_not_ready] facts.obeys_over [THEN seg_not_ready]

lemma step_limits:
  assumes "task_step C sig t sh = Some (t', sh')" "task_ok t" "limits_ok t"
  shows "limits_step t sh t' sh'"
  using assms(1)
proof (cases rule: task_step_cases)
  case (begins p)
  let ?t = "t\<lparr>tk_locals := initial_locals\<lparr>lo_readings := 1\<rparr>\<rparr>" and ?s = "((sh_gateway sh, initial_locals\<lparr>lo_readings := 1\<rparr>), sh_limiter sh)"
  have ini: "lo_rate_limit_result (st_lo ?s) = Failed" "lo_concurrency_result (st_lo ?s) \<noteq> Passed" "tk_locals t = initial_locals"
    using assms(3) begins by (simp_all add: initial_locals_def limits_ok_def)
  have p: "task_principal t = p" using begins by (simp add: task_principal_def)
  show ?thesis
    using begins past_rate_begin [OF ini(1,2), of C "tk_env t" "task_ctx t"] segs_not_ready(1) ini(3) begin_not_calling
    by (auto simp: Let_def limits_step_def limits_ok_def task_attempt_def acquire_token_def p case_prod_beta initial_locals_def)
next
  case (unauthenticated e)
  then show ?thesis using assms(3) by (auto intro!: same_rate_step)
next
  case (warm tp tools)
  then show ?thesis
    using assms(3) segs_not_ready(2)
    by (intro past_rate_step [OF past_rate_tools [where E = "tk_env t" and X = "task_ctx t" and C = C and tp = tp and tools = tools]])
      (auto simp: Let_def tools_policy limits_ok_def)
next
  case (fetched tp tools)
  then show ?thesis
    using assms(3) segs_not_ready(2)
    by (intro past_rate_step [OF past_rate_tools [where E = "tk_env t" and X = "task_ctx t" and C = C and tp = tp and tools = tools],
        of "sh\<lparr>sh_cache_lock := False, sh_gateway := (sh_gateway sh)\<lparr>gw_cache := Some tools\<rparr>\<rparr>"])
      (auto simp: Let_def tools_policy limits_ok_def)
next
  case (gave_up tp)
  then show ?thesis
    using assms(3) segs_not_ready(3) escape_not_calling
    by (intro past_rate_step [OF past_rate_escape]) (auto simp: Let_def segments_policy)
next
  case (fetch_failed tp e)
  then show ?thesis
    using assms(3) segs_not_ready(3) escape_not_calling
    by (intro past_rate_step [OF past_rate_escape]) (auto simp: Let_def segments_policy)
next
  case (replied timer reply)
  then show ?thesis
    using assms(3) segs_not_ready(4) reply_not_calling
    by (intro past_rate_step [OF past_rate_reply]) (auto simp: Let_def reply_policy)
next
  case (log_cancelled em)
  then show ?thesis
    using assms(3) segs_not_ready(5) over_not_calling task_okD(2) [OF assms(2)]
    by (intro past_rate_step [OF past_rate_written]) (auto simp: Let_def segments_policy)
next
  case (written em w res lg)
  then show ?thesis
    using assms(3) segs_not_ready(5) over_not_calling task_okD(2) [OF assms(2)]
    by (intro past_rate_step [OF past_rate_written [where E = "tk_env t" and X = "task_ctx t" and em = em and res = res],
        of "sh\<lparr>sh_log_lock := False, sh_gateway := (sh_gateway sh)\<lparr>gw_audit := lg\<rparr>\<rparr>"]) (auto simp: Let_def segments_policy)
qed (use assms(2,3) in \<open>auto simp: Let_def intro!: same_rate_step\<close>)


subsection \<open>Runs\<close>

text \<open>The attempts on the buckets, in the order in which the calls begin.\<close>

definition attempt_of :: "(call_env \<times> call_params) list \<Rightarrow> nat \<times> signal \<Rightarrow> (string \<times> pyfloat \<times> pyfloat) option" where
  "attempt_of calls l =
     (case snd l of
        Begin \<Rightarrow>
          if fst l < length calls then
            (let E = fst (calls ! fst l) in
             map_option (\<lambda>p. (p, ce_rate_new E, ce_rate_now E)) (ce_principal E))
          else None
      | _ \<Rightarrow> None)"

definition rate_attempts ::
  "(call_env \<times> call_params) list \<Rightarrow> (nat \<times> signal) list \<Rightarrow> (string \<times> pyfloat \<times> pyfloat) list" where
  "rate_attempts calls ls = List.map_filter (attempt_of calls) ls"

lemma rate_attempts_snoc:
  "rate_attempts calls (ls @ [l]) = rate_attempts calls ls @ (case attempt_of calls l of None \<Rightarrow> [] | Some x \<Rightarrow> [x])"
  by (simp add: rate_attempts_def map_filter_def split: option.split)

lemma rate_run_snoc:
  "rate_run rl (es @ [(p, t0, t1)]) =
    (fst (rate_run rl es) @ [(p, fst (rate_try_acquire p t0 t1 (snd (rate_run rl es))))],
     snd (rate_try_acquire p t0 t1 (snd (rate_run rl es))))"
  by (induction es arbitrary: rl) (auto simp: case_prod_beta)

lemma outcomes_of_snoc: "outcomes_of p (rs @ [(q, r)]) = outcomes_of p rs @ (if q = p then [r] else [])"
  by (simp add: outcomes_of_def)

definition granted :: "string \<Rightarrow> task \<Rightarrow> bool" where
  "granted p t \<longleftrightarrow> lo_rate_limit_result (tk_locals t) = Passed \<and> ce_principal (tk_env t) = Some p"

definition tokens_given :: "string \<Rightarrow> (string \<times> bool res) list \<Rightarrow> nat" where
  "tokens_given p rs = length (filter (\<lambda>r. r = Inr True) (outcomes_of p rs))"

lemma tokens_given_snoc:
  "tokens_given p (rs @ [(q, r)]) = tokens_given p rs + of_bool (q = p \<and> r = Inr True)"
  by (simp add: tokens_given_def outcomes_of_snoc)

text \<open>
  The buckets are where the attempts so far have brought them; the calls of each principal that passed
  the limit are as many as the tokens it got; and the upstream has seen the calls that passed the ceiling.
\<close>

definition rate_limited_run :: "(call_env \<times> call_params) list \<Rightarrow> gateway \<Rightarrow> (nat \<times> signal) list \<Rightarrow> loop_state \<Rightarrow> bool" where
  "rate_limited_run calls g ls s \<longleftrightarrow>
     list_all limits_ok (fst s) \<and>
     gw_rate (sh_gateway (snd s)) = snd (rate_run (gw_rate g) (rate_attempts calls ls)) \<and>
     (\<forall>p. length (filter (granted p) (fst s)) =
        tokens_given p (fst (rate_run (gw_rate g) (rate_attempts calls ls)))) \<and>
     (\<exists>is. distinct is \<and>
        set is = {i. i < length (fst s) \<and> lo_concurrency_result (tk_locals (fst s ! i)) = Passed} \<and>
        set is \<subseteq> {..<length calls} \<and>
        gw_forwarded (sh_gateway (snd s)) = gw_forwarded g @ map (\<lambda>i. call_of (calls ! i)) is)"

lemma rate_limited_start:
  "rate_limited_run calls g [] (start_loop calls listers (g, cl))"
proof -
  let ?ts = "map new_task calls @ map new_list listers"
  have ini: "tk_locals t = initial_locals" if "t \<in> set ?ts" for t
    using that by (auto simp: new_task_def new_list_def)
  then have "list_all limits_ok ?ts" "filter (granted p) ?ts = []" for p
    by (auto simp: list_all_iff limits_ok_def granted_def initial_locals_def filter_empty_conv new_task_def new_list_def)
  moreover have "{i. i < length ?ts \<and> lo_concurrency_result (tk_locals (?ts ! i)) = Passed} = {}"
    using ini nth_mem [of _ ?ts] by (fastforce simp: initial_locals_def)
  ultimately show ?thesis
    unfolding rate_limited_run_def start_loop_def fst_conv snd_conv
    by (simp only: rate_attempts_def map_filter_simps rate_run.simps fst_conv snd_conv tokens_given_def
        outcomes_of_simps filter.simps list.size shared.simps) auto
qed

lemma step_begins:
  assumes "task_step C sig t sh = Some (t', sh')"
  shows "sig = Begin \<longleftrightarrow> tk_point t = Ready \<or> tk_point t = ListReady"
  using assms by (cases rule: task_step_cases) simp_all

lemma step_attempt:
  assumes "task_step C sig t sh = Some (t', sh')"
    and "i < length calls \<Longrightarrow> (tk_env t, tk_params t) = calls ! i" "list_point (tk_point t) \<longleftrightarrow> length calls \<le> i"
  shows "attempt_of calls (i, sig) = task_attempt t"
proof (cases "tk_point t = Ready")
  case True
  then have "sig = Begin" "i < length calls" "fst (calls ! i) = tk_env t"
    using step_begins [OF assms(1)] assms(2,3) by (auto simp: not_le [symmetric] dest: sym)
  with True show ?thesis by (simp add: task_attempt_def attempt_of_def Let_def)
next
  case False
  moreover have "tk_point t = ListReady \<Longrightarrow> length calls \<le> i" using assms(3) by simp
  ultimately show ?thesis
    using step_begins [OF assms(1)] by (auto simp: task_attempt_def attempt_of_def split: signal.split point.split)
qed

text \<open>Only a task that waits for the tool list can make an upstream call.\<close>

lemma new_call:
  assumes "task_step C sig t sh = Some (t', sh')" "call_point (tk_point t')"
  shows "policy_of (tk_point t) \<noteq> None"
  using assms
  by (cases rule: task_step_cases)
    (auto simp: Let_def begin_not_calling escape_not_calling over_not_calling reply_not_calling)

lemma rate_limited_step:
  assumes "rate_limited_run calls g ls (ts, sh)" "i < length ts" "task_ok (ts ! i)"
    and "task_step C sig (ts ! i) sh = Some (t, sh')"
    and "i < length calls \<Longrightarrow> (tk_env (ts ! i), tk_params (ts ! i)) = calls ! i"
    and "list_point (tk_point (ts ! i)) \<longleftrightarrow> length calls \<le> i"
  shows "rate_limited_run calls g (ls @ [(i, sig)]) (ts[i := t], sh')"
proof -
  let ?t = "ts ! i" and ?rl = "gw_rate (sh_gateway sh)" and ?run = "rate_run (gw_rate g) (rate_attempts calls ls)"
  obtain js where old: "list_all limits_ok ts" "?rl = snd ?run"
      "\<And>p. length (filter (granted p) ts) = tokens_given p (fst ?run)"
    and js: "distinct js" "set js = {j. j < length ts \<and> lo_concurrency_result (tk_locals (ts ! j)) = Passed}"
      "set js \<subseteq> {..<length calls}"
      "gw_forwarded (sh_gateway sh) = gw_forwarded g @ map (\<lambda>j. call_of (calls ! j)) js"
    using assms(1) unfolding rate_limited_run_def fst_conv snd_conv by blast
  have ok: "limits_ok ?t" using old(1) assms(2) by (simp add: list_all_length)
  have step: "limits_step ?t sh t sh'" by (rule step_limits [OF assms(4,3) ok])
  have attempt: "attempt_of calls (i, sig) = task_attempt ?t" by (rule step_attempt [OF assms(4-6)])
  have same: "tk_env t = tk_env ?t" using step_same_call [OF assms(4)] by simp
  have count: "length (filter P (ts[i := t])) + of_bool (P ?t) = length (filter P ts) + of_bool (P t)" for P
    using assms(2) by (rule length_filter_update)
  let ?run' = "rate_run (gw_rate g) (rate_attempts calls (ls @ [(i, sig)]))"
  have rate: "gw_rate (sh_gateway sh') = snd ?run' \<and>
      length (filter (granted p) (ts[i := t])) = tokens_given p (fst ?run')" for p
  proof (cases "task_attempt ?t")
    case None
    then have "gw_rate (sh_gateway sh') = ?rl" "granted p t = granted p ?t"
      using step same by (simp_all add: limits_step_def granted_def)
    then show ?thesis using old(2) old(3) [of p] count [of "granted p"] None by (simp add: rate_attempts_snoc attempt)
  next
    case (Some x)
    obtain q t0 t1 where x: "x = (q, t0, t1)" by (cases x) auto
    have ready: "tk_point ?t = Ready" "ce_principal (tk_env ?t) = Some q"
      using Some x by (auto simp: task_attempt_def split: point.splits)
    then have "\<not> granted p ?t" using ok by (simp add: granted_def limits_ok_def initial_locals_def)
    moreover have "granted p t \<longleftrightarrow> q = p \<and> fst (rate_try_acquire q t0 t1 ?rl) = Inr True"
      "gw_rate (sh_gateway sh') = snd (rate_try_acquire q t0 t1 ?rl)"
      using step Some x ready(2) by (auto simp: limits_step_def granted_def same case_prod_beta)
    ultimately show ?thesis
      using old(2) old(3) [of p] count [of "granted p"] Some x
      by (simp add: rate_attempts_snoc attempt rate_run_snoc tokens_given_snoc)
  qed
  have forwarded: "\<exists>is. distinct is \<and>
      set is = {j. j < length (ts[i := t]) \<and> lo_concurrency_result (tk_locals (ts[i := t] ! j)) = Passed} \<and>
      set is \<subseteq> {..<length calls} \<and>
      gw_forwarded (sh_gateway sh') = gw_forwarded g @ map (\<lambda>i. call_of (calls ! i)) is"
  proof (cases "call_point (tk_point t)")
    case True
    then have new: "lo_concurrency_result (tk_locals t) = Passed" using step by (simp add: limits_step_def)
    have "\<not> list_point (tk_point t)" using True by (cases "tk_point t") simp_all
    then have i: "i < length calls" using step_kind [OF assms(4,3)] assms(6) by simp
    have fresh: "i \<notin> set js" using new_call [OF assms(4) True] ok js(2) by (simp add: limits_ok_def)
    have call: "call_of (calls ! i) = (cp_name (tk_params ?t), call_arguments (tk_params ?t))"
      by (simp add: assms(5) [OF i, symmetric] call_of_def)
    have "set (js @ [i]) = {j. j < length (ts[i := t]) \<and> lo_concurrency_result (tk_locals (ts[i := t] ! j)) = Passed}"
      using new js(2) assms(2) by (auto simp: nth_list_update)
    moreover have "gw_forwarded (sh_gateway sh') = gw_forwarded g @ map (\<lambda>i. call_of (calls ! i)) (js @ [i])"
      using step_gateway(3) [OF assms(4,3)] True js(4) call by simp
    moreover have "distinct (js @ [i])" "set (js @ [i]) \<subseteq> {..<length calls}" using js(1,3) i fresh by simp_all
    ultimately show ?thesis by blast
  next
    case False
    then have "lo_concurrency_result (tk_locals t) = Passed \<longleftrightarrow> lo_concurrency_result (tk_locals ?t) = Passed"
      using step by (simp add: limits_step_def)
    then have "lo_concurrency_result (tk_locals (ts[i := t] ! j)) = Passed \<longleftrightarrow> lo_concurrency_result (tk_locals (ts ! j)) = Passed" for j
      using assms(2) by (cases "j = i") simp_all
    then have "set js = {j. j < length (ts[i := t]) \<and> lo_concurrency_result (tk_locals (ts[i := t] ! j)) = Passed}"
      by (simp add: js(2))
    moreover have "gw_forwarded (sh_gateway sh') = gw_forwarded g @ map (\<lambda>i. call_of (calls ! i)) js"
      using step_gateway(3) [OF assms(4,3)] False js(4) by simp
    ultimately show ?thesis using js(1,3) by blast
  qed
  have "list_all limits_ok (ts[i := t])"
    using old(1) step by (auto simp: limits_step_def list_all_iff dest!: set_update_subset_insert [THEN subsetD])
  with rate forwarded show ?thesis unfolding rate_limited_run_def by simp
qed


lemma rate_limited:
  assumes "loop_run C ls (start_loop calls listers (g, cl)) s"
  shows "rate_limited_run calls g ls s"
  using assms
proof (induction rule: loop_induct)
  case start
  show ?case by (rule rate_limited_start)
next
  case (step ls ts sh i sig t sh')
  have "(i < length calls \<longrightarrow> (tk_env (ts ! i), tk_params (ts ! i)) = calls ! i) \<and>
      (list_point (tk_point (ts ! i)) \<longleftrightarrow> length calls \<le> i)"
    using mediated_run [OF step(2)] step(3) by (simp add: mediated_def)
  then show ?case using rate_limited_step [OF step(1,3,4,5)] by simp
qed

text \<open>
  The clock over the attempts of one principal: the first of them fills a bucket at \<open>t0\<close>, and their
  readings, \<open>readings\<close>, do not go backwards.
\<close>

definition monotonic_clock :: "rat \<Rightarrow> rat list \<Rightarrow> (pyfloat \<times> pyfloat) list \<Rightarrow> bool" where
  "monotonic_clock t0 readings es \<longleftrightarrow>
     map snd es = map Fin readings \<and> (es \<noteq> [] \<longrightarrow> fst (hd es) = Fin t0) \<and>
     sorted (t0 # readings) \<and> list_all clock_ok (t0 # readings)"

lemma solo_tokens:
  assumes "1 \<le> c" "c \<le> 2 ^ 53" "rnd64 c = c" "0 < r" "r \<le> 2 ^ 53" "monotonic_clock t0 readings es"
  shows "of_nat (length (filter (\<lambda>r. r = Inr True) (solo_outcomes (make_rate_limiter (Fin c) (Fin r)) es))) \<le>
    c + r * (last_time t0 readings - t0) * (1 + 1 / 2 ^ 51) + of_nat (length readings) * (c / 2 ^ 52)"
proof (cases es)
  case Nil
  then show ?thesis using assms by (simp add: solo_outcomes_def monotonic_clock_def)
next
  case (Cons e es')
  have clock: "map snd es = map Fin readings" "fst e = Fin t0" "sorted (t0 # readings)" "clock_ok t0" "\<forall>x\<in>set readings. clock_ok x"
    using assms(6) by (simp_all add: monotonic_clock_def Cons list_all_iff)
  have "make_bucket (Fin c) (Fin r) (Fin t0) = Inr (bucket_at c r c t0)"
    using make_bucket_at [of c r t0] assms by simp
  then have "solo_outcomes (make_rate_limiter (Fin c) (Fin r)) es = map Inr (fst (bucket_run (bucket_at c r c t0) (map Fin readings)))"
    using clock(1,2) by (cases e) (simp add: solo_outcomes_def make_rate_limiter_def Cons)
  then have "rat_of_nat (length (filter (\<lambda>r. r = Inr True) (solo_outcomes (make_rate_limiter (Fin c) (Fin r)) es))) =
      accepted (fst (bucket_run (bucket_at c r c t0) (map Fin readings)))"
    by (simp add: accepted_def filter_map o_def id_def)
  then show ?thesis using bucket_rate [OF assms(1-5) clock(3-5)] by simp
qed

text \<open>
  C6: The rate limit holds at the upstream. However the calls of all principals interleave, the calls of
  one principal that have reached the upstream, those whose \<open>concurrency_result\<close> is \<open>passed\<close>, are at
  most \<open>c + r * T\<close> in number, for a capacity \<open>c\<close>, a refill rate \<open>r\<close> and the time \<open>T\<close> from the first to the last
  of its attempts, up to the rounding of binary64: a factor \<open>1 + 2 powi - 51\<close> on \<open>r * T\<close> and
  \<open>c * 2 powi - 52\<close> per attempt.
\<close>

theorem upstream_calls_within_rate:
  assumes "loop_run C ls (start_loop calls listers (g, cl)) (ts, sh)"
    and "gw_rate g = make_rate_limiter (Fin c) (Fin r)"
    and "1 \<le> c" "c \<le> 2 ^ 53" "rnd64 c = c" "0 < r" "r \<le> 2 ^ 53"
    and "monotonic_clock t0 readings (attempts_of p (rate_attempts calls ls))"
  shows "\<exists>is. distinct is \<and>
    set is = {i. i < length calls \<and> lo_concurrency_result (tk_locals (ts ! i)) = Passed} \<and>
    gw_forwarded (sh_gateway sh) = gw_forwarded g @ map (\<lambda>i. call_of (calls ! i)) is \<and>
    of_nat (length (filter (\<lambda>i. ce_principal (fst (calls ! i)) = Some p) is)) \<le>
      c + r * (last_time t0 readings - t0) * (1 + 1 / 2 ^ 51) + of_nat (length readings) * (c / 2 ^ 52)"
proof -
  from rate_limited [OF assms(1)] obtain js where ok: "list_all limits_ok ts"
    and given: "length (filter (granted p) ts) = tokens_given p (fst (rate_run (gw_rate g) (rate_attempts calls ls)))"
    and js: "distinct js" "set js = {i. i < length ts \<and> lo_concurrency_result (tk_locals (ts ! i)) = Passed}"
      "set js \<subseteq> {..<length calls}" "gw_forwarded (sh_gateway sh) = gw_forwarded g @ map (\<lambda>i. call_of (calls ! i)) js"
    unfolding rate_limited_run_def fst_conv snd_conv by blast
  let ?mine = "\<lambda>i. ce_principal (fst (calls ! i)) = Some p"
  have med: "mediated C calls g ls (ts, sh)" by (rule mediated_run [OF assms(1)])
  then have calls: "length calls \<le> length ts" "\<And>i. i < length calls \<Longrightarrow> tk_env (ts ! i) = fst (calls ! i)"
    unfolding mediated_def fst_conv snd_conv by (blast, metis fst_conv)
  have set_js: "set js = {i. i < length calls \<and> lo_concurrency_result (tk_locals (ts ! i)) = Passed}"
    using js(2,3) calls(1) by auto
  have "set (filter ?mine js) \<subseteq> {i. i < length ts \<and> granted p (ts ! i)}"
    using ok js(2,3) calls(2) by (auto simp: granted_def limits_ok_def list_all_length)
  from card_mono [OF _ this] have "length (filter ?mine js) \<le> length (filter (granted p) ts)"
    using distinct_card [OF distinct_filter [OF js(1)], of ?mine] length_filter_conv_card [of "granted p" ts] by simp
  also have "\<dots> = length (filter (\<lambda>r. r = Inr True)
      (solo_outcomes (make_rate_limiter (Fin c) (Fin r)) (attempts_of p (rate_attempts calls ls))))"
    unfolding given tokens_given_def assms(2) by (subst rate_run_new) (simp_all add: make_rate_limiter_def)
  finally have "rat_of_nat (length (filter ?mine js)) \<le> rat_of_nat (length (filter (\<lambda>r. r = Inr True)
      (solo_outcomes (make_rate_limiter (Fin c) (Fin r)) (attempts_of p (rate_attempts calls ls)))))"
    by (simp only: of_nat_le_iff)
  also note solo_tokens [OF assms(3-8)]
  finally show ?thesis using js(1,4) set_js by blast
qed


theorem upstream_calls_within_rate_witness:
  "\<exists>is. gw_forwarded (sh_gateway (snd demo_end)) = map (\<lambda>i. call_of (demo_calls ! i)) is \<and>
    rat_of_nat (length (filter (\<lambda>i. ce_principal (fst (demo_calls ! i)) = Some ''analyst'') is)) \<le>
      2 + 1 * (0 - 0) * (1 + 1 / 2 ^ 51) + 2 * (2 / 2 ^ 52)"
proof -
  have "attempts_of ''analyst'' (rate_attempts demo_calls demo_signals) = [(Fin 0, Fin 0), (Fin 0, Fin 0)]"
    by code_simp
  then have clock: "monotonic_clock 0 [0, 0] (attempts_of ''analyst'' (rate_attempts demo_calls demo_signals))"
    by (simp add: monotonic_clock_def clock_ok_def)
  have "gw_rate demo_gateway = make_rate_limiter (Fin 2) (Fin 1)" "gw_forwarded demo_gateway = []"
    by (simp_all add: demo_gateway_def)
  then show ?thesis
    using upstream_calls_within_rate [OF demo_run _ _ _ _ _ _ clock, of 2 1] rnd64_of_int [of 2] by auto
qed

end
