(* ===== verification/LoopBudget.thy ===== *)
theory LoopBudget
  imports LoopRate
begin

text \<open>
  Concurrent calls within the limits: as long as each principal makes no more calls than its bucket
  holds tokens and than its ceiling has slots, no interleaving makes a limit reject one of them. The
  invariant counts the tokens still needed by the calls that have not begun, and the slots by the
  account of BridgeLoop.
\<close>

subsection \<open>Admitted calls\<close>

definition admitted_locals :: "call_locals \<Rightarrow> bool" where
  "admitted_locals l = (lo_rate_limit_result l = Passed \<and> lo_concurrency_result l \<noteq> Failed)"

lemma admitted_locals_writes [simp]: "admitted_locals (l\<lparr>lo_writes := n\<rparr>) \<longleftrightarrow> admitted_locals l"
  by (simp add: admitted_locals_def)

definition admitted_record :: "audit_record \<Rightarrow> bool" where
  "admitted_record r =
     (ar_rate_limit_result r = Passed \<and> ar_concurrency_result r \<noteq> Failed \<and>
      ar_outcome r \<notin> {RateLimited, ConcurrencyRejected})"

text \<open>A segment that ends with neither limit having failed, and leaves the buckets alone.\<close>

definition admits :: "call_state \<Rightarrow> point \<times> call_state \<Rightarrow> bool" where
  "admits s r =
     (admitted_locals (st_lo (snd r)) \<and> gw_rate (st_gw (snd r)) = gw_rate (st_gw s) \<and>
      (\<forall>em. emission_of (fst r) = Some em \<longrightarrow> admitted_record (em_record em)))"

lemma admitted_emit:
  "admitted_locals (st_lo s) \<Longrightarrow> out \<notin> {RateLimited, ConcurrencyRejected} \<Longrightarrow> admitted_record (emit_record E X s out a c)"
  by (simp add: admitted_locals_def admitted_record_def emit_record_def make_record_def)

lemma admits_escape: "admitted_locals (st_lo s) \<Longrightarrow> admits s (escape_to E X e s)"
  by (auto simp: admits_def escape_to_def Let_def count_reading_def count_write_def admitted_emit
      admitted_locals_def split: sum.split)

lemma admits_blind:
  "admits s r \<Longrightarrow> gw_rate (st_gw s) = gw_rate (st_gw s') \<Longrightarrow> admits s' r"
  by (simp add: admits_def)

lemma admits_over: "admitted_locals (st_lo s) \<Longrightarrow> admits s (emission_over E X em res s)"
proof -
  let ?s = "leave_slot (em_slot em) X ((st_gw s, if isl res then st_lo s else (st_lo s)\<lparr>lo_audit_emitted := True\<rparr>), st_cl s)"
  assume "admitted_locals (st_lo s)"
  then have s: "admitted_locals (st_lo ?s)" "gw_rate (st_gw ?s) = gw_rate (st_gw s)"
    by (simp_all add: leave_slot_def admitted_locals_def)
  show ?thesis
    using s admits_blind [OF admits_escape [OF s(1)] s(2)]
    by (auto simp: emission_over_def Let_def admits_def split: sum.split)
qed

lemma admits_start:
  assumes "admitted_locals (st_lo s)" "out \<notin> {RateLimited, ConcurrencyRejected}"
  shows "admits s (start_emission E X slot after out a c s)"
proof -
  let ?em = "\<lparr>em_record = emit_record E X s out a c, em_slot = slot, em_outer = False, em_after = after\<rparr>"
    and ?s = "count_write (count_reading s)"
  note l = assms(1)
  then have "admits ?s (emission_over E X ?em res ?s)" for res
    by (intro admits_over) (simp add: count_reading_def count_write_def admitted_locals_def)
  then have "admits s (emission_over E X ?em res ?s)" for res
    by (rule admits_blind) (simp add: count_reading_def count_write_def)
  moreover have "admits s (AtLog ?em, count_reading s)"
    using l admitted_emit [OF assms] by (simp add: admits_def count_reading_def admitted_locals_def)
  ultimately show ?thesis by (simp add: start_emission_def Let_def split: sum.split)
qed

lemma admits_answer_from:
  "admitted_locals (st_lo r) \<Longrightarrow> gw_rate (st_gw r) = gw_rate (st_gw s) \<Longrightarrow>
   out \<notin> {RateLimited, ConcurrencyRejected} \<Longrightarrow> admits s (answer E X slot out a c res r)"
  unfolding answer_def by (blast intro: admits_blind admits_start)

definition slot_free :: "call_context \<Rightarrow> call_state \<Rightarrow> bool" where
  "slot_free X s = fst (slot_try_acquire (cx_principal X) (st_cl s))"

lemma admits_forward: "admitted_locals (st_lo s) \<Longrightarrow> slot_free X s \<Longrightarrow> admits s (seg_forward E X s)"
  by (auto simp: seg_forward_def slot_free_def Let_def handler_simps count_reading_def admits_def admitted_locals_def
      split: prod.split)

lemma admits_arguments:
  "admitted_locals (st_lo s) \<Longrightarrow> slot_free X s \<Longrightarrow> admits s (seg_arguments C E X tp t s)"
  by (auto simp: seg_arguments_def Let_def handler_simps stop_policy_timer_def admitted_locals_def slot_free_def
      intro!: admits_answer_from admits_blind [OF admits_forward] split: option.split)

lemma admits_deny: "admitted_locals (st_lo s) \<Longrightarrow> admits s (seg_deny E X s)"
  by (auto simp: seg_deny_def handler_simps admitted_locals_def intro!: admits_answer_from)

lemma admits_tools:
  "admitted_locals (st_lo s) \<Longrightarrow> slot_free X s \<Longrightarrow> admits s (seg_tools C E X tp tools s)"
  by (auto simp: seg_tools_def Let_def handler_simps stop_policy_timer_def count_reading_def admitted_locals_def slot_free_def
      intro!: admits_answer_from admits_deny admits_blind [OF admits_arguments] admits_blind [OF admits_escape]
      split: option.split sum.split)

lemma admits_reply: "admitted_locals (st_lo s) \<Longrightarrow> admits s (seg_reply E X t reply s)"
  by (auto simp: seg_reply_def Let_def handler_simps stop_upstream_timer_def admitted_locals_def leave_slot_def
      intro!: admits_answer_from admits_blind [OF admits_start] admits_blind [OF admits_escape] split: sum.split exn.split)

lemma admits_wait:
  "admitted_locals (st_lo s') \<Longrightarrow> gw_rate (st_gw s') = gw_rate (st_gw s) \<Longrightarrow> admits s (AtCache tp, s')"
  by (simp add: admits_def)

lemma admits_begin:
  assumes "fst (acquire_token E X s) = Inr True" "lo_concurrency_result (st_lo s) \<noteq> Failed"
  shows "admits (snd (acquire_token E X s)) (seg_begin C E X s)"
  using assms
  by (cases "acquire_token E X s")
    (auto simp: seg_begin_def Let_def handler_simps acquire_token_def admitted_locals_def
      intro!: admits_blind [OF admits_deny] admits_wait split: option.split prod.splits)

subsection \<open>The budget\<close>

definition calls_by :: "string \<Rightarrow> (call_env \<times> call_params) list \<Rightarrow> nat" where
  "calls_by p calls = length (filter (\<lambda>c. ce_principal (fst c) = Some p) calls)"

text \<open>The calls of a principal that have yet to take a token.\<close>

definition waiting :: "string \<Rightarrow> task list \<Rightarrow> nat" where
  "waiting p ts = length (filter (\<lambda>t. tk_point t = Ready \<and> ce_principal (tk_env t) = Some p) ts)"

definition admitted_task :: "task \<Rightarrow> bool" where
  "admitted_task t =
     ((tk_point t = Ready \<or> list_point (tk_point t) \<or> ce_principal (tk_env t) = None \<or> admitted_locals (tk_locals t)) \<and>
      (\<forall>em. emission_of (tk_point t) = Some em \<longrightarrow> admitted_record (em_record em)))"

lemma list_admitted [simp]: "list_point pt \<Longrightarrow> admitted_task (t\<lparr>tk_point := pt\<rparr>)"
  by (cases pt) (simp_all add: admitted_task_def)

lemma admitsD:
  "admits s r \<Longrightarrow> admitted_task (t\<lparr>tk_locals := st_lo (snd r), tk_point := fst r\<rparr>)"
  "admits s r \<Longrightarrow> gw_rate (st_gw (snd r)) = gw_rate (st_gw s)"
  by (simp_all add: admits_def admitted_task_def)

lemmas seg_admitted =
  admits_tools [THEN admitsD(1)] admits_tools [THEN admitsD(2)] admits_escape [THEN admitsD(1)]
  admits_escape [THEN admitsD(2)] admits_reply [THEN admitsD(1)] admits_reply [THEN admitsD(2)]
  admits_over [THEN admitsD(1)] admits_over [THEN admitsD(2)]

text \<open>What a step does to the tokens, and that the call stays admitted if the slot it may ask for is free.\<close>

lemma step_admitted:
  assumes "task_step C sig t sh = Some (t', sh')" "task_ok t" "admitted_task t"
    and token: "\<And>p. tk_point t = Ready \<Longrightarrow> ce_principal (tk_env t) = Some p \<Longrightarrow>
      fst (rate_try_acquire p (ce_rate_new (tk_env t)) (ce_rate_now (tk_env t)) (gw_rate (sh_gateway sh))) = Inr True"
    and slot: "\<not> slot_point (tk_point t) \<Longrightarrow> \<not> end_point (tk_point t) \<Longrightarrow> \<not> list_point (tk_point t) \<Longrightarrow>
      fst (slot_try_acquire (task_principal t) (sh_limiter sh))"
  shows "admitted_task t' \<and> tk_point t' \<noteq> Ready \<and>
    gw_rate (sh_gateway sh') =
      (case (tk_point t, ce_principal (tk_env t)) of
         (Ready, Some p) \<Rightarrow>
           snd (rate_try_acquire p (ce_rate_new (tk_env t)) (ce_rate_now (tk_env t)) (gw_rate (sh_gateway sh)))
       | _ \<Rightarrow> gw_rate (sh_gateway sh))"
proof -
  have locals: "admitted_locals (tk_locals t)" if "\<not> end_point (tk_point t)" "\<not> list_point (tk_point t)"
    using that assms(3) task_okD(1) [OF assms(2) that(1)] by (auto simp: admitted_task_def)
  show ?thesis
    using assms(1)
  proof (cases rule: task_step_cases)
    case (begins p)
    let ?s = "((sh_gateway sh, initial_locals\<lparr>lo_readings := 1\<rparr>), sh_limiter sh)" and ?X = "task_ctx t"
    have p: "task_principal t = p" using begins by (simp add: task_principal_def)
    have "fst (acquire_token (tk_env t) ?X ?s) = Inr True"
      using token [OF begins(1,3)] by (simp add: acquire_token_def p case_prod_beta)
    then have a: "admits (snd (acquire_token (tk_env t) ?X ?s)) (seg_begin C (tk_env t) ?X ?s)"
      by (rule admits_begin) (simp add: initial_locals_def)
    show ?thesis
      using begins admitsD(1) [OF a, of t] admitsD(2) [OF a] segs_not_ready(1)
      by (simp add: Let_def acquire_token_def p case_prod_beta admitted_task_def)
  next
    case (warm tp tools)
    then show ?thesis
      using locals slot seg_admitted(1,2) segs_not_ready(2) by (simp add: Let_def slot_free_def)
  next
    case (fetched tp tools)
    then show ?thesis
      using locals slot seg_admitted(1,2) segs_not_ready(2) by (simp add: Let_def slot_free_def)
  next
    case (unauthenticated e)
    then show ?thesis by (simp add: admitted_task_def)
  next
    case (cold tp)
    then show ?thesis using locals by (simp add: admitted_task_def)
  next
    case (log_taken em)
    then show ?thesis using assms(3) locals by (simp add: admitted_task_def)
  next
    case (log_cancelled em)
    then show ?thesis
      using locals seg_admitted(7,8) segs_not_ready(5) task_okD(2) [OF assms(2)] by (simp add: Let_def count_write_def)
  next
    case (written em w res lg)
    then show ?thesis
      using locals seg_admitted(7,8) segs_not_ready(5) task_okD(2) [OF assms(2)] by (simp add: Let_def count_write_def)
  qed (use locals seg_admitted(3-6) segs_not_ready(3-4) in \<open>simp_all add: Let_def\<close>)
qed

text \<open>
  The invariant: every call is admitted, and each principal's bucket holds a token for every call that
  has yet to begin and for \<open>spare\<close> more.
\<close>

definition within_budget :: "(string \<Rightarrow> nat) \<Rightarrow> loop_state \<Rightarrow> bool" where
  "within_budget spare s =
     (list_all admitted_task (fst s) \<and>
      (\<forall>p. tokens_left p (waiting p (fst s) + spare p) (gw_rate (sh_gateway (snd s)))))"

lemma waiting_update:
  assumes "i < length ts" "tk_point t \<noteq> Ready"
  shows "waiting p ts = waiting p (ts[i := t]) + of_bool (tk_point (ts ! i) = Ready \<and> ce_principal (tk_env (ts ! i)) = Some p)"
  using length_filter_update [OF assms(1), of "\<lambda>t. tk_point t = Ready \<and> ce_principal (tk_env t) = Some p" t] assms(2)
  by (simp add: waiting_def)

text \<open>The tasks that are calls.\<close>

lemma run_calls:
  assumes "loop_run C ls (start_loop calls listers st) (ts, sh)"
  shows "map tk_env ts = map fst calls @ listers" "i < length ts \<Longrightarrow> list_point (tk_point (ts ! i)) \<longleftrightarrow> length calls \<le> i"
proof -
  show "map tk_env ts = map fst calls @ listers"
    using run_keeps_tasks [OF assms] by (intro nth_equalityI) (auto simp: start_loop_def new_task_def new_list_def nth_append)
  show "i < length ts \<Longrightarrow> list_point (tk_point (ts ! i)) \<longleftrightarrow> length calls \<le> i"
    using mediated_run [of C ls calls listers "fst st" "snd st" "(ts, sh)"] assms
    by (simp only: prod.collapse mediated_def fst_conv)
qed

definition call_tasks :: "string \<Rightarrow> task list \<Rightarrow> nat" where
  "call_tasks p ts = length (filter (\<lambda>t. \<not> list_point (tk_point t) \<and> ce_principal (tk_env t) = Some p) ts)"

lemma call_tasks_run:
  assumes "loop_run C ls (start_loop calls listers st) (ts, sh)"
  shows "call_tasks p ts = calls_by p calls"
proof -
  let ?n = "length calls"
  have n: "length ts = ?n + length listers" using arg_cong [OF run_calls(1) [OF assms], of length] by simp
  let ?P = "\<lambda>t. \<not> list_point (tk_point t) \<and> ce_principal (tk_env t) = Some p"
  have parts: "filter ?P (drop ?n ts) = []" "filter ?P (take ?n ts) = filter (\<lambda>t. ce_principal (tk_env t) = Some p) (take ?n ts)"
    using run_calls(2) [OF assms] n by (fastforce simp: filter_empty_conv in_set_conv_nth intro!: filter_cong)+
  have "call_tasks p ts = length (filter ?P (take ?n ts @ drop ?n ts))"
    by (simp only: append_take_drop_id call_tasks_def)
  also have "\<dots> = length (filter (\<lambda>t. ce_principal (tk_env t) = Some p) (take ?n ts))"
    by (simp only: filter_append parts append_Nil2)
  also have "\<dots> = length (filter (\<lambda>E. ce_principal E = Some p) (map tk_env (take ?n ts)))"
    by (simp add: filter_map o_def)
  also have "map tk_env (take ?n ts) = map fst calls" by (simp add: take_map [symmetric] run_calls(1) [OF assms])
  finally show ?thesis by (simp add: calls_by_def filter_map o_def)
qed

lemma slots_below_calls:
  assumes "list_all task_ok ts" "call_tasks p ts = n" "i < length ts"
    and "\<not> slot_point (tk_point (ts ! i))" "ce_principal (tk_env (ts ! i)) = Some p" "\<not> list_point (tk_point (ts ! i))"
  shows "sum_list (map (slot_weight p) ts) < int n"
proof -
  let ?c = "\<lambda>t. \<not> list_point (tk_point t) \<and> ce_principal (tk_env t) = Some p"
  have w: "slot_weight p t \<le> of_bool (?c t)" if "task_ok t" for t
  proof (cases "slot_point (tk_point t)")
    case True
    then have "\<not> end_point (tk_point t)" "\<not> list_point (tk_point t)" by (cases "tk_point t"; simp)+
    then show ?thesis using task_okD(1) [OF that] by (auto simp: slot_weight_def task_principal_def)
  qed (simp add: slot_weight_def)
  have le: "list_all task_ok us \<Longrightarrow> sum_list (map (slot_weight p) us) \<le> int (length (filter ?c us))" for us
  proof (induction us)
    case (Cons t us)
    then show ?case using w [of t] by (cases "?c t") simp_all
  qed simp
  obtain us x vs where ts: "ts = us @ x # vs" "x = ts ! i" using id_take_nth_drop [OF assms(3)] by metis
  have x: "slot_weight p x = 0" "?c x"
    using assms(4-6) unfolding ts(2) by (simp_all add: slot_weight_def)
  have "list_all task_ok us" "list_all task_ok vs" using assms(1) unfolding ts(1) by simp_all
  then have "sum_list (map (slot_weight p) (us @ x # vs)) < int (length (filter ?c (us @ x # vs)))"
    using le [of us] le [of vs] x by simp
  then show ?thesis using assms(2) by (simp only: ts(1) [symmetric] call_tasks_def)
qed

lemma within_budget_run:
  assumes "loop_run C ls (start_loop calls listers (g, cl)) s" "limiter_inv cl" "\<And>q. active_count cl q = 0"
    and "\<And>p. int (calls_by p calls) \<le> cl_max_concurrent cl"
    and "\<And>p. tokens_left p (calls_by p calls + spare p) (gw_rate g)"
  shows "within_budget spare s"
  using assms(1)
proof (induction rule: loop_induct)
  case start
  have "waiting p (map new_task calls @ map new_list listers) = calls_by p calls" for p
    by (simp add: waiting_def calls_by_def new_task_def new_list_def filter_map o_def)
  then show ?case
    using assms(5) by (auto simp: within_budget_def start_loop_def list_all_iff admitted_task_def new_task_def new_list_def)
next
  case (step ls ts sh i sig t sh')
  let ?t = "ts ! i"
  have old: "admitted_task ?t" "\<And>p. tokens_left p (waiting p ts + spare p) (gw_rate (sh_gateway sh))"
    using step(1,3) by (simp_all add: within_budget_def list_all_length)
  have token: "fst (rate_try_acquire p t0 t1 (gw_rate (sh_gateway sh))) = Inr True \<and>
      tokens_left p (waiting p ts - 1 + spare p) (snd (rate_try_acquire p t0 t1 (gw_rate (sh_gateway sh))))"
    if "tk_point ?t = Ready" "ce_principal (tk_env ?t) = Some p" for p t0 t1
  proof -
    have "0 < waiting p ts" using that step(3) by (auto simp: waiting_def filter_empty_conv)
    then have "waiting p ts + spare p = Suc (waiting p ts - 1 + spare p)" by simp
    then show ?thesis using tokens_left_acquire old(2) by metis
  qed
  have slot: "fst (slot_try_acquire (task_principal ?t) (sh_limiter sh))"
    if p: "\<not> slot_point (tk_point ?t)" "\<not> end_point (tk_point ?t)" "\<not> list_point (tk_point ?t)"
  proof -
    obtain p where e: "ce_principal (tk_env ?t) = Some p" "task_principal ?t = p"
      using task_okD(1) [OF step(4) p(2)] by (auto simp: task_principal_def)
    have "active_count (sh_limiter sh) p < int (calls_by p calls)" "cl_max_concurrent (sh_limiter sh) = cl_max_concurrent cl"
      using slots_run [OF step(2) assms(2,3), of p] slots_below_calls [OF run_tasks_ok [OF step(2)] call_tasks_run [OF step(2)] step(3) p(1) e(1) p(3)]
      by simp_all
    then show ?thesis using assms(4) [of p] by (simp add: slot_try_acquire_granted e(2))
  qed
  have t: "admitted_task t" "tk_point t \<noteq> Ready"
    and rate: "gw_rate (sh_gateway sh') = (case (tk_point ?t, ce_principal (tk_env ?t)) of
        (Ready, Some p) \<Rightarrow> snd (rate_try_acquire p (ce_rate_new (tk_env ?t)) (ce_rate_now (tk_env ?t)) (gw_rate (sh_gateway sh)))
      | _ \<Rightarrow> gw_rate (sh_gateway sh))"
    using step_admitted [OF step(5,4) old(1)] token slot by blast+
  have "tokens_left p (waiting p (ts[i := t]) + spare p) (gw_rate (sh_gateway sh'))" for p
  proof (cases "tk_point ?t = Ready \<and> ce_principal (tk_env ?t) \<noteq> None")
    case True
    then obtain q where q: "tk_point ?t = Ready" "ce_principal (tk_env ?t) = Some q" by blast
    show ?thesis
      using token [OF q] waiting_update [OF step(3) t(2), of p] tokens_left_other [of p q] old(2) [of p]
      by (cases "p = q") (simp_all add: rate q)
  next
    case False
    then show ?thesis
      using waiting_update [OF step(3) t(2), of p] old(2) [of p] by (auto simp: rate split: point.split option.split)
  qed
  moreover have "list_all admitted_task (ts[i := t])"
    using step(1) t(1) by (auto simp: within_budget_def list_all_iff dest!: set_update_subset_insert [THEN subsetD])
  ultimately show ?case by (simp add: within_budget_def)
qed

text \<open>
  C17: Within the limits nobody is throttled. If no principal makes more concurrent calls than the
  ceiling, and no more calls than the capacity of its fresh bucket, then in no interleaving and at no
  clock readings does a limit reject a call: every record that is written or about to be written says
  that the rate limit was passed and the ceiling not failed, and its outcome is neither
  \<open>rate_limited\<close> nor \<open>concurrency_rejected\<close>.
\<close>

theorem unthrottled_within_limits:
  assumes "loop_run C ls (start_loop calls listers (g, cl)) (ts, sh)" "make_concurrency_limiter m = Inr cl"
    and "gw_rate g = make_rate_limiter (Fin c) refill_rate" "\<not> f_le refill_rate (Fin 0)"
    and "0 < c" "c \<le> 2 ^ 53" "rnd64 c = c"
    and "\<And>p. int (calls_by p calls) \<le> m \<and> of_nat (calls_by p calls) \<le> c"
    and "t \<in> set ts" "emission_of (tk_point t) = Some em"
  shows "ar_rate_limit_result (em_record em) = Passed \<and> ar_concurrency_result (em_record em) \<noteq> Failed \<and>
    ar_outcome (em_record em) \<notin> {RateLimited, ConcurrencyRejected}"
proof -
  note cl = fresh_limiter [OF assms(2)]
  have "tokens_left p (calls_by p calls + 0) (gw_rate g)" for p
    using assms(3-8) by (simp add: tokens_left_def make_rate_limiter_def)
  then have "within_budget (\<lambda>_. 0) (ts, sh)"
    using assms(8) cl by (intro within_budget_run [OF assms(1)]) simp_all
  then have "admitted_task t" using assms(9) by (simp add: within_budget_def list_all_iff)
  then show ?thesis using assms(10) by (simp add: admitted_task_def admitted_record_def)
qed

definition demo_middle :: loop_state where
  "demo_middle = (case loop_exec demo_bridge (take 10 demo_signals) demo_start of None \<Rightarrow> demo_start | Some s \<Rightarrow> s)"

theorem unthrottled_within_limits_witness:
  "\<exists>em. emission_of (tk_point (fst demo_middle ! 0)) = Some em \<and> ar_outcome (em_record em) \<noteq> RateLimited"
proof -
  have "case loop_exec demo_bridge (take 10 demo_signals) demo_start of None \<Rightarrow> False
      | Some s \<Rightarrow> fst s \<noteq> [] \<and> emission_of (tk_point (fst s ! 0)) \<noteq> None"
    by code_simp
  then have run: "loop_exec demo_bridge (take 10 demo_signals) demo_start \<noteq> None"
    and em: "emission_of (tk_point (fst demo_middle ! 0)) \<noteq> None" "0 < length (fst demo_middle)"
    by (auto simp: demo_middle_def split: option.splits)
  then have "loop_run demo_bridge (take 10 demo_signals) (start_loop demo_calls [demo_task_env ''c3''] (demo_gateway, demo_limiter))
      (fst demo_middle, snd demo_middle)"
    by (intro loop_exec_run) (auto simp: demo_middle_def demo_start_def)
  note u = unthrottled_within_limits [OF this demo_limiter_made]
  obtain e where e: "emission_of (tk_point (fst demo_middle ! 0)) = Some e" using em by blast
  have "length demo_calls = 2" by (simp add: demo_calls_def)
  then have "calls_by p demo_calls \<le> 2" for p by (metis calls_by_def length_filter_le)
  then have n: "int (calls_by p demo_calls) \<le> 2 \<and> rat_of_nat (calls_by p demo_calls) \<le> 2" for p
    using of_nat_le_iff [of "calls_by p demo_calls" 2, where 'a = int] of_nat_le_iff [of "calls_by p demo_calls" 2, where 'a = rat]
    by simp
  have "ar_outcome (em_record e) \<notin> {RateLimited, ConcurrencyRejected}"
    using u [of 2 "Fin 1" "fst demo_middle ! 0" e] e em(2) n rnd64_of_int [of 2] by (simp add: demo_gateway_def)
  then show ?thesis using e by blast
qed

end
