(* ===== verification/Gateway.thy ===== *)
theory Gateway
  imports BridgeVerdict
begin

text \<open>
  The assembled gateway: sentinelmcp/gateway/server.py. \<open>build_gateway_app\<close> and \<open>main_app\<close> put the
  components together at startup, with the defaults of the source; \<open>serve\<close> is one HTTP request that
  carries a \<open>tools/call\<close>, from the middleware to the handler. The protocol layer in between is the
  SDK's; what is used of it is that it runs the handler for a request in the request's context, so
  with the principal that the middleware set. \<open>gateway_run\<close> is a sequence of requests.
\<close>

subsection \<open>Startup\<close>

definition default_rate_limit_capacity :: pyfloat where
  "default_rate_limit_capacity = Fin 20"

definition default_rate_limit_refill_per_second :: pyfloat where
  "default_rate_limit_refill_per_second = Fin 5"

definition default_max_concurrent_per_principal :: int where
  "default_max_concurrent_per_principal = 10"

text \<open>The outside of the process: environment variables and SHA-256.\<close>

record host_env =
  he_getenv :: "string \<Rightarrow> string option"
  he_sha256 :: "string \<Rightarrow> string"

record gateway_app =
  ga_resolver :: identity_resolver
  ga_bridge :: bridge_config
  ga_state :: gateway_state

text \<open>\<open>build_gateway_server\<close>: both handlers get the same, empty tool cache.\<close>

definition build_gateway_server ::
  "bridge_config \<Rightarrow> rate_limiter \<Rightarrow> concurrency_limiter \<Rightarrow> audit_logger \<Rightarrow> gateway_state" where
  "build_gateway_server C rl cl lg =
     (\<lparr>gw_rate = rl, gw_cache = None, gw_audit = lg, gw_forwarded = [], gw_fetches = 0\<rparr>, cl)"

text \<open>\<open>js\<close> and \<open>fullmatch\<close> are the third-party functions the handlers will call.\<close>

definition build_gateway_app ::
  "host_env \<Rightarrow> (pyval \<Rightarrow> pyval \<Rightarrow> js_outcome) \<Rightarrow> (string \<Rightarrow> string \<Rightarrow> bool) \<Rightarrow> policy_config
    \<Rightarrow> rate_limiter option \<Rightarrow> concurrency_limiter option \<Rightarrow> audit_logger option \<Rightarrow> string
    \<Rightarrow> pyfloat option \<Rightarrow> gateway_app res" where
  "build_gateway_app H js fullmatch policy rate_limiter concurrency_limiter audit_logger
     audit_redaction_mode upstream_call_timeout =
     (let principal_key_env = map (\<lambda>(name, p). (name, pp_api_key_env p)) (pc_principals policy) in
      case make_resolver (he_sha256 H) (he_getenv H) principal_key_env of
        Inl e \<Rightarrow> Inl e
      | Inr resolver \<Rightarrow>
          (let rl = (case rate_limiter of Some r \<Rightarrow> r
                     | None \<Rightarrow> make_rate_limiter default_rate_limit_capacity
                                 default_rate_limit_refill_per_second) in
           case (case concurrency_limiter of Some c \<Rightarrow> Inr c
                 | None \<Rightarrow> make_concurrency_limiter default_max_concurrent_per_principal) of
             Inl e \<Rightarrow> Inl e
           | Inr cl \<Rightarrow>
               (let lg = (case audit_logger of Some l \<Rightarrow> l | None \<Rightarrow> make_logger audit_redaction_mode);
                    C = \<lparr>bc_policy = policy, bc_timeout = upstream_call_timeout, bc_js = js,
                         bc_fullmatch = fullmatch\<rparr>
                in Inr \<lparr>ga_resolver = resolver, ga_bridge = C,
                        ga_state = build_gateway_server C rl cl lg\<rparr>)))"

text \<open>The arguments of \<open>main\<close> that reach the gateway, parsed.\<close>

record main_args =
  ma_policy :: string
  ma_capacity :: pyfloat
  ma_refill :: pyfloat
  ma_max_concurrent :: int
  ma_timeout :: "pyfloat option"
  ma_redaction_mode :: string

text \<open>\<open>main\<close> up to \<open>uvicorn.run\<close>, in the order in which it evaluates its arguments.\<close>

definition main_app ::
  "host_env \<Rightarrow> pydantic \<Rightarrow> (string \<Rightarrow> read_outcome) \<Rightarrow> (string \<Rightarrow> yaml_outcome)
    \<Rightarrow> (pyval \<Rightarrow> pyval \<Rightarrow> js_outcome) \<Rightarrow> (string \<Rightarrow> string \<Rightarrow> bool) \<Rightarrow> main_args \<Rightarrow> gateway_app res" where
  "main_app H P read_file safe_load js fullmatch a =
     (case load_policy P read_file safe_load (ma_policy a) of
        Inl e \<Rightarrow> Inl e
      | Inr policy \<Rightarrow>
          (let rl = make_rate_limiter (ma_capacity a) (ma_refill a) in
           case make_concurrency_limiter (ma_max_concurrent a) of
             Inl e \<Rightarrow> Inl e
           | Inr cl \<Rightarrow>
               build_gateway_app H js fullmatch policy (Some rl) (Some cl)
                 (Some (make_logger (ma_redaction_mode a))) default_redaction_mode (ma_timeout a)))"


subsection \<open>Requests\<close>

text \<open>
  The world of an HTTP request: the gateway's state and the outcomes of the calls so far. \<open>mcp_app\<close>
  is the SDK's application for a request that carries a \<open>tools/call\<close>.
\<close>

type_synonym http_world = "gateway_state \<times> call_result res list"

definition mcp_app :: "bridge_config \<Rightarrow> call_env \<Rightarrow> call_params \<Rightarrow> http_world app" where
  "mcp_app C E params sc = (\<lambda>((s, rs), var).
     case handle_call_tool C (E\<lparr>ce_principal := var\<rparr>) params s of
       (r, s') \<Rightarrow> (Inr (), ((s', rs @ [r]), var)))"

definition serve ::
  "host_env \<Rightarrow> gateway_app \<Rightarrow> (response \<Rightarrow> http_world \<Rightarrow> unit res \<times> http_world) \<Rightarrow> int \<Rightarrow> call_env
    \<Rightarrow> call_params \<Rightarrow> http_world app" where
  "serve H A send invalid_request E params =
     middleware_call (resolve (he_sha256 H) (ga_resolver A)) send invalid_request
       (mcp_app (ga_bridge A) E params)"

datatype request = ListTools call_env | CallTool call_env call_params

datatype reply = Listed "tool list res" | Called "call_result res"

fun gateway_step :: "bridge_config \<Rightarrow> request \<Rightarrow> gateway_state \<Rightarrow> reply \<times> gateway_state" where
  "gateway_step C (ListTools E) s = (case handle_list_tools C E s of (r, s') \<Rightarrow> (Listed r, s'))"
| "gateway_step C (CallTool E params) s =
     (case handle_call_tool C E params s of (r, s') \<Rightarrow> (Called r, s'))"

fun gateway_run :: "bridge_config \<Rightarrow> request list \<Rightarrow> gateway_state \<Rightarrow> reply list \<times> gateway_state" where
  "gateway_run C [] s = ([], s)"
| "gateway_run C (q # qs) s =
     (case gateway_step C q s of (r, s') \<Rightarrow>
        (case gateway_run C qs s' of (rs, s'') \<Rightarrow> (r # rs, s'')))"


subsection \<open>Startup fails closed\<close>

text \<open>The bindings of principals to environment variables that a policy makes.\<close>

definition key_bindings :: "policy_config \<Rightarrow> string pydict" where
  "key_bindings policy = map (\<lambda>(name, p). (name, pp_api_key_env p)) (pc_principals policy)"

lemma main_app_Inr:
  assumes "main_app H P rf sl js fm a = Inr A"
  shows "\<exists>policy cl resolver.
    load_policy P rf sl (ma_policy a) = Inr policy \<and>
    make_concurrency_limiter (ma_max_concurrent a) = Inr cl \<and>
    make_resolver (he_sha256 H) (he_getenv H) (key_bindings policy) = Inr resolver \<and>
    ga_resolver A = resolver \<and>
    ga_bridge A = \<lparr>bc_policy = policy, bc_timeout = ma_timeout a, bc_js = js, bc_fullmatch = fm\<rparr> \<and>
    ga_state A = (\<lparr>gw_rate = make_rate_limiter (ma_capacity a) (ma_refill a), gw_cache = None,
      gw_audit = make_logger (ma_redaction_mode a), gw_forwarded = [], gw_fetches = 0\<rparr>, cl)"
  using assms
  by (auto simp: main_app_def build_gateway_app_def build_gateway_server_def key_bindings_def Let_def
      split: sum.splits)

text \<open>
  Startup fails closed. If the gateway starts, its policy file was readable, is a mapping that
  uses declared fields only and has patterns that compile; every principal's key variable is set and
  the keys are distinct; the ceiling is positive; and the gateway starts idle, with an empty tool
  cache, nothing forwarded and an empty audit log in the chosen mode.
\<close>

lemma startup_fails_closed:
  assumes "main_app H P rf sl js fm a = Inr A"
  shows "(\<exists>text raw. rf (ma_policy a) = ReadOk text \<and> sl text = YamlOk raw \<and> config_known raw \<and>
      validate_policy_config P raw = VOk (bc_policy (ga_bridge A)) \<and>
      policy_patterns_ok P (bc_policy (ga_bridge A))) \<and>
    keys_usable (he_sha256 H) (he_getenv H) (key_bindings (bc_policy (ga_bridge A))) \<and>
    0 < ma_max_concurrent a \<and> limiter_inv (snd (ga_state A)) \<and>
    (\<forall>p. active_count (snd (ga_state A)) p = 0) \<and>
    gw_cache (fst (ga_state A)) = None \<and> gw_forwarded (fst (ga_state A)) = [] \<and>
    gw_audit (fst (ga_state A)) = make_logger (ma_redaction_mode a)"
proof -
  obtain policy cl resolver where m: "load_policy P rf sl (ma_policy a) = Inr policy"
    "make_concurrency_limiter (ma_max_concurrent a) = Inr cl"
    "make_resolver (he_sha256 H) (he_getenv H) (key_bindings policy) = Inr resolver"
    "ga_bridge A = \<lparr>bc_policy = policy, bc_timeout = ma_timeout a, bc_js = js, bc_fullmatch = fm\<rparr>"
    "ga_state A = (\<lparr>gw_rate = make_rate_limiter (ma_capacity a) (ma_refill a), gw_cache = None,
      gw_audit = make_logger (ma_redaction_mode a), gw_forwarded = [], gw_fetches = 0\<rparr>, cl)"
    using main_app_Inr [OF assms] by blast
  have "keys_usable (he_sha256 H) (he_getenv H) (key_bindings policy)"
    using m(3) make_resolver_ok by blast
  then show ?thesis
    using m load_policy_ok [OF m(1)] fresh_limiter [OF m(2)] by auto
qed

definition demo_host :: host_env where
  "demo_host = \<lparr>he_getenv = (\<lambda>v. if v = ''ANALYST_KEY'' then Some ''k1'' else None), he_sha256 = id\<rparr>"

definition demo_args :: main_args where
  "demo_args =
     \<lparr>ma_policy = ''policy.yaml'', ma_capacity = Fin 2, ma_refill = Fin 1, ma_max_concurrent = 2,
      ma_timeout = None, ma_redaction_mode = ''redacted''\<rparr>"

definition demo_app :: gateway_app where
  "demo_app = \<lparr>ga_resolver = [(''k1'', ''analyst'')], ga_bridge = demo_bridge,
     ga_state = (demo_gateway, demo_limiter)\<rparr>"

lemma demo_starts:
  "main_app demo_host (plain_pydantic (\<lambda>_. ReOk)) (\<lambda>_. ReadOk ''text'') (\<lambda>_. YamlOk (demo_document ''[a-z]+''))
     (\<lambda>_ _. JsValid) (\<lambda>_ _. True) demo_args = Inr demo_app"
proof -
  have "make_resolver id (\<lambda>v. if v = ''ANALYST_KEY'' then Some ''k1'' else None) [(''analyst'', ''ANALYST_KEY'')] =
      Inr [(''k1'', ''analyst'')]" by code_simp
  then show ?thesis
    using demo_document_loads
    by (simp add: main_app_def demo_args_def build_gateway_app_def build_gateway_server_def demo_app_def
        demo_host_def demo_bridge_def demo_gateway_def demo_limiter_def make_concurrency_limiter_def
        demo_policy_def Let_def)
qed


subsection \<open>From the wire to the upstream\<close>

text \<open>
  Only authorized requests have an effect upstream. If an HTTP request to the started gateway
  makes it forward a call, the request has exactly one \<open>Authorization\<close> value, \<open>Bearer\<close> and a
  non-empty token; the token's digest is that of the key that the environment holds for a principal
  of the policy; the call is permitted to that principal; and what is forwarded is the request's tool
  name and arguments, once. (\<open>send\<close>, the delivery of a 401 response, does not touch the gateway.)
\<close>

lemma only_authorized_requests_reach_upstream:
  assumes "main_app H P rf sl js fm a = Inr A"
    and "sc_type sc = ''http''" "\<And>resp w. fst (snd (send resp w)) = fst w"
    and "serve H A send ir E params sc (((g, cl), rs), var) = (r, (((g', cl'), rs'), var'))"
    and "gw_forwarded g' \<noteq> gw_forwarded g"
  shows "\<exists>prin token ev. authorization_values sc = [''Bearer '' @ token] \<and> token \<noteq> [] \<and>
    (prin, ev) \<in> set (key_bindings (bc_policy (ga_bridge A))) \<and>
    key_digest (he_sha256 H) (he_getenv H) ev = Some (he_sha256 H (utf8_encode token)) \<and>
    call_permitted (ga_bridge A) E prin (cp_name params) (call_arguments params) (g, cl) \<and>
    gw_forwarded g' = gw_forwarded g @ [(cp_name params, call_arguments params)]"
proof -
  have res: "make_resolver (he_sha256 H) (he_getenv H) (key_bindings (bc_policy (ga_bridge A))) = Inr (ga_resolver A)"
    using main_app_Inr [OF assms(1)] by auto
  have run: "middleware_call (resolve (he_sha256 H) (ga_resolver A)) send ir (mcp_app (ga_bridge A) E params) sc
      (((g, cl), rs), var) = (r, (((g', cl'), rs'), var'))"
    using assms(4) by (simp add: serve_def)
  show ?thesis
  proof (cases "resolve (he_sha256 H) (ga_resolver A) (authorization_values sc)")
    case None
    then have "((g', cl'), rs') = snd (send (unauthenticated_response ir) ((g, cl), rs))"
      using run assms(2) by (auto simp: middleware_call_def split: prod.splits)
    then have "g' = g" using assms(3) [of "unauthenticated_response ir" "((g, cl), rs)"]
      by (metis fst_conv)
    with assms(5) show ?thesis by simp
  next
    case (Some prin)
    then obtain r' where call: "handle_call_tool (ga_bridge A) (E\<lparr>ce_principal := Some prin\<rparr>) params (g, cl) = (r', (g', cl'))"
      using run assms(2) by (auto simp: middleware_call_def mcp_app_def split: prod.splits)
    have "call_permitted (ga_bridge A) (E\<lparr>ce_principal := Some prin\<rparr>) prin (cp_name params) (call_arguments params) (g, cl)"
      and "gw_forwarded g' = gw_forwarded g @ [(cp_name params, call_arguments params)]"
      using handle_forwarded [OF _ call, of prin] assms(5) by (auto split: if_splits)
    moreover have "call_permitted (ga_bridge A) (E\<lparr>ce_principal := Some prin\<rparr>) prin t ar s =
        call_permitted (ga_bridge A) E prin t ar s" for t ar s
      by (simp add: call_permitted_def)
    ultimately show ?thesis
      using Some resolve_built [OF res, of "authorization_values sc" prin] by blast
  qed
qed


subsection \<open>Sequences of requests\<close>

lemma gateway_step_slots:
  assumes "limiter_inv (snd s)" "gateway_step C q s = (r, s')"
  shows "limiter_inv (snd s') \<and> (\<forall>p. active_count (snd s') p = active_count (snd s) p)"
proof (cases q)
  case (ListTools E)
  then show ?thesis
    using assms by (cases s) (auto simp: handle_list_tools_def handler_simps Let_def split: sum.splits prod.splits)
next
  case (CallTool E params)
  then obtain g cl g' cl' r' where "handle_call_tool C E params (g, cl) = (r', (g', cl'))" "s = (g, cl)" "s' = (g', cl')"
    using assms(2) by (cases s; cases s') (auto split: prod.splits)
  then show ?thesis using handle_gives_back assms(1) by fastforce
qed

lemma gateway_run_slots:
  "limiter_inv (snd s) \<Longrightarrow>
    limiter_inv (snd (snd (gateway_run C qs s))) \<and>
    (\<forall>p. active_count (snd (snd (gateway_run C qs s))) p = active_count (snd s) p)"
proof (induction qs arbitrary: s)
  case (Cons q qs)
  obtain r s' where s': "gateway_step C q s = (r, s')" by (metis prod.exhaust)
  from gateway_step_slots [OF Cons.prems s'] Cons.IH [of s'] show ?case by (simp add: s' case_prod_beta)
qed simp

text \<open>
  The gateway always returns to idle: from startup on, after any sequence of \<open>tools/list\<close> and
  \<open>tools/call\<close> requests, however each of them ended, no principal holds a slot.
\<close>

lemma gateway_returns_to_idle:
  assumes "main_app H P rf sl js fm a = Inr A"
  shows "\<forall>p. active_count (snd (snd (gateway_run (ga_bridge A) qs (ga_state A)))) p = 0"
proof -
  obtain cl where cl: "make_concurrency_limiter (ma_max_concurrent a) = Inr cl" "snd (ga_state A) = cl"
    using main_app_Inr [OF assms] by auto
  with gateway_run_slots [of "ga_state A" "ga_bridge A" qs] fresh_limiter [OF cl(1)]
  show ?thesis by simp
qed

text \<open>The calls among the requests.\<close>

fun calls_of :: "request list \<Rightarrow> (call_env \<times> call_params) list" where
  "calls_of [] = []"
| "calls_of (ListTools E # qs) = calls_of qs"
| "calls_of (CallTool E params # qs) = (E, params) # calls_of qs"

definition recordable :: "call_env \<Rightarrow> bool" where
  "recordable E = (ce_principal E \<noteq> None \<and> (\<forall>n. ce_write E n = Written))"

definition record_of_call :: "call_env \<times> call_params \<Rightarrow> audit_record \<Rightarrow> bool" where
  "record_of_call c rec =
     (\<exists>prin. ce_principal (fst c) = Some prin \<and> describes (fst c) (call_ctx (fst c) (snd c) prin) rec)"

lemma list_tools_audit:
  "handle_list_tools C E (g, cl) = (r, (g', cl')) \<Longrightarrow> gw_audit g' = gw_audit g"
  by (auto simp: handle_list_tools_def handler_simps Let_def split: sum.splits prod.splits)

lemma gateway_run_records:
  assumes "known_mode (al_redaction_mode (gw_audit (fst s)))" "file_complete (al_file (gw_audit (fst s)))"
    and "\<forall>c\<in>set (calls_of qs). recordable (fst c)"
    and "\<forall>m. Called (Inl (BaseExc m)) \<notin> set (fst (gateway_run C qs s))"
  shows "\<exists>recs. list_all2 record_of_call (calls_of qs) recs \<and>
    file_lines (al_file (gw_audit (fst (snd (gateway_run C qs s))))) =
      file_lines (al_file (gw_audit (fst s))) @
      map (audit_line (al_redaction_mode (gw_audit (fst s)))) recs"
  using assms
proof (induction qs arbitrary: s)
  case (Cons q qs)
  obtain g cl where s: "s = (g, cl)" by (cases s)
  let ?mode = "al_redaction_mode (gw_audit g)"
  show ?case
  proof (cases q)
    case (ListTools E)
    obtain r g' cl' where l: "handle_list_tools C E (g, cl) = (r, (g', cl'))" by (metis prod.exhaust)
    show ?thesis
      using Cons.IH [of "(g', cl')"] Cons.prems list_tools_audit [OF l]
      by (simp add: ListTools s l case_prod_beta)
  next
    case (CallTool E params)
    obtain r g' cl' where c: "handle_call_tool C E params (g, cl) = (r, (g', cl'))" by (metis prod.exhaust)
    obtain prin where prin: "ce_principal E = Some prin" "\<forall>n. ce_write E n = Written"
      using Cons.prems(3) by (auto simp: CallTool recordable_def)
    have "\<forall>m. r \<noteq> Inl (BaseExc m)" using Cons.prems(4) by (auto simp: CallTool s c case_prod_beta)
    with prin Cons.prems(1) s obtain rec where rec: "describes E (call_ctx E params prin) rec" "adds_record g rec g'"
      using handle_one_record [OF prin _ c] by auto
    then have g': "gw_audit g' = append_line (audit_line ?mode rec @ [CHR 0x0A]) (gw_audit g)"
      by (simp add: adds_record_def)
    have mode: "al_redaction_mode (gw_audit g') = ?mode" by (simp add: g' append_line_def)
    have complete: "file_complete (al_file (gw_audit g'))"
      and lines: "file_lines (al_file (gw_audit g')) = file_lines (al_file (gw_audit g)) @ [audit_line ?mode rec]"
      using jsonl.ok_append [of "gw_audit g"] jsonl.lines_append [of "gw_audit g"] Cons.prems(2)
        audit_line_no_newline s by (simp_all add: g')
    obtain recs where recs: "list_all2 record_of_call (calls_of qs) recs"
      "file_lines (al_file (gw_audit (fst (snd (gateway_run C qs (g', cl')))))) =
        file_lines (al_file (gw_audit g')) @ map (audit_line ?mode) recs"
      using Cons.IH [of "(g', cl')"] Cons.prems complete mode
      by (auto simp: CallTool s c case_prod_beta)
    have "record_of_call (E, params) rec" using prin rec by (auto simp: record_of_call_def)
    with recs show ?thesis
      by (intro exI [of _ "rec # recs"]) (simp add: CallTool s c case_prod_beta lines)
  qed
qed simp

text \<open>
  The audit trail of a run. Over any sequence of requests to the started gateway whose calls are
  authenticated, whose writes succeed and of which none ends in a \<open>BaseException\<close> other than
  cancellation, the lines of the audit file are, in order, exactly one for each call, telling that
  call's correlation ID, principal, session, tool and arguments; \<open>tools/list\<close> requests leave no line.
\<close>

lemma audit_trail_of_a_run:
  assumes "main_app H P rf sl js fm a = Inr A" "known_mode (ma_redaction_mode a)"
    and "\<forall>c\<in>set (calls_of qs). recordable (fst c)"
    and "\<forall>m. Called (Inl (BaseExc m)) \<notin> set (fst (gateway_run (ga_bridge A) qs (ga_state A)))"
  shows "\<exists>recs. list_all2 record_of_call (calls_of qs) recs \<and>
    file_lines (al_file (gw_audit (fst (snd (gateway_run (ga_bridge A) qs (ga_state A)))))) =
      map (audit_line (ma_redaction_mode a)) recs"
proof -
  have "gw_audit (fst (ga_state A)) = make_logger (ma_redaction_mode a)"
    using main_app_Inr [OF assms(1)] by auto
  then show ?thesis
    using gateway_run_records [of "ga_state A" qs "ga_bridge A"] assms(2-4)
    by (simp add: make_logger_def file_complete_def file_lines_def)
qed


subsection \<open>The tool cache\<close>

text \<open>
  What a request does to the cache: a filled cache stays as it is and nothing is fetched; an empty one
  is filled by one fetch, or left, if the upstream answers.
\<close>

definition fetches_once :: "call_env \<Rightarrow> gateway \<Rightarrow> gateway \<Rightarrow> bool" where
  "fetches_once E g g' =
     (if gw_cache g \<noteq> None then gw_cache g' = gw_cache g \<and> gw_fetches g' = gw_fetches g
      else (\<exists>tools. ce_list_tools E = Inr tools) \<longrightarrow>
        gw_fetches g' = gw_fetches g + (if gw_cache g' = None then 0 else 1))"

lemma fetches_once_same: "gw_cache g' = gw_cache g \<Longrightarrow> gw_fetches g' = gw_fetches g \<Longrightarrow> fetches_once E g g'"
  by (simp add: fetches_once_def)

interpretation fetch_rel: emission_relation "\<lambda>s t. fetches_once E (st_gw s) (st_gw t)"
proof unfold_locales
  show "fetches_once E (st_gw s) (st_gw s)" for s :: call_state by (simp add: fetches_once_same)
  show "fetches_once E (st_gw s) (st_gw u)"
    if "fetches_once E (st_gw s) (st_gw t)" "fetches_once E (st_gw t) (st_gw u)" for s t u :: call_state
    using that by (auto simp: fetches_once_def split: if_splits)
  show "fetches_once E (st_gw ((g, l), cl)) (st_gw ((g, l'), cl))" for g l cl l'
    by (simp add: fetches_once_same)
  show "keeps (\<lambda>s t. fetches_once E (st_gw s) (st_gw t)) (write_record E' r)" for E' r
    by (simp add: keeps_def write_record_def case_prod_beta fetches_once_same)
qed

lemma fetches_once_stage_forward:
  "keeps (\<lambda>s t. fetches_once E (st_gw s) (st_gw t)) (stage_forward C E' X acquired)"
proof -
  have "keeps (\<lambda>s t. fetches_once E (st_gw s) (st_gw t)) (call_upstream C E' X)"
    by (simp add: keeps_def handler_simps fetches_once_same)
  then show ?thesis
    unfolding stage_forward_def
    by (auto intro!: fetch_rel.keeps_then fetch_rel.keeps_bind fetch_rel.keeps_set_local
        fetch_rel.keeps_clock fetch_rel.keeps_emit_and_return fetch_rel.keeps_handle_reply)
qed

lemma fetches_once_get_tools: "fetches_once E (st_gw s) (st_gw (snd (get_tools E s)))"
  by (auto simp: fetches_once_def handler_simps Let_def cache_get_def split: option.split sum.split)

interpretation fetch_pipe: pipeline_relation "\<lambda>s t. fetches_once E (st_gw s) (st_gw t)" C E X
proof unfold_locales
  show "keeps (\<lambda>s t. fetches_once E (st_gw s) (st_gw t)) (acquire_token E X)"
    by (simp add: keeps_def handler_simps Let_def fetches_once_same)
  show "keeps (\<lambda>s t. fetches_once E (st_gw s) (st_gw t)) (get_tools E)"
    by (rule keepsI) (rule fetches_once_get_tools)
  show "keeps (\<lambda>s t. fetches_once E (st_gw s) (st_gw t)) (with_slot (cx_principal X) (stage_forward C E X))"
    by (rule keeps_with_slot_other [OF fetches_once_stage_forward]) simp
qed

lemma gateway_step_fetches:
  assumes "gateway_step C q (g, cl) = (r, (g', cl'))"
  shows "\<exists>E. fetches_once E g g' \<and> (q = ListTools E \<or> (\<exists>params. q = CallTool E params))"
proof (cases q)
  case (ListTools E)
  have "fetches_once E g (st_gw (snd (get_tools E ((g, initial_locals), cl))))"
    using fetches_once_get_tools [of E "((g, initial_locals), cl)"] by simp
  then have "fetches_once E g g'"
    using assms
    by (cases "current_principal (ce_principal E)")
      (auto simp: ListTools handle_list_tools_def fetches_once_same split: sum.splits prod.splits)
  then show ?thesis using ListTools by blast
next
  case (CallTool E params)
  have run: "fetches_once E g (st_gw (snd (run_call C E X ((g, l), cl))))" for X l
    using keepsD [OF fetch_pipe.keeps_run_call, of E "((g, l), cl)" C X] by simp
  have "fetches_once E g g'"
  proof (cases "current_principal (ce_principal E)")
    case (Inr prin)
    then show ?thesis
      using assms run [of "call_ctx E params prin" "initial_locals\<lparr>lo_readings := 1\<rparr>"]
      by (auto simp: CallTool handle_call_tool_def split: prod.splits)
  qed (use assms in \<open>simp add: CallTool handle_call_tool_def fetches_once_same\<close>)
  then show ?thesis using CallTool by blast
qed

text \<open>The answer of the upstream to \<open>tools/list\<close>, if it is asked during a request.\<close>

fun fetch_outcome :: "request \<Rightarrow> tool list res" where
  "fetch_outcome (ListTools E) = ce_list_tools E"
| "fetch_outcome (CallTool E params) = ce_list_tools E"

lemma gateway_run_fetches:
  assumes "\<forall>q\<in>set qs. \<exists>tools. fetch_outcome q = Inr tools"
  shows "if gw_cache (fst s) = None
    then gw_fetches (fst (snd (gateway_run C qs s))) =
      gw_fetches (fst s) + (if gw_cache (fst (snd (gateway_run C qs s))) = None then 0 else 1)
    else gw_fetches (fst (snd (gateway_run C qs s))) = gw_fetches (fst s) \<and>
      gw_cache (fst (snd (gateway_run C qs s))) = gw_cache (fst s)"
  using assms
proof (induction qs arbitrary: s)
  case (Cons q qs)
  obtain r s' where s': "gateway_step C q s = (r, s')" by (metis prod.exhaust)
  obtain E where E: "fetches_once E (fst s) (fst s')"
    "q = ListTools E \<or> (\<exists>params. q = CallTool E params)"
    using gateway_step_fetches [of C q "fst s" "snd s" r "fst s'" "snd s'"] s' by auto
  then have "\<exists>tools. ce_list_tools E = Inr tools" using Cons.prems by auto
  with E(1) Cons.IH [of s'] Cons.prems show ?case
    by (auto simp: s' case_prod_beta fetches_once_def split: if_splits)
qed simp

text \<open>
  The upstream's tool list is fetched once. From startup on, over any sequence of requests, if
  the upstream answers when asked, \<open>tools/list\<close> is sent upstream at most once, by the first request
  that needs it, and every later request, list or call, of any principal, uses that same list.
\<close>

lemma tool_list_fetched_once:
  assumes "main_app H P rf sl js fm a = Inr A"
    and "\<forall>q\<in>set (qs @ qs'). \<exists>tools. fetch_outcome q = Inr tools"
    and "gateway_run (ga_bridge A) qs (ga_state A) = (rs, s)" "gateway_run (ga_bridge A) qs' s = (rs', s')"
  shows "gw_fetches (fst s') \<le> 1 \<and> (gw_cache (fst s) \<noteq> None \<longrightarrow> gw_cache (fst s') = gw_cache (fst s))"
proof -
  have "gw_cache (fst (ga_state A)) = None" "gw_fetches (fst (ga_state A)) = 0"
    using main_app_Inr [OF assms(1)] by auto
  then have s: "gw_fetches (fst s) = (if gw_cache (fst s) = None then 0 else 1)"
    using gateway_run_fetches [of qs "ga_state A" "ga_bridge A"] assms(2,3) by simp
  show ?thesis
    using gateway_run_fetches [of qs' s "ga_bridge A"] assms(2,4) s by (auto split: if_splits)
qed

end
