(* ===== verification/CommandLine.thy ===== *)
theory CommandLine
  imports Gateway JsonReader
begin

text \<open>
  The command lines of the programs: argparse as Python 3.12 has it, for parsers whose options are
  long and take one value (all parsers of src/), and \<open>main\<close> of sentinelmcp/gateway/server.py from
  \<open>sys.argv\<close> to \<open>uvicorn.run\<close>. Abbreviations, \<open>--option=value\<close>, \<open>--\<close>, negative numbers, conversion with
  \<open>int\<close> and \<open>float\<close>, choices, required options and the exits with status 0 and 2 are modelled; the
  texts that argparse prints, and the text \<open>--\<close> glued to an option as its value, are not.
\<close>

subsection \<open>int and float of a text\<close>

definition is_space :: "char \<Rightarrow> bool" where
  "is_space c = (let n = of_char c :: nat in n = 32 \<or> (9 \<le> n \<and> n \<le> 13) \<or> (28 \<le> n \<and> n \<le> 31) \<or> n = 133 \<or> n = 160)"

definition py_strip :: "string \<Rightarrow> string" where
  "py_strip s = rev (dropWhile is_space (rev (dropWhile is_space s)))"

text \<open>Digits with single underscores between them, without the underscores.\<close>

fun underscore_digits :: "string \<Rightarrow> string option" where
  "underscore_digits [] = None"
| "underscore_digits (c # cs) =
     (if \<not> is_digit c then None
      else if cs = [] then Some [c]
      else map_option (Cons c) (underscore_digits (if hd cs = CHR ''_'' then tl cs else cs)))"

definition split_sign :: "string \<Rightarrow> bool \<times> string" where
  "split_sign s = (if take 1 s = ''-'' then (True, tl s) else if take 1 s = ''+'' then (False, tl s) else (False, s))"

text \<open>\<open>int(s)\<close>, or None where it raises \<open>ValueError\<close>.\<close>

definition py_int :: "string \<Rightarrow> int option" where
  "py_int s =
     (case split_sign (py_strip s) of (neg, t) \<Rightarrow>
        (case underscore_digits t of
           None \<Rightarrow> None
         | Some ds \<Rightarrow>
             if 4300 < length ds then None else Some (if neg then - digits_value ds else digits_value ds)))"

text \<open>The text without its underscores, each of which must stand between two digits.\<close>

fun drop_underscores :: "bool \<Rightarrow> string \<Rightarrow> string option" where
  "drop_underscores after_digit [] = Some []"
| "drop_underscores after_digit (c # cs) =
     (if c = CHR ''_'' then
        (if after_digit \<and> cs \<noteq> [] \<and> is_digit (hd cs) then drop_underscores False cs else None)
      else map_option (Cons c) (drop_underscores (is_digit c) cs))"

definition decimal_float :: "string \<Rightarrow> pyfloat option" where
  "decimal_float s =
     (let ip = takeWhile is_digit s; r = dropWhile is_digit s in
      case (if take 1 r = ''.'' then (takeWhile is_digit (tl r), dropWhile is_digit (tl r)) else ([], r)) of
        (fp, r2) \<Rightarrow>
          if ip = [] \<and> fp = [] then None
          else
            (case exp_run r2 of
               (ev, r3) \<Rightarrow>
                 if r3 = []
                 then Some (f_round (of_int (digits_value (ip @ fp)) *
                        pow10 ((case ev of None \<Rightarrow> 0 | Some e \<Rightarrow> e) - int (length fp))))
                 else None))"

text \<open>\<open>float(s)\<close>, or None where it raises \<open>ValueError\<close>.\<close>

definition py_float :: "string \<Rightarrow> pyfloat option" where
  "py_float s =
     (case drop_underscores False (py_strip s) of
        None \<Rightarrow> None
      | Some u \<Rightarrow>
          (case split_sign u of (neg, t) \<Rightarrow>
             map_option (if neg then f_neg else id)
               (if py_lower t = ''nan'' then Some NaN
                else if py_lower t = ''inf'' \<or> py_lower t = ''infinity'' then Some PInf
                else decimal_float t)))"


subsection \<open>argparse\<close>

datatype conversion = ConvStr | ConvInt | ConvFloat

record cli_option =
  co_flag :: string
  co_conv :: conversion
  co_required :: bool
  co_choices :: "string list option"
  co_default :: pyval

definition co_dest :: "cli_option \<Rightarrow> string" where
  "co_dest o1 = map (\<lambda>c. if c = CHR ''-'' then CHR ''_'' else c) (dropWhile (\<lambda>c. c = CHR ''-'') (co_flag o1))"

definition convert :: "conversion \<Rightarrow> string \<Rightarrow> pyval option" where
  "convert c s =
     (case c of ConvStr \<Rightarrow> Some (PStr s) | ConvInt \<Rightarrow> map_option PInt (py_int s)
      | ConvFloat \<Rightarrow> map_option PFloat (py_float s))"

definition in_choices :: "cli_option \<Rightarrow> pyval \<Rightarrow> bool" where
  "in_choices o1 v = (case co_choices o1 of None \<Rightarrow> True | Some cs \<Rightarrow> v \<in> PStr ` set cs)"

text \<open>The value that an option gets from a text: it must convert, and be one of the choices.\<close>

definition option_value :: "cli_option \<Rightarrow> string \<Rightarrow> pyval option" where
  "option_value o1 s =
     (case convert (co_conv o1) s of None \<Rightarrow> None | Some v \<Rightarrow> if in_choices o1 v then Some v else None)"

definition system_exit :: "int \<Rightarrow> exn" where
  "system_exit code = BaseExc (''SystemExit: '' @ int_str code)"

datatype cli_action = Help | Takes cli_option

type_synonym cli_parser = "cli_option list"

definition flag_table :: "cli_parser \<Rightarrow> (string \<times> cli_action) list" where
  "flag_table p = [(''-h'', Help), (''--help'', Help)] @ map (\<lambda>o1. (co_flag o1, Takes o1)) p"

text \<open>
  What a word of the command line is: a plain one, the separator \<open>--\<close>, an option with the value after
  its \<open>=\<close>, or something that looks like an option and is none.
\<close>

datatype word_kind = Plain | Separator | Known cli_action "string option" | Unknown

text \<open>\<open>^-\d+$|^-\d*\.\d+$\<close>; the \<open>$\<close> also matches before a final newline.\<close>

definition negative_number :: "string \<Rightarrow> bool" where
  "negative_number s =
     (let b = (if s \<noteq> [] \<and> last s = CHR 0x0A then butlast s else s);
          ip = takeWhile is_digit (tl b); r = dropWhile is_digit (tl b)
      in take 1 b = ''-'' \<and>
         ((ip \<noteq> [] \<and> r = []) \<or> (take 1 r = ''.'' \<and> tl r \<noteq> [] \<and> list_all is_digit (tl r))))"

definition split_equals :: "string \<Rightarrow> string \<times> string option" where
  "split_equals s =
     (case py_partition (CHR ''='') s of (a, m, b) \<Rightarrow> (a, if m = [] then None else Some b))"

text \<open>\<open>_get_option_tuples\<close>: the options that a word may abbreviate.\<close>

definition abbreviated :: "cli_parser \<Rightarrow> string \<Rightarrow> (cli_action \<times> string option) list" where
  "abbreviated p s =
     (if take 2 s = ''--'' then
        (case split_equals s of
           (stem, v) \<Rightarrow> map (\<lambda>(flag, a). (a, v)) (filter (\<lambda>(flag, a). prefix stem flag) (flag_table p)))
      else
        map (\<lambda>(flag, a). (a, if flag = take 2 s then Some (drop 2 s) else None))
          (filter (\<lambda>(flag, a). flag = take 2 s \<or> prefix s flag) (flag_table p)))"

text \<open>\<open>_parse_optional\<close>.\<close>

definition word_kind_of :: "cli_parser \<Rightarrow> string \<Rightarrow> word_kind res" where
  "word_kind_of p s =
     (if take 1 s \<noteq> ''-'' then Inr Plain
      else
        (case map_of (flag_table p) s of
           Some a \<Rightarrow> Inr (Known a None)
         | None \<Rightarrow>
             if length s = 1 then Inr Plain
             else
               (case (case split_equals s of
                        (stem, Some v) \<Rightarrow> map_option (\<lambda>a. (a, v)) (map_of (flag_table p) stem)
                      | (stem, None) \<Rightarrow> None) of
                  Some (a, v) \<Rightarrow> Inr (Known a (Some v))
                | None \<Rightarrow>
                    (case abbreviated p s of
                       (a, v) # rest \<Rightarrow> if rest = [] then Inr (Known a v) else Inl (system_exit 2)
                     | [] \<Rightarrow> if negative_number s \<or> CHR '' '' \<in> set s then Inr Plain else Inr Unknown))))"

text \<open>All words are classified before any is consumed; behind \<open>--\<close> they are all plain.\<close>

fun word_kinds :: "cli_parser \<Rightarrow> string list \<Rightarrow> (string \<times> word_kind) list res" where
  "word_kinds p [] = Inr []"
| "word_kinds p (s # ss) =
     (if s = ''--'' then Inr ((s, Separator) # map (\<lambda>t. (t, Plain)) ss)
      else
        (case word_kind_of p s of
           Inl e \<Rightarrow> Inl e
         | Inr k \<Rightarrow> map_sum id (Cons (s, k)) (word_kinds p ss)))"

record parse_state =
  ps_values :: args
  ps_seen :: "string list"
  ps_extras :: bool

definition take_value :: "cli_option \<Rightarrow> string \<Rightarrow> parse_state \<Rightarrow> parse_state res" where
  "take_value o1 s st =
     (case option_value o1 s of
        None \<Rightarrow> Inl (system_exit 2)
      | Some v \<Rightarrow> Inr (st\<lparr>ps_values := dict_set (ps_values st) (co_dest o1) v, ps_seen := ps_seen st @ [co_flag o1]\<rparr>))"

text \<open>\<open>-h\<close> prints the help and exits; a value glued to it is tolerated only if it repeats \<open>-h\<close>.\<close>

definition help_exit :: "string option \<Rightarrow> string \<Rightarrow> exn" where
  "help_exit v s =
     (case v of
        None \<Rightarrow> system_exit 0
      | Some t \<Rightarrow> if take 2 s = ''-h'' \<and> t \<noteq> [] \<and> list_all (\<lambda>c. c = CHR ''h'') t then system_exit 0 else system_exit 2)"

fun consume :: "(string \<times> word_kind) list \<Rightarrow> parse_state \<Rightarrow> parse_state res" where
  "consume [] st = Inr st"
| "consume ((s, Known Help v) # ws) st = Inl (help_exit v s)"
| "consume ((s, Known (Takes o1) (Some v)) # ws) st =
     (case take_value o1 v st of Inl e \<Rightarrow> Inl e | Inr st' \<Rightarrow> consume ws st')"
| "consume [(s, Known (Takes o1) None)] st = Inl (system_exit 2)"
| "consume ((s, Known (Takes o1) None) # (v, k) # ws) st =
     (if k = Plain
      then (case take_value o1 v st of Inl e \<Rightarrow> Inl e | Inr st' \<Rightarrow> consume ws st')
      else Inl (system_exit 2))"
| "consume ((s, k) # ws) st = consume ws (st\<lparr>ps_extras := True\<rparr>)"

definition initial_parse :: "cli_parser \<Rightarrow> parse_state" where
  "initial_parse p =
     \<lparr>ps_values = map (\<lambda>o1. (co_dest o1, co_default o1)) p, ps_seen = [], ps_extras = False\<rparr>"

definition finish_parse :: "cli_parser \<Rightarrow> parse_state \<Rightarrow> args res" where
  "finish_parse p st =
     (if list_all (\<lambda>o1. co_required o1 \<longrightarrow> co_flag o1 \<in> set (ps_seen st)) p \<and> \<not> ps_extras st
      then Inr (ps_values st) else Inl (system_exit 2))"

text \<open>\<open>parser.parse_args()\<close>: the values by destination.\<close>

definition parse_args :: "cli_parser \<Rightarrow> string list \<Rightarrow> args res" where
  "parse_args p argv =
     (case word_kinds p argv of
        Inl e \<Rightarrow> Inl e
      | Inr ws \<Rightarrow> (case consume ws (initial_parse p) of Inl e \<Rightarrow> Inl e | Inr st \<Rightarrow> finish_parse p st))"


subsection \<open>The gateway's command line\<close>

definition plain_option :: "string \<Rightarrow> conversion \<Rightarrow> pyval \<Rightarrow> cli_option" where
  "plain_option flag conv v =
     \<lparr>co_flag = flag, co_conv = conv, co_required = False, co_choices = None, co_default = v\<rparr>"

definition default_audit_log_path :: string where
  "default_audit_log_path = ''sentinelmcp-audit.jsonl''"

definition gateway_options :: cli_parser where
  "gateway_options =
     [(plain_option ''--upstream-url'' ConvStr PNone)\<lparr>co_required := True\<rparr>,
      (plain_option ''--policy'' ConvStr PNone)\<lparr>co_required := True\<rparr>,
      plain_option ''--host'' ConvStr (PStr ''127.0.0.1''),
      plain_option ''--port'' ConvInt (PInt 8080),
      plain_option ''--rate-limit-capacity'' ConvFloat (PFloat default_rate_limit_capacity),
      plain_option ''--rate-limit-refill-per-second'' ConvFloat (PFloat default_rate_limit_refill_per_second),
      plain_option ''--max-concurrent-per-principal'' ConvInt (PInt default_max_concurrent_per_principal),
      plain_option ''--upstream-call-timeout-seconds'' ConvFloat PNone,
      plain_option ''--audit-log-path'' ConvStr (PStr default_audit_log_path),
      (plain_option ''--audit-redaction-mode'' ConvStr (PStr default_redaction_mode))
        \<lparr>co_choices := Some [''none'', ''keys_only'', ''redacted'', ''full'']\<rparr>]"

text \<open>An attribute of the parsed arguments, by the type its conversion gives it.\<close>

definition ns_str :: "args \<Rightarrow> string \<Rightarrow> string" where
  "ns_str ns k = (case dict_get ns k of Some (PStr s) \<Rightarrow> s | _ \<Rightarrow> [])"

definition ns_int :: "args \<Rightarrow> string \<Rightarrow> int" where
  "ns_int ns k = (case dict_get ns k of Some (PInt n) \<Rightarrow> n | _ \<Rightarrow> 0)"

definition ns_float :: "args \<Rightarrow> string \<Rightarrow> pyfloat option" where
  "ns_float ns k = (case dict_get ns k of Some (PFloat x) \<Rightarrow> Some x | _ \<Rightarrow> None)"

definition gateway_args :: "args \<Rightarrow> main_args" where
  "gateway_args ns =
     \<lparr>ma_policy = ns_str ns ''policy'', ma_capacity = the (ns_float ns ''rate_limit_capacity''),
      ma_refill = the (ns_float ns ''rate_limit_refill_per_second''),
      ma_max_concurrent = ns_int ns ''max_concurrent_per_principal'',
      ma_timeout = ns_float ns ''upstream_call_timeout_seconds'',
      ma_redaction_mode = ns_str ns ''audit_redaction_mode''\<rparr>"

text \<open>What \<open>uvicorn.run\<close> and the lifespan's client get.\<close>

record launch =
  la_app :: gateway_app
  la_upstream_url :: string
  la_audit_log_path :: string
  la_host :: string
  la_port :: int

definition gateway_main ::
  "host_env \<Rightarrow> pydantic \<Rightarrow> (string \<Rightarrow> read_outcome) \<Rightarrow> (string \<Rightarrow> yaml_outcome)
    \<Rightarrow> (pyval \<Rightarrow> pyval \<Rightarrow> js_outcome) \<Rightarrow> (string \<Rightarrow> string \<Rightarrow> bool) \<Rightarrow> string list \<Rightarrow> launch res" where
  "gateway_main H P read_file safe_load js fullmatch argv =
     (case parse_args gateway_options argv of
        Inl e \<Rightarrow> Inl e
      | Inr ns \<Rightarrow>
          (case main_app H P read_file safe_load js fullmatch (gateway_args ns) of
             Inl e \<Rightarrow> Inl e
           | Inr app \<Rightarrow>
               Inr \<lparr>la_app = app, la_upstream_url = ns_str ns ''upstream_url'',
                    la_audit_log_path = ns_str ns ''audit_log_path'', la_host = ns_str ns ''host'',
                    la_port = ns_int ns ''port''\<rparr>))"


subsection \<open>What a command line means\<close>

text \<open>Long flags without \<open>=\<close>, all different, none of them \<open>--help\<close>, with different destinations.\<close>

definition long_flag :: "string \<Rightarrow> bool" where
  "long_flag f = (take 2 f = ''--'' \<and> f \<noteq> ''--'' \<and> CHR ''='' \<notin> set f \<and> f \<noteq> ''--help'')"

definition parser_ok :: "cli_parser \<Rightarrow> bool" where
  "parser_ok p =
     (distinct (map co_flag p) \<and> list_all (\<lambda>o1. long_flag (co_flag o1)) p \<and> distinct (map co_dest p))"

text \<open>
  A setting gives an option a value, glued to the flag by \<open>=\<close> or as a word of its own. In the second
  form the value must not look like an option.
\<close>

record setting =
  se_option :: cli_option
  se_text :: string
  se_glued :: bool

fun render :: "setting list \<Rightarrow> string list" where
  "render [] = []"
| "render (x # xs) =
     (if se_glued x then [co_flag (se_option x) @ ''='' @ se_text x]
      else [co_flag (se_option x), se_text x]) @ render xs"

definition plain_text :: "string \<Rightarrow> bool" where
  "plain_text s = (take 1 s \<noteq> ''-'' \<or> s = ''-'' \<or> (negative_number s \<and> CHR ''='' \<notin> set s \<and> take 2 s \<noteq> ''--''))"

definition setting_ok :: "cli_parser \<Rightarrow> setting \<Rightarrow> bool" where
  "setting_ok p x = (se_option x \<in> set p \<and> (se_glued x \<or> plain_text (se_text x)))"

lemma map_of_flag:
  "distinct (map co_flag p) \<Longrightarrow> o1 \<in> set p \<Longrightarrow> map_of (map (\<lambda>o1. (co_flag o1, Takes o1)) p) (co_flag o1) = Some (Takes o1)"
  by (rule map_of_is_SomeI) (simp_all add: o_def rev_image_eqI)

lemma flag_lookup:
  assumes "parser_ok p" "o1 \<in> set p"
  shows "map_of (flag_table p) (co_flag o1) = Some (Takes o1)"
proof -
  have "long_flag (co_flag o1)" using assms by (simp add: parser_ok_def list_all_iff)
  then have "co_flag o1 \<noteq> ''-h''" "co_flag o1 \<noteq> ''--help''" by (auto simp: long_flag_def)
  then show ?thesis using map_of_flag assms by (simp add: flag_table_def parser_ok_def)
qed

lemma flag_table_flags:
  assumes "parser_ok p" "(f, a) \<in> set (flag_table p)"
  shows "f = ''-h'' \<or> (take 2 f = ''--'' \<and> CHR ''='' \<notin> set f)"
  using assms by (auto simp: flag_table_def parser_ok_def long_flag_def list_all_iff)

lemma kind_of_flag: "parser_ok p \<Longrightarrow> o1 \<in> set p \<Longrightarrow> word_kind_of p (co_flag o1) = Inr (Known (Takes o1) None)"
proof -
  assume p: "parser_ok p" "o1 \<in> set p"
  then have "long_flag (co_flag o1)" by (simp add: parser_ok_def list_all_iff)
  then have "take 1 (co_flag o1) = ''-''" unfolding long_flag_def by (cases "co_flag o1") auto
  then show ?thesis using flag_lookup [OF p] by (simp add: word_kind_of_def)
qed

lemma split_equals_glued: "CHR ''='' \<notin> set f \<Longrightarrow> split_equals (f @ CHR ''='' # v) = (f, Some v)"
  by (simp add: split_equals_def py_partition_append)

lemma kind_of_glued:
  assumes p: "parser_ok p" "o1 \<in> set p"
  shows "word_kind_of p (co_flag o1 @ CHR ''='' # v) = Inr (Known (Takes o1) (Some v))"
proof -
  let ?s = "co_flag o1 @ CHR ''='' # v"
  have f: "take 2 (co_flag o1) = ''--''" "CHR ''='' \<notin> set (co_flag o1)"
    using p by (simp_all add: parser_ok_def list_all_iff long_flag_def)
  then have t: "take 1 ?s = ''-''" by (cases "co_flag o1") auto
  have "?s \<noteq> ''-h''" using f by (cases "co_flag o1"; cases "tl (co_flag o1)") auto
  then have "map_of (flag_table p) ?s = None"
    using flag_table_flags [OF p(1), of ?s] by (auto simp: map_of_eq_None_iff)
  moreover have "length ?s \<noteq> 1" using f by (cases "co_flag o1") auto
  ultimately show ?thesis
    using t split_equals_glued [OF f(2)] flag_lookup [OF p] by (simp add: word_kind_of_def)
qed

lemma kind_of_plain:
  assumes "parser_ok p" "plain_text v"
  shows "word_kind_of p v = Inr Plain"
proof (cases "take 1 v \<noteq> ''-'' \<or> v = ''-''")
  case True
  moreover have "map_of (flag_table p) ''-'' = None"
    using flag_table_flags [OF assms(1), of "''-''"] by (auto simp: map_of_eq_None_iff)
  ultimately show ?thesis by (auto simp: word_kind_of_def)
next
  case False
  then have v: "take 1 v = ''-''" "v \<noteq> ''-''" "negative_number v" "CHR ''='' \<notin> set v" "take 2 v \<noteq> ''--''"
    using assms(2) by (auto simp: plain_text_def)
  have h: "take 2 v \<noteq> ''-h''"
  proof
    assume "take 2 v = ''-h''"
    then obtain w where w: "v = CHR ''-'' # CHR ''h'' # w" by (metis append_Cons append_Nil append_take_drop_id)
    have "\<not> negative_number v" by (simp add: w negative_number_def is_digit_def Let_def)
    with v(3) show False by simp
  qed
  have none: "\<not> (f = take 2 v \<or> prefix v f)" if "(f, a) \<in> set (flag_table p)" for f a
  proof
    assume m: "f = take 2 v \<or> prefix v f"
    have f: "f = ''-h'' \<or> take 2 f = ''--''" using flag_table_flags [OF assms(1) that] by blast
    have "2 \<le> length v" using v(1,2) by (cases v; cases "tl v") auto
    then have "take 2 f = take 2 v" using m by (auto simp: prefix_def)
    with f h v(5) show False by auto
  qed
  then have "map_of (flag_table p) v = None" by (fastforce simp: map_of_eq_None_iff)
  moreover have "abbreviated p v = []" using none v(5) by (auto simp: abbreviated_def filter_empty_conv)
  moreover have "takeWhile (\<lambda>c. c \<noteq> CHR ''='') v = v" "dropWhile (\<lambda>c. c \<noteq> CHR ''='') v = []"
    using v(4) by (auto simp: takeWhile_eq_all_conv dropWhile_eq_Nil_conv)
  then have "split_equals v = (v, None)" by (simp add: split_equals_def py_partition_def Let_def)
  ultimately show ?thesis using v(1-3) by (simp add: word_kind_of_def)
qed

lemma words_glued:
  "parser_ok p \<Longrightarrow> o1 \<in> set p \<Longrightarrow> word_kinds p ((co_flag o1 @ CHR ''='' # v) # ss) =
    map_sum id (Cons (co_flag o1 @ CHR ''='' # v, Known (Takes o1) (Some v))) (word_kinds p ss)"
proof -
  assume p: "parser_ok p" "o1 \<in> set p"
  have "co_flag o1 @ CHR ''='' # v \<noteq> ''--''"
    using p by (auto simp: parser_ok_def list_all_iff long_flag_def append_eq_Cons_conv Cons_eq_append_conv)
  then show ?thesis using kind_of_glued [OF p] by simp
qed

lemma words_apart:
  assumes p: "parser_ok p" "o1 \<in> set p" and v: "plain_text v"
  shows "word_kinds p (co_flag o1 # v # ss) =
    map_sum id (\<lambda>ws. (co_flag o1, Known (Takes o1) None) # (v, Plain) # ws) (word_kinds p ss)"
proof -
  have "co_flag o1 \<noteq> ''--''" using p by (auto simp: parser_ok_def list_all_iff long_flag_def)
  moreover have "v \<noteq> ''--''" using v by (auto simp: plain_text_def)
  ultimately show ?thesis
    using kind_of_flag [OF p] kind_of_plain [OF p(1) v] by (cases "word_kinds p ss") simp_all
qed

text \<open>Settings from left to right.\<close>

fun apply_settings :: "setting list \<Rightarrow> parse_state \<Rightarrow> parse_state res" where
  "apply_settings [] st = Inr st"
| "apply_settings (x # xs) st =
     (case take_value (se_option x) (se_text x) st of Inl e \<Rightarrow> Inl e | Inr st' \<Rightarrow> apply_settings xs st')"

lemma consume_render:
  assumes "parser_ok p" "list_all (setting_ok p) xs"
  obtains ws where "word_kinds p (render xs) = Inr ws" "\<And>st. consume ws st = apply_settings xs st"
proof -
  have "\<exists>ws. word_kinds p (render xs) = Inr ws \<and> (\<forall>st. consume ws st = apply_settings xs st)"
    using assms(2)
  proof (induction xs)
    case (Cons x xs)
    then obtain ws where ws: "word_kinds p (render xs) = Inr ws" "\<forall>st. consume ws st = apply_settings xs st" by auto
    have x: "se_option x \<in> set p" "se_glued x \<or> plain_text (se_text x)" using Cons.prems by (simp_all add: setting_ok_def)
    show ?case
    proof (cases "se_glued x")
      case True
      then show ?thesis using words_glued [OF assms(1) x(1)] ws by (simp split: sum.split)
    next
      case False
      then show ?thesis using words_apart [OF assms(1) x(1)] x(2) ws by (simp split: sum.split)
    qed
  qed simp
  then show thesis using that by blast
qed

text \<open>The value of an option: its last setting, or its default.\<close>

definition setting_value :: "setting list \<Rightarrow> cli_option \<Rightarrow> pyval" where
  "setting_value xs o1 =
     (case find (\<lambda>x. se_option x = o1) (rev xs) of
        None \<Rightarrow> co_default o1 | Some x \<Rightarrow> the (option_value o1 (se_text x)))"

lemma setting_value_snoc:
  "setting_value (xs @ [x]) o1 = (if se_option x = o1 then the (option_value o1 (se_text x)) else setting_value xs o1)"
  by (simp add: setting_value_def)

lemma dict_set_values:
  assumes "distinct (map co_dest p)" "o1 \<in> set p"
  shows "dict_set (map (\<lambda>o1. (co_dest o1, f o1)) p) (co_dest o1) v = map (\<lambda>o2. (co_dest o2, if o2 = o1 then v else f o2)) p"
  using assms
proof (induction p)
  case (Cons a p)
  have "map (\<lambda>o2. (co_dest o2, if o2 = o1 then v else f o2)) p = map (\<lambda>o2. (co_dest o2, f o2)) p" if "o1 \<notin> set p"
    using that by (auto intro: map_cong)
  moreover have "co_dest a \<noteq> co_dest o1" if "o1 \<in> set p" using Cons.prems(1) that by force
  ultimately show ?case using Cons by (auto simp: dict_set_def)
qed simp

definition settings_state :: "cli_parser \<Rightarrow> setting list \<Rightarrow> parse_state" where
  "settings_state p xs =
     \<lparr>ps_values = map (\<lambda>o1. (co_dest o1, setting_value xs o1)) p, ps_seen = map (co_flag \<circ> se_option) xs, ps_extras = False\<rparr>"

lemma apply_settings_state:
  assumes "parser_ok p"
  shows "list_all (setting_ok p) xs \<Longrightarrow> apply_settings xs (settings_state p ys) =
    (if list_all (\<lambda>x. option_value (se_option x) (se_text x) \<noteq> None) xs
     then Inr (settings_state p (ys @ xs)) else Inl (system_exit 2))"
proof (induction xs arbitrary: ys)
  case (Cons x xs)
  have d: "distinct (map co_dest p)" "se_option x \<in> set p" using assms Cons.prems by (simp_all add: parser_ok_def setting_ok_def)
  show ?case
  proof (cases "option_value (se_option x) (se_text x)")
    case (Some v)
    then have "take_value (se_option x) (se_text x) (settings_state p ys) = Inr (settings_state p (ys @ [x]))"
      using dict_set_values [OF d] by (simp add: take_value_def settings_state_def setting_value_snoc eq_commute [of "se_option x"] cong: if_cong)
    then show ?thesis using Cons.IH [of "ys @ [x]"] Cons.prems Some by simp
  qed (simp add: take_value_def)
qed simp

lemma initial_settings: "initial_parse p = settings_state p []"
  by (simp add: initial_parse_def settings_state_def setting_value_def)

lemma parse_settings:
  assumes "parser_ok p" "list_all (setting_ok p) xs"
  shows "parse_args p (render xs) =
    (if list_all (\<lambda>x. option_value (se_option x) (se_text x) \<noteq> None) xs \<and>
        list_all (\<lambda>o1. co_required o1 \<longrightarrow> o1 \<in> se_option ` set xs) p
     then Inr (map (\<lambda>o1. (co_dest o1, setting_value xs o1)) p) else Inl (system_exit 2))"
proof -
  obtain ws where ws: "word_kinds p (render xs) = Inr ws" "\<And>st. consume ws st = apply_settings xs st"
    using consume_render [OF assms] by blast
  have "co_flag o1 \<in> (co_flag \<circ> se_option) ` set xs \<longleftrightarrow> o1 \<in> se_option ` set xs" if "o1 \<in> set p" for o1
  proof -
    have "inj_on co_flag (set p)" using assms(1) by (simp add: parser_ok_def distinct_map)
    moreover have "se_option ` set xs \<subseteq> set p" using assms(2) by (auto simp: list_all_iff setting_ok_def)
    ultimately show ?thesis using that inj_on_image_mem_iff [of co_flag "set p" o1 "se_option ` set xs"] by (simp add: image_comp)
  qed
  then have "finish_parse p (settings_state p xs) =
      (if list_all (\<lambda>o1. co_required o1 \<longrightarrow> o1 \<in> se_option ` set xs) p
       then Inr (map (\<lambda>o1. (co_dest o1, setting_value xs o1)) p) else Inl (system_exit 2))"
    by (auto simp: finish_parse_def settings_state_def list_all_iff)
  then show ?thesis
    using apply_settings_state [OF assms, of "[]"] by (simp add: parse_args_def ws initial_settings)
qed

lemma gateway_parser_ok: "parser_ok gateway_options"
  by code_simp


text \<open>Any command line that is accepted gives every option a value of its type, from its choices.\<close>

definition value_given :: "cli_option \<Rightarrow> pyval \<Rightarrow> bool" where
  "value_given o1 v = (\<exists>s. option_value o1 s = Some v)"

definition parse_inv :: "cli_parser \<Rightarrow> parse_state \<Rightarrow> bool" where
  "parse_inv p st =
     (\<exists>f. ps_values st = map (\<lambda>o1. (co_dest o1, f o1)) p \<and>
        (\<forall>o1\<in>set p. (f o1 = co_default o1 \<or> value_given o1 (f o1)) \<and>
           (co_flag o1 \<in> set (ps_seen st) \<longrightarrow> value_given o1 (f o1))))"

lemma parse_inv_initial: "parse_inv p (initial_parse p)"
  by (auto simp: parse_inv_def initial_parse_def)

lemma parse_inv_take:
  assumes "parser_ok p" "o1 \<in> set p" "parse_inv p st" "take_value o1 s st = Inr st'"
  shows "parse_inv p st'"
proof -
  obtain f where f: "ps_values st = map (\<lambda>o1. (co_dest o1, f o1)) p"
    "\<forall>o1\<in>set p. (f o1 = co_default o1 \<or> value_given o1 (f o1)) \<and> (co_flag o1 \<in> set (ps_seen st) \<longrightarrow> value_given o1 (f o1))"
    using assms(3) by (auto simp: parse_inv_def)
  obtain v where v: "option_value o1 s = Some v"
    "st' = st\<lparr>ps_values := dict_set (ps_values st) (co_dest o1) v, ps_seen := ps_seen st @ [co_flag o1]\<rparr>"
    using assms(4) by (auto simp: take_value_def split: option.splits)
  have d: "distinct (map co_dest p)" "inj_on co_flag (set p)" using assms(1) by (simp_all add: parser_ok_def distinct_map)
  then have same: "o2 = o1" if "o2 \<in> set p" "co_flag o2 = co_flag o1" for o2
    using that assms(2) by (auto dest: inj_onD)
  show ?thesis unfolding parse_inv_def
    using f v same dict_set_values [OF d(1) assms(2), of f v]
    by (intro exI [of _ "\<lambda>o2. if o2 = o1 then v else f o2"]) (auto simp: value_given_def)
qed

lemma abbreviated_table:
  "abbreviated p s = (a, v) # rest \<Longrightarrow> \<exists>f. (f, a) \<in> set (flag_table p)"
proof -
  assume "abbreviated p s = (a, v) # rest"
  then have "(a, v) \<in> set (abbreviated p s)" by simp
  then show ?thesis by (auto simp: abbreviated_def split: prod.splits if_splits)
qed

lemma kind_known:
  assumes "word_kind_of p s = Inr (Known (Takes o1) v)"
  shows "o1 \<in> set p"
proof -
  have "\<exists>f. (f, Takes o1) \<in> set (flag_table p)"
    using assms
    by (auto simp: word_kind_of_def dest!: map_of_SomeD abbreviated_table
        split: if_splits option.splits list.splits prod.splits)
  then show ?thesis by (auto simp: flag_table_def)
qed

lemma words_known:
  "word_kinds p ss = Inr ws \<Longrightarrow> (s, Known (Takes o1) v) \<in> set ws \<Longrightarrow> o1 \<in> set p"
proof (induction ss arbitrary: ws)
  case (Cons t ss)
  then show ?case by (cases "word_kinds p ss") (auto simp: kind_known split: if_splits sum.splits)
qed simp

lemma parse_inv_consume:
  assumes "parser_ok p"
  shows "consume ws st = Inr st' \<Longrightarrow> parse_inv p st \<Longrightarrow>
    (\<And>s o1 v. (s, Known (Takes o1) v) \<in> set ws \<Longrightarrow> o1 \<in> set p) \<Longrightarrow> parse_inv p st'"
proof (induction ws st rule: consume.induct)
  case (3 s o1 v ws st)
  then show ?case using parse_inv_take [OF assms, of o1 st v] by (fastforce split: sum.splits)
next
  case (5 s o1 v k ws st)
  then show ?case using parse_inv_take [OF assms, of o1 st v] by (fastforce split: sum.splits if_splits)
qed (auto simp: parse_inv_def)

lemma parse_args_values:
  assumes "parser_ok p" "parse_args p argv = Inr ns" "o1 \<in> set p"
  obtains v where "dict_get ns (co_dest o1) = Some v" "v = co_default o1 \<or> value_given o1 v"
    "co_required o1 \<Longrightarrow> value_given o1 v"
proof -
  obtain ws st where w: "word_kinds p argv = Inr ws" "consume ws (initial_parse p) = Inr st" "finish_parse p st = Inr ns"
    using assms(2) by (auto simp: parse_args_def split: sum.splits)
  have "parse_inv p st"
    using parse_inv_consume [OF assms(1) w(2) parse_inv_initial] words_known [OF w(1)] by blast
  then obtain f where f: "ps_values st = map (\<lambda>o1. (co_dest o1, f o1)) p"
    "\<forall>o1\<in>set p. (f o1 = co_default o1 \<or> value_given o1 (f o1)) \<and> (co_flag o1 \<in> set (ps_seen st) \<longrightarrow> value_given o1 (f o1))"
    by (auto simp: parse_inv_def)
  have ns: "ns = ps_values st" "co_required o1 \<longrightarrow> co_flag o1 \<in> set (ps_seen st)"
    using w(3) assms(3) by (auto simp: finish_parse_def list_all_iff split: if_splits)
  have "dict_get ns (co_dest o1) = Some (f o1)"
    using f(1) ns(1) assms(1,3) by (auto simp: dict_get_def parser_ok_def o_def intro!: map_of_is_SomeI)
  then show thesis using that f(2) ns(2) assms(3) by blast
qed

lemma accepted_mode:
  assumes "parse_args gateway_options argv = Inr ns"
  shows "known_mode (ns_str ns ''audit_redaction_mode'')"
proof -
  let ?o = "(plain_option ''--audit-redaction-mode'' ConvStr (PStr default_redaction_mode))
      \<lparr>co_choices := Some [''none'', ''keys_only'', ''redacted'', ''full'']\<rparr>"
  have o1: "?o \<in> set gateway_options" "co_dest ?o = ''audit_redaction_mode''"
    by (simp_all add: gateway_options_def co_dest_def plain_option_def)
  then obtain v where v: "dict_get ns ''audit_redaction_mode'' = Some v" "v = co_default ?o \<or> value_given ?o v"
    using parse_args_values [OF gateway_parser_ok assms o1(1)] by metis
  then show ?thesis
    by (auto simp: ns_str_def known_mode_def value_given_def option_value_def convert_def in_choices_def
        plain_option_def default_redaction_mode_def split: if_splits)
qed


text \<open>A command line: one option twice, one glued, one abbreviated.\<close>

definition demo_command :: "string list" where
  "demo_command =
     [''--policy'', ''old.yaml'', ''--upstream-url=http://127.0.0.1:8765/mcp'', ''--policy'', ''policy.yaml'',
      ''--rate-limit-c'', ''2'', ''--rate-limit-refill-per-second=1.0'', ''--max-concurrent-per-principal'', ''2'']"

lemma demo_command_parses:
  "map_sum id gateway_args (parse_args gateway_options demo_command) = Inr demo_args"
  by code_simp

definition demo_launch :: launch where
  "demo_launch = \<lparr>la_app = demo_app, la_upstream_url = ''http://127.0.0.1:8765/mcp'',
     la_audit_log_path = default_audit_log_path, la_host = ''127.0.0.1'', la_port = 8080\<rparr>"

lemma demo_command_starts:
  "gateway_main demo_host (plain_pydantic (\<lambda>_. ReOk)) (\<lambda>_. ReadOk ''text'') (\<lambda>_. YamlOk (demo_document ''[a-z]+''))
     (\<lambda>_ _. JsValid) (\<lambda>_ _. True) demo_command = Inr demo_launch"
proof -
  have "map_sum id (\<lambda>ns. (ns_str ns ''upstream_url'', ns_str ns ''audit_log_path'', ns_str ns ''host'', ns_int ns ''port''))
      (parse_args gateway_options demo_command) =
      Inr (''http://127.0.0.1:8765/mcp'', default_audit_log_path, ''127.0.0.1'', 8080)" by code_simp
  then show ?thesis
    using demo_command_parses demo_starts
    by (cases "parse_args gateway_options demo_command") (simp_all add: gateway_main_def demo_launch_def)
qed


text \<open>The same settings; and one whose value does not convert.\<close>

definition demo_settings :: "string \<Rightarrow> setting list" where
  "demo_settings port =
     [\<lparr>se_option = gateway_options ! 1, se_text = ''policy.yaml'', se_glued = False\<rparr>,
      \<lparr>se_option = gateway_options ! 0, se_text = ''http://127.0.0.1:8765/mcp'', se_glued = True\<rparr>,
      \<lparr>se_option = gateway_options ! 3, se_text = port, se_glued = False\<rparr>]"


text \<open>Nothing on the way rejects a refill rate that is not a number.\<close>

lemma nan_from_the_command_line:
  "map_sum id ma_refill (map_sum id gateway_args (parse_args gateway_options
     [''--policy=p'', ''--upstream-url=u'', ''--rate-limit-refill-per-second'', ''nan''])) = Inr NaN"
  by code_simp

text \<open>Exits: help first, an unknown word, an ambiguous abbreviation, a missing value.\<close>

lemma exits:
  "parse_args gateway_options [''--help'', ''--port'', ''x''] = Inl (system_exit 0)"
  "parse_args gateway_options [''--policy=p'', ''--upstream-url=u'', ''extra''] = Inl (system_exit 2)"
  "parse_args gateway_options [''--rate'', ''5''] = Inl (system_exit 2)"
  "parse_args gateway_options [''--policy''] = Inl (system_exit 2)"
  "parse_args gateway_options [''--policy'', ''--host''] = Inl (system_exit 2)"
  by code_simp+

end
