(* ===== verification/UpstreamDemo.thy ===== *)
theory UpstreamDemo
  imports Bridge
begin

text \<open>
  The demo upstream server: examples/upstream_server.py. Its state is the module's two observable
  objects, the invocation counters and the concurrency tracker; each tool is a step on it.
  \<open>fixed_latency\<close> suspends between its two halves, so calls of it interleave: the halves are separate
  events, and a run is any sequence of events.
\<close>

record invocation_counters =
  ic_query_stats :: int
  ic_execute_write :: int
  ic_noop :: int
  ic_fixed_latency :: int

record concurrency_tracker =
  ct_current :: int
  ct_peak :: int

type_synonym upstream_state = "invocation_counters \<times> concurrency_tracker"

definition initial_upstream :: upstream_state where
  "initial_upstream =
     (\<lparr>ic_query_stats = 0, ic_execute_write = 0, ic_noop = 0, ic_fixed_latency = 0\<rparr>,
      \<lparr>ct_current = 0, ct_peak = 0\<rparr>)"

definition query_stats :: "string \<Rightarrow> int \<Rightarrow> bool \<Rightarrow> upstream_state \<Rightarrow> pyval \<times> upstream_state" where
  "query_stats database limit include_query_text = (\<lambda>(c, t).
     (PDict [(''database'', PStr database), (''limit'', PInt limit),
             (''include_query_text'', PBool include_query_text), (''rows'', PList [])],
      (c\<lparr>ic_query_stats := ic_query_stats c + 1\<rparr>, t)))"

definition execute_write :: "string \<Rightarrow> string \<Rightarrow> upstream_state \<Rightarrow> pyval \<times> upstream_state" where
  "execute_write database stmt = (\<lambda>(c, t).
     (PDict [(''database'', PStr database), (''statement'', PStr stmt), (''rows_affected'', PInt 0)],
      (c\<lparr>ic_execute_write := ic_execute_write c + 1\<rparr>, t)))"

definition noop :: "upstream_state \<Rightarrow> pyval \<times> upstream_state" where
  "noop = (\<lambda>(c, t). (PDict [(''ok'', PBool True)], (c\<lparr>ic_noop := ic_noop c + 1\<rparr>, t)))"

text \<open>\<open>fixed_latency\<close> up to its \<open>await\<close>, its \<open>finally\<close>, and what it returns if it is not cancelled.\<close>

definition fixed_latency_begin :: "upstream_state \<Rightarrow> upstream_state" where
  "fixed_latency_begin = (\<lambda>(c, t).
     (c\<lparr>ic_fixed_latency := ic_fixed_latency c + 1\<rparr>,
      \<lparr>ct_current = ct_current t + 1, ct_peak = max (ct_peak t) (ct_current t + 1)\<rparr>))"

definition fixed_latency_end :: "upstream_state \<Rightarrow> upstream_state" where
  "fixed_latency_end = (\<lambda>(c, t). (c, t\<lparr>ct_current := ct_current t - 1\<rparr>))"

definition fixed_latency_result :: "pyfloat \<Rightarrow> pyval" where
  "fixed_latency_result duration = PDict [(''ok'', PBool True), (''duration_seconds'', PFloat duration)]"

text \<open>
  \<open>build_server\<close> registers the four functions under their names. The SDK's part is a parameter:
  \<open>us_arguments\<close> validates the arguments of a call against the signature of the registered function,
  \<open>us_invalid\<close> is its reply when it does not call it, \<open>us_result\<close> makes the reply from what the
  function returns. \<open>include_query_text\<close> has a default.
\<close>

record upstream_sdk =
  us_arguments :: "string \<Rightarrow> args \<Rightarrow> args option"
  us_invalid :: "string \<Rightarrow> args \<Rightarrow> call_result res"
  us_result :: "pyval \<Rightarrow> call_result"

definition registered_tools :: "string list" where
  "registered_tools =
     [''database.query_stats'', ''database.execute_write'', ''benchmark.noop'', ''benchmark.fixed_latency'']"

definition invoke_tool :: "string \<Rightarrow> args \<Rightarrow> upstream_state \<Rightarrow> (pyval \<times> upstream_state) option" where
  "invoke_tool name kw u =
     (if name = ''database.query_stats'' then
        (case (dict_get kw ''database'', dict_get kw ''limit'', dict_get_or kw ''include_query_text'' (PBool False)) of
           (Some (PStr database), Some (PInt limit), PBool include_query_text) \<Rightarrow>
             Some (query_stats database limit include_query_text u)
         | _ \<Rightarrow> None)
      else if name = ''database.execute_write'' then
        (case (dict_get kw ''database'', dict_get kw ''statement'') of
           (Some (PStr database), Some (PStr stmt)) \<Rightarrow> Some (execute_write database stmt u)
         | _ \<Rightarrow> None)
      else if name = ''benchmark.noop'' then Some (noop u)
      else if name = ''benchmark.fixed_latency'' then
        (case dict_get kw ''duration_seconds'' of
           Some (PFloat duration) \<Rightarrow>
             Some (fixed_latency_result duration, fixed_latency_end (fixed_latency_begin u))
         | _ \<Rightarrow> None)
      else None)"

text \<open>One \<open>tools/call\<close>, run without another in between.\<close>

definition upstream_call ::
  "upstream_sdk \<Rightarrow> string \<Rightarrow> args \<Rightarrow> upstream_state \<Rightarrow> call_result res \<times> upstream_state" where
  "upstream_call S name arguments u =
     (case us_arguments S name arguments of
        None \<Rightarrow> (us_invalid S name arguments, u)
      | Some kw \<Rightarrow>
          (case invoke_tool name kw u of
             None \<Rightarrow> (us_invalid S name arguments, u)
           | Some (v, u') \<Rightarrow> (Inr (us_result S v), u')))"

datatype upstream_event =
    QueryStats string int bool | ExecuteWrite string string | Noop | LatencyBegin | LatencyEnd

fun upstream_step :: "upstream_event \<Rightarrow> upstream_state \<Rightarrow> upstream_state" where
  "upstream_step (QueryStats d l i) s = snd (query_stats d l i s)"
| "upstream_step (ExecuteWrite d w) s = snd (execute_write d w s)"
| "upstream_step Noop s = snd (noop s)"
| "upstream_step LatencyBegin s = fixed_latency_begin s"
| "upstream_step LatencyEnd s = fixed_latency_end s"

definition upstream_run :: "upstream_event list \<Rightarrow> upstream_state \<Rightarrow> upstream_state" where
  "upstream_run es s = fold upstream_step es s"


subsection \<open>What the counters observe\<close>

text \<open>The calls of \<open>fixed_latency\<close> that have begun and not ended after some events.\<close>

definition in_flight :: "upstream_event list \<Rightarrow> int" where
  "in_flight es = int (count_list es LatencyBegin) - int (count_list es LatencyEnd)"

definition is_query :: "upstream_event \<Rightarrow> bool" where
  "is_query e = (case e of QueryStats _ _ _ \<Rightarrow> True | _ \<Rightarrow> False)"

definition is_write :: "upstream_event \<Rightarrow> bool" where
  "is_write e = (case e of ExecuteWrite _ _ \<Rightarrow> True | _ \<Rightarrow> False)"

lemma in_flight_snoc:
  "in_flight (es @ [e]) =
    in_flight es + (if e = LatencyBegin then 1 else if e = LatencyEnd then - 1 else 0)"
  by (cases e) (simp_all add: in_flight_def)

lemma upstream_run_snoc: "upstream_run (es @ [e]) s = upstream_step e (upstream_run es s)"
  by (simp add: upstream_run_def)

lemma upstream_step_tracker:
  "ct_current (snd (upstream_step e s)) =
    ct_current (snd s) + (if e = LatencyBegin then 1 else if e = LatencyEnd then - 1 else 0)"
  "ct_peak (snd (upstream_step e s)) =
    (if e = LatencyBegin then max (ct_peak (snd s)) (ct_current (snd s) + 1) else ct_peak (snd s))"
  by (cases e; simp add: query_stats_def execute_write_def noop_def fixed_latency_begin_def
      fixed_latency_end_def case_prod_beta)+

lemma upstream_step_counters:
  "ic_query_stats (fst (upstream_step e s)) = ic_query_stats (fst s) + (if is_query e then 1 else 0)"
  "ic_execute_write (fst (upstream_step e s)) = ic_execute_write (fst s) + (if is_write e then 1 else 0)"
  "ic_noop (fst (upstream_step e s)) = ic_noop (fst s) + (if e = Noop then 1 else 0)"
  "ic_fixed_latency (fst (upstream_step e s)) = ic_fixed_latency (fst s) + (if e = LatencyBegin then 1 else 0)"
  by (cases e; simp add: query_stats_def execute_write_def noop_def fixed_latency_begin_def
      fixed_latency_end_def case_prod_beta is_query_def is_write_def)+

lemma upstream_counters:
  "ic_query_stats (fst (upstream_run es initial_upstream)) = int (length (filter is_query es))"
  "ic_execute_write (fst (upstream_run es initial_upstream)) = int (length (filter is_write es))"
  "ic_noop (fst (upstream_run es initial_upstream)) = int (count_list es Noop)"
  "ic_fixed_latency (fst (upstream_run es initial_upstream)) = int (count_list es LatencyBegin)"
  "ct_current (snd (upstream_run es initial_upstream)) = in_flight es"
proof (induction es rule: rev_induct)
  case Nil
  case 1 show ?case by (simp add: upstream_run_def initial_upstream_def)
  case 2 show ?case by (simp add: upstream_run_def initial_upstream_def)
  case 3 show ?case by (simp add: upstream_run_def initial_upstream_def)
  case 4 show ?case by (simp add: upstream_run_def initial_upstream_def)
  case 5 show ?case by (simp add: upstream_run_def initial_upstream_def in_flight_def)
next
  case (snoc e es)
  case 1 show ?case using snoc(1) by (simp add: upstream_run_snoc upstream_step_counters)
  case 2 show ?case using snoc(2) by (simp add: upstream_run_snoc upstream_step_counters)
  case 3 show ?case using snoc(3) by (simp add: upstream_run_snoc upstream_step_counters)
  case 4 show ?case using snoc(4) by (simp add: upstream_run_snoc upstream_step_counters)
  case 5 show ?case using snoc(5) by (simp add: upstream_run_snoc upstream_step_tracker in_flight_snoc)
qed

text \<open>Every call ends after it began, so no prefix of a run has more ends than beginnings.\<close>

definition ends_follow :: "upstream_event list \<Rightarrow> bool" where
  "ends_follow es = (\<forall>n. 0 \<le> in_flight (take n es))"

lemma peak_is_max:
  "ct_peak (snd (upstream_run es initial_upstream)) = Max (insert 0 {in_flight (take n es) | n. n \<le> length es})"
proof (induction es rule: rev_induct)
  case Nil
  have "{in_flight (take n []) | n. n \<le> length ([] :: upstream_event list)} = {0}"
    by (auto simp: in_flight_def)
  then show ?case by (simp add: upstream_run_def initial_upstream_def)
next
  case (snoc e es)
  let ?S = "\<lambda>es. {in_flight (take n es) | n. n \<le> length es}"
  have "?S (es @ [e]) = insert (in_flight (es @ [e])) (?S es)"
  proof -
    have "{n. n \<le> length (es @ [e])} = insert (length (es @ [e])) {n. n \<le> length es}" by auto
    then have "?S (es @ [e]) = (\<lambda>n. in_flight (take n (es @ [e]))) ` insert (length (es @ [e])) {n. n \<le> length es}"
      by blast
    also have "\<dots> = insert (in_flight (es @ [e])) (?S es)" by auto
    finally show ?thesis .
  qed
  moreover have fin: "finite (?S es)" by simp
  moreover have "in_flight es \<in> ?S es" by (auto intro: exI [of _ "length es"])
  then have le: "in_flight es \<le> Max (insert 0 (?S es))" using fin by (intro Max_ge) auto
  ultimately show ?case
    using snoc le
    by (simp add: upstream_run_snoc upstream_step_tracker upstream_counters(5) in_flight_snoc
        insert_commute [of 0] max.commute max_def split: if_splits)
qed

text \<open>
  C34: The tracker tells the truth about interleaved calls: over any sequence of events in which calls
  end only after they began, \<open>current\<close> is the number of \<open>fixed_latency\<close> calls in flight, never
  negative, \<open>peak\<close> is the largest number that was ever in flight, and each counter counts exactly the
  calls of its tool.
\<close>

theorem upstream_observes_concurrency:
  assumes "ends_follow es" "upstream_run es initial_upstream = (c, t)"
  shows "ct_current t = in_flight es \<and> 0 \<le> ct_current t \<and>
    ct_peak t = Max {in_flight (take n es) | n. n \<le> length es} \<and>
    ic_query_stats c = int (length (filter is_query es)) \<and>
    ic_execute_write c = int (length (filter is_write es)) \<and>
    ic_noop c = int (count_list es Noop) \<and> ic_fixed_latency c = int (count_list es LatencyBegin)"
proof -
  let ?S = "{in_flight (take n es) | n. n \<le> length es}"
  have "0 \<in> ?S" by (auto simp: in_flight_def intro!: exI [of _ 0])
  then have "insert 0 ?S = ?S" by blast
  then have "ct_peak t = Max ?S" using peak_is_max [of es] assms(2) by simp
  moreover have "0 \<le> in_flight es" using assms(1) unfolding ends_follow_def by (metis take_all_iff le_refl)
  ultimately show ?thesis using upstream_counters [of es] assms(2) by simp
qed

theorem upstream_observes_concurrency_witness:
  "ct_peak (snd (upstream_run [LatencyBegin, Noop, LatencyBegin, LatencyEnd] initial_upstream)) =
    Max {in_flight (take n [LatencyBegin, Noop, LatencyBegin, LatencyEnd]) |
      n. n \<le> length [LatencyBegin, Noop, LatencyBegin, LatencyEnd]}"
proof -
  let ?es = "[LatencyBegin, Noop, LatencyBegin, LatencyEnd]"
  have "ends_follow ?es"
    unfolding ends_follow_def by (auto simp: in_flight_def take_Cons split: nat.split)
  from upstream_observes_concurrency [OF this prod.collapse [symmetric]] show ?thesis by simp
qed

end
