(* ===== verification/DemoScript.thy ===== *)
theory DemoScript
  imports CommandLine UpstreamDemo
begin

text \<open>
  The two client scripts, examples/demo.py and examples/direct_client.py, as programs over the SDK's
  client, and the demo deployment they are written for: the gateway that compose.yaml starts with the
  bundled example policy, in front of the demo upstream. \<open>demo_shows\<close> says what the demo prints there.

  A script is a function of the outside world and of what has been printed. \<open>print\<close> adds one text.
\<close>

subsection \<open>Scripts over the SDK's client\<close>

type_synonym ('w, 'a) script = "'w \<times> string list \<Rightarrow> 'a res \<times> ('w \<times> string list)"

definition sc_bind :: "('w, 'a) script \<Rightarrow> ('a \<Rightarrow> ('w, 'b) script) \<Rightarrow> ('w, 'b) script" where
  "sc_bind m f = (\<lambda>s. case m s of (Inl e, s') \<Rightarrow> (Inl e, s') | (Inr x, s') \<Rightarrow> f x s')"

definition sc_print :: "string \<Rightarrow> ('w, unit) script" where
  "sc_print text = (\<lambda>(w, out). (Inr (), (w, out @ [text])))"

fun sc_all :: "('w, unit) script list \<Rightarrow> ('w, unit) script" where
  "sc_all [] = (\<lambda>s. (Inr (), s))"
| "sc_all (m # ms) = sc_bind m (\<lambda>_. sc_all ms)"

definition sc_do :: "('w \<Rightarrow> 'a res \<times> 'w) \<Rightarrow> ('w, 'a) script" where
  "sc_do f = (\<lambda>(w, out). case f w of (r, w') \<Rightarrow> (r, (w', out)))"

text \<open>\<open>try: m except Exception as exc: h exc\<close>.\<close>

definition sc_try :: "('w, 'a) script \<Rightarrow> (exn \<Rightarrow> ('w, 'a) script) \<Rightarrow> ('w, 'a) script" where
  "sc_try m h = (\<lambda>s. case m s of
     (Inl e, s') \<Rightarrow> if is_exception e then h e s' else (Inl e, s')
   | (Inr x, s') \<Rightarrow> (Inr x, s'))"

text \<open>
  The SDK's client for given request headers: entering the \<open>async with\<close>, leaving it with the way its
  body ended, the two requests, and which exceptions are \<open>MCPError\<close>s. The other fields are the texts
  of the SDK's objects.
\<close>

record 'w mcp_client =
  mc_enter :: "string pydict \<Rightarrow> 'w \<Rightarrow> unit res \<times> 'w"
  mc_leave :: "string pydict \<Rightarrow> unit res \<Rightarrow> 'w \<Rightarrow> unit res \<times> 'w"
  mc_list_tools :: "string pydict \<Rightarrow> 'w \<Rightarrow> tool list res \<times> 'w"
  mc_call_tool :: "string pydict \<Rightarrow> string \<Rightarrow> args \<Rightarrow> 'w \<Rightarrow> call_result res \<times> 'w"
  mc_is_mcp_error :: "exn \<Rightarrow> bool"
  mc_show :: "pyval \<Rightarrow> string"
  mc_show_content :: "content list \<Rightarrow> string"
  mc_show_schema :: "pyval option \<Rightarrow> string"
  mc_protocol_version :: "'w \<Rightarrow> string"
  mc_server_info :: "'w \<Rightarrow> string"

definition with_client ::
  "'w mcp_client \<Rightarrow> string pydict \<Rightarrow> ('w, unit) script \<Rightarrow> ('w, unit) script" where
  "with_client K headers body =
     sc_bind (sc_do (mc_enter K headers)) (\<lambda>_. (\<lambda>s. case body s of
       (r, (w, out)) \<Rightarrow> (case mc_leave K headers r w of (r', w') \<Rightarrow> (r', (w', out)))))"

definition newline :: string where
  "newline = [CHR 0x0A]"

definition py_bool_str :: "bool \<Rightarrow> string" where
  "py_bool_str b = (if b then ''True'' else ''False'')"

text \<open>The text of a list of strings.\<close>

definition py_list_repr :: "string list \<Rightarrow> string" where
  "py_list_repr ws = ''['' @ py_join '', '' (map py_repr ws) @ '']''"


subsection \<open>examples/demo.py\<close>

definition diagnostics_key :: string where
  "diagnostics_key = ''demo-only-not-a-real-secret-1''"

definition readonly_key :: string where
  "readonly_key = ''demo-only-not-a-real-secret-2''"

text \<open>\<open>_authed_client\<close>: the headers of the client's HTTP requests.\<close>

definition authed_client :: "string option \<Rightarrow> string pydict" where
  "authed_client api_key = (case api_key of None \<Rightarrow> [] | Some k \<Rightarrow> [(''Authorization'', ''Bearer '' @ k)])"

definition block_text :: "'w mcp_client \<Rightarrow> content \<Rightarrow> string" where
  "block_text K b = (case b of TextContent t \<Rightarrow> t | OtherContent v \<Rightarrow> mc_show K v)"

definition exn_class :: "exn \<Rightarrow> string" where
  "exn_class e = (case e of TimeoutErr _ \<Rightarrow> ''TimeoutError'' | Exc cls _ \<Rightarrow> cls
     | Cancelled \<Rightarrow> ''CancelledError'' | BaseExc _ \<Rightarrow> ''BaseException'')"

definition show_line :: "string \<Rightarrow> string" where
  "show_line label = newline @ ''--- '' @ label @ '' ---''"

definition show_call :: "'w mcp_client \<Rightarrow> string \<Rightarrow> ('w, call_result) script \<Rightarrow> ('w, unit) script" where
  "show_call K label coro =
     sc_bind (sc_print (show_line label)) (\<lambda>_.
       sc_try
         (sc_bind coro (\<lambda>result.
            sc_all (sc_print (''is_error='' @ py_bool_str (cr_is_error result)) #
                    map (\<lambda>b. sc_print (block_text K b)) (cr_content result))))
         (\<lambda>e. if mc_is_mcp_error K e then sc_print (''MCPError: '' @ exn_str e)
              else sc_print (exn_class e @ '': '' @ exn_str e)))"

definition diagnostics_part :: "'w mcp_client \<Rightarrow> ('w, unit) script" where
  "diagnostics_part K = (let headers = authed_client (Some diagnostics_key) in
     with_client K headers
       (sc_bind (sc_do (mc_list_tools K headers)) (\<lambda>tools.
        sc_all
         [sc_print (''tools visible to diagnostics-agent: '' @ py_list_repr (map tl_name tools)),
          show_call K ''permitted call succeeds''
            (sc_do (mc_call_tool K headers ''database.query_stats''
               [(''database'', PStr ''staging''), (''limit'', PInt 10), (''include_query_text'', PBool False)])),
          show_call K ''schema-invalid: limit as a string''
            (sc_do (mc_call_tool K headers ''database.query_stats''
               [(''database'', PStr ''staging''), (''limit'', PStr ''ten'')])),
          show_call K ''policy-invalid: database not in the allowed set''
            (sc_do (mc_call_tool K headers ''database.query_stats''
               [(''database'', PStr ''not-a-real-db''), (''limit'', PInt 10)])),
          show_call K ''hidden tool, denied identically to an unknown one''
            (sc_do (mc_call_tool K headers ''database.execute_write''
               [(''database'', PStr ''staging''), (''statement'', PStr ''DELETE FROM x'')]))])))"

definition readonly_part :: "'w mcp_client \<Rightarrow> ('w, unit) script" where
  "readonly_part K = (let headers = authed_client (Some readonly_key) in
     with_client K headers
       (sc_bind (sc_do (mc_list_tools K headers)) (\<lambda>tools.
        sc_all
         [sc_print (''tools visible to readonly-agent: '' @ py_list_repr (map tl_name tools)),
          show_call K ''readonly-agent may call benchmark.noop''
            (sc_do (mc_call_tool K headers ''benchmark.noop'' []))])))"

definition credential_part :: "'w mcp_client \<Rightarrow> string \<Rightarrow> string option \<Rightarrow> ('w, unit) script" where
  "credential_part K what key = (let headers = authed_client key in
     sc_try
       (sc_bind
          (with_client K headers (sc_bind (sc_do (mc_list_tools K headers)) (\<lambda>_. sc_all [])))
          (\<lambda>_. sc_print (''UNEXPECTED: '' @ what @ '' credentials were accepted'')))
       (\<lambda>_. sc_print (what @ '' credentials: rejected, as expected'')))"

definition demo_script :: "'w mcp_client \<Rightarrow> string \<Rightarrow> ('w, unit) script" where
  "demo_script K url = sc_all
     [sc_print (''gateway: '' @ url),
      sc_print (newline @ ''=== diagnostics-agent: authorized, constrained call ===''),
      diagnostics_part K,
      sc_print (newline @ ''=== readonly-agent: a narrower policy, same gateway ===''),
      readonly_part K,
      sc_print (newline @ ''=== credential failures ===''),
      credential_part K ''missing'' None,
      credential_part K ''unknown'' (Some ''not-a-configured-key'')]"

text \<open>
  \<open>main\<close>: the options of the clients and of the upstream are a host and a port, with defaults that
  differ. A bad command line, or \<open>--help\<close>, ends the process.
\<close>

definition address_options :: "string \<Rightarrow> int \<Rightarrow> cli_parser" where
  "address_options host port =
     [plain_option ''--host'' ConvStr (PStr host), plain_option ''--port'' ConvInt (PInt port)]"

definition mcp_url :: "args \<Rightarrow> string" where
  "mcp_url ns = ''http://'' @ ns_str ns ''host'' @ '':'' @ int_str (ns_int ns ''port'') @ ''/mcp''"

definition demo_options :: cli_parser where
  "demo_options = address_options ''localhost'' 8080"

definition demo_main :: "'w mcp_client \<Rightarrow> string list \<Rightarrow> ('w, unit) script" where
  "demo_main K argv =
     (case parse_args demo_options argv of
        Inl e \<Rightarrow> (\<lambda>s. (Inl e, s))
      | Inr ns \<Rightarrow> demo_script K (mcp_url ns))"


subsection \<open>examples/direct_client.py\<close>

definition direct_script :: "'w mcp_client \<Rightarrow> ('w, unit) script" where
  "direct_script K = with_client K [] (\<lambda>(w, out).
     sc_all
       [sc_print (''negotiated protocol version: '' @ mc_protocol_version K w),
        sc_print (''server info: '' @ mc_server_info K w),
        sc_bind (sc_do (mc_list_tools K [])) (\<lambda>tools.
          sc_all (sc_print (''discovered '' @ int_str (int (length tools)) @ '' tools:'') #
                  map (\<lambda>t. sc_print (''  - '' @ tl_name t @ '': '' @ mc_show_schema K (tl_input_schema t))) tools)),
        sc_bind (sc_do (mc_call_tool K [] ''benchmark.noop'' [])) (\<lambda>result.
          sc_print (''benchmark.noop -> '' @ mc_show_content K (cr_content result))),
        sc_bind (sc_do (mc_call_tool K [] ''database.query_stats''
            [(''database'', PStr ''staging''), (''limit'', PInt 10), (''include_query_text'', PBool False)])) (\<lambda>result.
          sc_print (''database.query_stats -> '' @ mc_show_content K (cr_content result)))]
       (w, out))"


text \<open>\<open>main\<close>; the client connects to the URL.\<close>

definition direct_options :: cli_parser where
  "direct_options = address_options ''127.0.0.1'' 8765"

definition direct_main :: "(string \<Rightarrow> 'w mcp_client) \<Rightarrow> string list \<Rightarrow> ('w, unit) script" where
  "direct_main connect argv =
     (case parse_args direct_options argv of
        Inl e \<Rightarrow> (\<lambda>s. (Inl e, s))
      | Inr ns \<Rightarrow> direct_script (connect (mcp_url ns)))"

text \<open>\<open>main\<close> of examples/upstream_server.py: where the built server listens.\<close>

definition upstream_options :: cli_parser where
  "upstream_options = address_options ''127.0.0.1'' 8765"

definition upstream_main :: "string list \<Rightarrow> (upstream_state \<times> string \<times> int) res" where
  "upstream_main argv =
     map_sum id (\<lambda>ns. (initial_upstream, ns_str ns ''host'', ns_int ns ''port'')) (parse_args upstream_options argv)"


subsection \<open>The bundled policy and the deployment\<close>

text \<open>sentinelmcp/policy/policies/example.yaml, as PyYAML reads it.\<close>

definition example_document :: pyval where
  "example_document = PDict [(''principals'', PDict
     [(''diagnostics-agent'', PDict
        [(''api_key_env'', PStr ''SENTINELMCP_DIAGNOSTICS_AGENT_API_KEY''),
         (''tools'', PDict
            [(''database.query_stats'', PDict
                [(''effect'', PStr ''allow''), (''deny_unknown_arguments'', PBool True),
                 (''required'', PList [PStr ''database'', PStr ''limit'']),
                 (''arguments'', PDict
                    [(''database'', PDict [(''in'', PList [PStr ''staging'', PStr ''production''])]),
                     (''limit'', PDict [(''min'', PInt 1), (''max'', PInt 100)]),
                     (''include_query_text'', PDict [(''equals'', PBool False)])])]),
             (''benchmark.noop'', PDict [(''effect'', PStr ''allow'')]),
             (''benchmark.fixed_latency'', PDict
                [(''effect'', PStr ''allow''),
                 (''arguments'', PDict [(''duration_seconds'', PDict [(''min'', PInt 0), (''max'', PInt 60)])])]),
             (''database.execute_write'', PDict [(''effect'', PStr ''deny'')])])]),
      (''readonly-agent'', PDict
        [(''api_key_env'', PStr ''SENTINELMCP_READONLY_AGENT_API_KEY''),
         (''tools'', PDict [(''benchmark.noop'', PDict [(''effect'', PStr ''allow'')])])])])]"

definition no_constraint :: argument_constraint where
  "no_constraint =
     \<lparr>ac_fields_set = [], ac_equals = PNone, ac_in = None, ac_min = None, ac_max = None,
      ac_min_length = None, ac_max_length = None, ac_min_items = None, ac_max_items = None,
      ac_pattern = None\<rparr>"

definition plain_allow :: tool_policy where
  "plain_allow = \<lparr>tp_effect = Allow, tp_required = [], tp_forbidden = [], tp_deny_unknown = True, tp_arguments = []\<rparr>"

definition query_stats_policy :: tool_policy where
  "query_stats_policy = plain_allow
     \<lparr>tp_required := [''database'', ''limit''],
      tp_arguments :=
        [(''database'', no_constraint\<lparr>ac_fields_set := [''in_''], ac_in := Some [PStr ''staging'', PStr ''production'']\<rparr>),
         (''limit'', no_constraint\<lparr>ac_fields_set := [''min'', ''max''], ac_min := Some (Fin 1), ac_max := Some (Fin 100)\<rparr>),
         (''include_query_text'', no_constraint\<lparr>ac_fields_set := [''equals''], ac_equals := PBool False\<rparr>)]\<rparr>"

definition example_policy :: policy_config where
  "example_policy = \<lparr>pc_principals =
     [(''diagnostics-agent'',
       \<lparr>pp_api_key_env = ''SENTINELMCP_DIAGNOSTICS_AGENT_API_KEY'', pp_tools =
          [(''database.query_stats'', query_stats_policy),
           (''benchmark.noop'', plain_allow),
           (''benchmark.fixed_latency'', plain_allow
              \<lparr>tp_arguments := [(''duration_seconds'',
                 no_constraint\<lparr>ac_fields_set := [''min'', ''max''], ac_min := Some (Fin 0), ac_max := Some (Fin 60)\<rparr>)]\<rparr>),
           (''database.execute_write'', plain_allow\<lparr>tp_effect := Deny\<rparr>)]\<rparr>),
      (''readonly-agent'',
       \<lparr>pp_api_key_env = ''SENTINELMCP_READONLY_AGENT_API_KEY'', pp_tools = [(''benchmark.noop'', plain_allow)]\<rparr>)]\<rparr>"

lemma example_document_valid:
  "validate_policy_config (plain_pydantic rc) example_document = VOk example_policy"
  by code_simp

lemma example_policy_loads:
  "load_policy (plain_pydantic rc) (\<lambda>_. ReadOk text) (\<lambda>_. YamlOk example_document) path = Inr example_policy"
  by (simp add: load_policy_def example_document_valid) (simp add: example_document_def)

text \<open>The services of compose.yaml: the words of their commands, and the gateway's environment.\<close>

definition compose_upstream_command :: "string list" where
  "compose_upstream_command = [''--host'', ''0.0.0.0'', ''--port'', ''8765'']"

definition compose_policy_path :: string where
  "compose_policy_path = ''sentinelmcp/policy/policies/example.yaml''"

definition compose_gateway_command :: "string list" where
  "compose_gateway_command =
     [''--upstream-url'', ''http://upstream:8765/mcp'', ''--policy'', compose_policy_path,
      ''--host'', ''0.0.0.0'', ''--port'', ''8080'']"

definition compose_environment :: "string \<Rightarrow> string option" where
  "compose_environment v =
     (if v = ''SENTINELMCP_DIAGNOSTICS_AGENT_API_KEY'' then Some ''demo-only-not-a-real-secret-1''
      else if v = ''SENTINELMCP_READONLY_AGENT_API_KEY'' then Some ''demo-only-not-a-real-secret-2''
      else None)"

definition default_args :: "string \<Rightarrow> main_args" where
  "default_args policy =
     \<lparr>ma_policy = policy, ma_capacity = default_rate_limit_capacity,
      ma_refill = default_rate_limit_refill_per_second,
      ma_max_concurrent = default_max_concurrent_per_principal, ma_timeout = None,
      ma_redaction_mode = default_redaction_mode\<rparr>"

text \<open>
  The command of compose.yaml sets no limits, so the gateway runs with the defaults; and the services
  and clients agree on their ports.
\<close>

lemma compose_args: "map_sum id gateway_args (parse_args gateway_options compose_gateway_command) = Inr (default_args compose_policy_path)"
  by code_simp

lemma compose_ports:
  "upstream_main compose_upstream_command = Inr (initial_upstream, ''0.0.0.0'', 8765)"
  "map_sum id (\<lambda>ns. (ns_str ns ''upstream_url'', ns_int ns ''port'')) (parse_args gateway_options compose_gateway_command) =
     Inr (''http://'' @ ''upstream'' @ '':'' @ int_str 8765 @ ''/mcp'', 8080)"
  "map_sum id mcp_url (parse_args demo_options []) = Inr (''http://'' @ ''localhost'' @ '':'' @ int_str 8080 @ ''/mcp'')"
  by code_simp+

lemma compose_main:
  assumes "gateway_main H P rf sl js fm compose_gateway_command = Inr L"
  shows "main_app H P rf sl js fm (default_args compose_policy_path) = Inr (la_app L)"
  using assms compose_args by (auto simp: gateway_main_def split: sum.splits)

text \<open>
  One HTTP request of a client to the gateway: the middleware answers, or runs the handler with the
  principal it resolved. The client raises \<open>refused\<close> on a 401 response.
\<close>

definition http_request ::
  "host_env \<Rightarrow> gateway_app \<Rightarrow> int \<Rightarrow> exn \<Rightarrow> string pydict
    \<Rightarrow> (string option \<Rightarrow> gateway_state \<Rightarrow> 'a res \<times> gateway_state) \<Rightarrow> gateway_state
    \<Rightarrow> 'a res \<times> gateway_state" where
  "http_request H A invalid_request refused headers handler s =
     (case middleware_call (resolve (he_sha256 H) (ga_resolver A))
         (\<lambda>_ (s, _). (Inr (), (s, Inl refused))) invalid_request
         (\<lambda>_ ((s, _), var). case handler var s of (r, s') \<Rightarrow> (Inr (), ((s', r), var)))
         \<lparr>sc_type = ''http'', sc_headers = headers\<rparr> ((s, Inl refused), None) of
       (_, ((s', r), _)) \<Rightarrow> (r, s'))"

text \<open>
  The deployment: the gateway, the upstream and the number of requests so far. \<open>dp_env\<close> supplies the
  clocks, identifiers and writes of each request; \<open>dp_error\<close> is what a client raises when the
  handler raised; \<open>dp_tools\<close> is the answer of the upstream's SDK to \<open>tools/list\<close>.
\<close>

record world =
  wd_gateway :: gateway_state
  wd_upstream :: upstream_state
  wd_requests :: nat

record deployment =
  dp_host :: host_env
  dp_app :: gateway_app
  dp_sdk :: upstream_sdk
  dp_tools :: "tool list"
  dp_env :: "nat \<Rightarrow> call_env"
  dp_invalid_request :: int
  dp_refused :: exn
  dp_error :: "exn \<Rightarrow> exn"

definition request_env :: "deployment \<Rightarrow> world \<Rightarrow> string option \<Rightarrow> call_env" where
  "request_env D w var = (dp_env D (wd_requests w))
     \<lparr>ce_principal := var, ce_list_tools := Inr (dp_tools D),
      ce_answer := (\<lambda>name arguments. fst (upstream_call (dp_sdk D) name arguments (wd_upstream w)))\<rparr>"

text \<open>The upstream after the calls that the gateway forwarded.\<close>

definition upstream_after :: "upstream_sdk \<Rightarrow> (string \<times> args) list \<Rightarrow> upstream_state \<Rightarrow> upstream_state" where
  "upstream_after S calls u = fold (\<lambda>(name, arguments). snd \<circ> upstream_call S name arguments) calls u"

definition client_request ::
  "deployment \<Rightarrow> string pydict \<Rightarrow> (call_env \<Rightarrow> gateway_state \<Rightarrow> 'a res \<times> gateway_state) \<Rightarrow> world
    \<Rightarrow> 'a res \<times> world" where
  "client_request D headers handler w =
     (case http_request (dp_host D) (dp_app D) (dp_invalid_request D) (dp_refused D) headers
         (\<lambda>var s. case handler (request_env D w var) s of (r, s') \<Rightarrow> (map_sum (dp_error D) id r, s'))
         (wd_gateway w) of
       (r, s') \<Rightarrow>
         (r, \<lparr>wd_gateway = s',
              wd_upstream = upstream_after (dp_sdk D)
                (drop (length (gw_forwarded (fst (wd_gateway w)))) (gw_forwarded (fst s'))) (wd_upstream w),
              wd_requests = Suc (wd_requests w)\<rparr>))"

text \<open>
  The SDK's client in that deployment. The session is opened by a request of its own, which the SDK
  answers behind the middleware.
\<close>

definition gateway_client :: "deployment \<Rightarrow> world mcp_client \<Rightarrow> world mcp_client" where
  "gateway_client D K = K
     \<lparr>mc_enter := (\<lambda>headers. client_request D headers (\<lambda>_ s. (Inr (), s))),
      mc_leave := (\<lambda>headers r w. (r, w)),
      mc_list_tools := (\<lambda>headers. client_request D headers (handle_list_tools (ga_bridge (dp_app D)))),
      mc_call_tool := (\<lambda>headers name arguments. client_request D headers
        (\<lambda>E. handle_call_tool (ga_bridge (dp_app D)) E \<lparr>cp_name = name, cp_arguments = Some arguments\<rparr>))\<rparr>"


subsection \<open>Running a script\<close>

lemma sc_simps [simp]:
  "sc_print t (w, out) = (Inr (), (w, out @ [t]))"
  "sc_bind m f s = (case m s of (Inl e, s') \<Rightarrow> (Inl e, s') | (Inr x, s') \<Rightarrow> f x s')"
  "sc_do h (w, out) = (case h w of (r, w') \<Rightarrow> (r, (w', out)))"
  by (simp_all add: sc_print_def sc_bind_def sc_do_def)

lemma sc_all_prints: "sc_all (map (\<lambda>b. sc_print (f b)) bs) (w, out) = (Inr (), (w, out @ map f bs))"
  by (induction bs arbitrary: out) simp_all

text \<open>
  From a world that satisfies \<open>P\<close> the script prints \<open>ls\<close>, ends normally, and the world then
  satisfies \<open>Q\<close>.
\<close>

definition says :: "('w \<Rightarrow> bool) \<Rightarrow> ('w, unit) script \<Rightarrow> string list \<Rightarrow> ('w \<Rightarrow> bool) \<Rightarrow> bool" where
  "says P m ls Q = (\<forall>w out. P w \<longrightarrow> (\<exists>w'. m (w, out) = (Inr (), (w', out @ ls)) \<and> Q w'))"

lemma saysI: "(\<And>w out. P w \<Longrightarrow> \<exists>w'. m (w, out) = (Inr (), (w', out @ ls)) \<and> Q w') \<Longrightarrow> says P m ls Q"
  by (simp add: says_def)

lemma saysD: "says P m ls Q \<Longrightarrow> P w \<Longrightarrow> \<exists>w'. m (w, out) = (Inr (), (w', out @ ls)) \<and> Q w'"
  by (simp add: says_def)

lemma says_print: "says P (sc_print t) [t] P"
  by (simp add: says_def)

lemma says_done: "says P (sc_all []) [] P"
  by (simp add: says_def)

lemma says_seq: "says P m ls Q \<Longrightarrow> says Q (sc_all ms) ls' R \<Longrightarrow> says P (sc_all (m # ms)) (ls @ ls') R"
  unfolding says_def by (simp split del: if_split) (metis (no_types, lifting) append.assoc case_prod_conv sum.case(2))

lemma says_lines: "says P m ls Q \<Longrightarrow> ls = ls' \<Longrightarrow> says P m ls' Q"
  by simp

lemma says_more: "says P m ls Q \<Longrightarrow> (\<And>w. P' w \<Longrightarrow> P w) \<Longrightarrow> says P' m ls Q"
  by (auto simp: says_def)

text \<open>What \<open>_show\<close> prints of a result.\<close>

definition shown :: "'w mcp_client \<Rightarrow> call_result \<Rightarrow> string list" where
  "shown K r = (''is_error='' @ py_bool_str (cr_is_error r)) # map (block_text K) (cr_content r)"

lemma shown_finalize [simp]: "shown K (finalize c r) = shown K r"
  by (simp add: shown_def finalize_def)

lemma shown_error [simp]: "shown K (error_result t) = [''is_error=True'', t]"
  by (simp add: shown_def error_result_def block_text_def py_bool_str_def)

lemma show_call_returns:
  "fst (f w) = Inr r \<Longrightarrow>
    show_call K label (sc_do f) (w, out) =
      (Inr (), (snd (f w), out @ show_line label # shown K r))"
  by (cases "f w") (simp add: show_call_def sc_try_def shown_def sc_all_prints)

text \<open>A request with an accepted and with a rejected credential.\<close>

definition resolved :: "deployment \<Rightarrow> string pydict \<Rightarrow> string option" where
  "resolved D headers =
     resolve (he_sha256 (dp_host D)) (ga_resolver (dp_app D))
       (authorization_values \<lparr>sc_type = ''http'', sc_headers = headers\<rparr>)"

lemma request_refused:
  "resolved D headers = None \<Longrightarrow> fst (client_request D headers h w) = Inl (dp_refused D)"
  by (simp add: client_request_def http_request_def middleware_call_def resolved_def)

lemma request_accepted:
  assumes "resolved D headers = Some prin" "h (request_env D w (Some prin)) (wd_gateway w) = (r, s')"
  shows "client_request D headers h w =
    (map_sum (dp_error D) id r,
     \<lparr>wd_gateway = s',
      wd_upstream = upstream_after (dp_sdk D)
        (drop (length (gw_forwarded (fst (wd_gateway w)))) (gw_forwarded (fst s'))) (wd_upstream w),
      wd_requests = Suc (wd_requests w)\<rparr>)"
  using assms by (simp add: client_request_def http_request_def middleware_call_def resolved_def)


subsection \<open>The gateway between requests\<close>

text \<open>
  The tool list is cached, no slot is held, each principal \<open>p\<close> has at least \<open>budget p\<close> attempts left,
  \<open>fwd\<close> has been forwarded and the upstream is in state \<open>u\<close>.
\<close>

definition steady ::
  "deployment \<Rightarrow> (string \<Rightarrow> nat) \<Rightarrow> (string \<times> args) list \<Rightarrow> upstream_state \<Rightarrow> world \<Rightarrow> bool" where
  "steady D budget fwd u w = (case wd_gateway w of (g, cl) \<Rightarrow>
     gw_cache g = Some (dp_tools D) \<and> known_mode (al_redaction_mode (gw_audit g)) \<and>
     limiter_inv cl \<and> (\<forall>p. active_count cl p = 0) \<and> 0 < cl_max_concurrent cl \<and>
     (\<forall>p. tokens_left p (budget p) (gw_rate g)) \<and> gw_forwarded g = fwd \<and> wd_upstream w = u)"

text \<open>The verdict on a call in such a state: the policy, the schema and the constraints decide.\<close>

definition decide :: "deployment \<Rightarrow> string \<Rightarrow> string \<Rightarrow> args \<Rightarrow> upstream_state \<Rightarrow> verdict res" where
  "decide D prin name arguments u = (let C = ga_bridge (dp_app D) in
     case resolve_tool_policy (bc_policy C) prin name of
       None \<Rightarrow> Inr VDenied
     | Some tp \<Rightarrow>
         (case find (\<lambda>t. tl_name t = name) (dp_tools D) of
            None \<Rightarrow> Inr VDenied
          | Some t \<Rightarrow>
              (case validate_input_schema (bc_js C) (tl_input_schema t) arguments of
                 Inl e \<Rightarrow> Inl e
               | Inr (Some m) \<Rightarrow> Inr (VSchema m)
               | Inr None \<Rightarrow>
                   (case evaluate_argument_policy (bc_fullmatch C) tp arguments of
                      Some m \<Rightarrow> Inr (VConstraint m)
                    | None \<Rightarrow> Inr (VForwarded (fst (upstream_call (dp_sdk D) name arguments u)))))))"

lemma steady_judge:
  assumes "steady D budget fwd u w" "0 < budget prin" "bc_timeout (ga_bridge (dp_app D)) = None"
  shows "judge (ga_bridge (dp_app D)) (request_env D w (Some prin)) prin name arguments (wd_gateway w) =
    decide D prin name arguments u"
proof -
  obtain g cl where w: "wd_gateway w = (g, cl)" by force
  obtain n where "budget prin = Suc n" using assms(2) gr0_conv_Suc by blast
  then have "tokens_left prin (Suc n) (gw_rate g)"
    using assms(1) by (auto simp: steady_def w) metis
  then have "fst (rate_try_acquire prin t0 t1 (gw_rate g)) = Inr True" for t0 t1
    using tokens_left_acquire by blast
  then show ?thesis
    using assms(1,3)
    by (simp add: judge_def decide_def w steady_def cache_get_def request_env_def upstream_reply_def Let_def
        split: option.split sum.split)
qed

lemma steady_call:
  assumes steady: "steady D budget fwd u w" and "0 < budget prin" "bc_timeout (ga_bridge (dp_app D)) = None"
    and writes: "\<forall>n. ce_write (dp_env D (wd_requests w)) n = Written"
    and who: "resolved D headers = Some prin"
    and v: "decide D prin name arguments u = Inr v" "\<forall>m. v \<noteq> VForwarded (Inl (BaseExc m))"
    and w': "client_request D headers
      (\<lambda>E. handle_call_tool (ga_bridge (dp_app D)) E \<lparr>cp_name = name, cp_arguments = Some arguments\<rparr>) w = (r, w')"
  shows "r = map_sum (dp_error D) (finalize (ce_correlation_id (dp_env D (wd_requests w)))) (verdict_result name v) \<and>
    steady D (budget(prin := budget prin - 1)) (fwd @ (if forwarded_verdict v then [(name, arguments)] else []))
      (if forwarded_verdict v then snd (upstream_call (dp_sdk D) name arguments u) else u) w'"
proof -
  let ?E = "request_env D w (Some prin)" and ?C = "ga_bridge (dp_app D)"
    and ?q = "\<lparr>cp_name = name, cp_arguments = Some arguments\<rparr>"
  obtain g cl where w: "wd_gateway w = (g, cl)" by force
  obtain r' g' cl' where h: "handle_call_tool ?C ?E ?q (g, cl) = (r', (g', cl'))" by (metis prod.exhaust)
  have E: "ce_principal ?E = Some prin" "\<forall>n. ce_write ?E n = Written"
    "ce_correlation_id ?E = ce_correlation_id (dp_env D (wd_requests w))"
    using writes by (simp_all add: request_env_def)
  have q: "cp_name ?q = name" "call_arguments ?q = arguments" by (simp_all add: call_arguments_def)
  have j: "judge ?C ?E prin (cp_name ?q) (call_arguments ?q) (g, cl) = Inr v"
    using steady_judge [OF assms(1-3)] v(1) by (simp add: w q)
  have S: "gw_cache g = Some (dp_tools D)" "known_mode (al_redaction_mode (gw_audit g))" "limiter_inv cl"
    "\<forall>p. active_count cl p = 0" "0 < cl_max_concurrent cl" "\<forall>p. tokens_left p (budget p) (gw_rate g)"
    "gw_forwarded g = fwd" "wd_upstream w = u"
    using steady by (simp_all add: steady_def w)
  have r': "r' = map_sum id (finalize (ce_correlation_id ?E)) (verdict_result name v)"
    and audit: "\<exists>rec. adds_record g rec g'"
    using call_verdict [OF E(1,2) S(2) j v(2) h] by (auto simp: q)
  have fwd': "gw_forwarded g' = fwd @ (if forwarded_verdict v then [(name, arguments)] else [])"
    using handle_forwarded [OF E(1) h] judge_permitted [OF j] S(7) by (simp add: q)
  have cache: "gw_cache g' = Some (dp_tools D)"
    using gateway_step_fetches [of ?C "CallTool ?E ?q" g cl] h S(1) by (auto simp: fetches_once_def)
  have slots: "limiter_inv cl'" "\<forall>p. active_count cl' p = 0" "0 < cl_max_concurrent cl'"
    using handle_gives_back [OF S(3) h] S(4,5) by simp_all
  have "tokens_left p ((budget(prin := budget prin - 1)) p) (gw_rate g')" for p
    using S(6) assms(2) tokens_left_acquire [of prin "budget prin - 1" "gw_rate g"] tokens_left_other [of p prin]
    by (simp add: handle_rate [OF E(1) h])
  moreover have "known_mode (al_redaction_mode (gw_audit g'))"
    using audit S(2) by (auto simp: adds_record_def append_line_def)
  moreover have "map_sum (dp_error D) id r' = map_sum (dp_error D) (finalize (ce_correlation_id ?E)) (verdict_result name v)"
    unfolding r' by (cases "verdict_result name v") simp_all
  ultimately show ?thesis
    using request_accepted [OF who, where h = "\<lambda>E. handle_call_tool ?C E ?q" and w = w] h w' cache slots fwd' S(7,8)
    by (simp add: steady_def w E upstream_after_def)
qed

text \<open>A listing fills the cache, or finds it filled.\<close>

definition with_tools :: "deployment \<Rightarrow> world \<Rightarrow> world" where
  "with_tools D w = w\<lparr>wd_gateway :=
     ((fst (wd_gateway w))\<lparr>gw_cache := Some (dp_tools D)\<rparr>, snd (wd_gateway w))\<rparr>"

lemma steady_with_tools: "steady D budget fwd u w \<Longrightarrow> with_tools D w = w"
  by (cases w; cases "wd_gateway w") (auto simp: steady_def with_tools_def)

lemma steady_list:
  assumes "steady D budget fwd u (with_tools D w)" "gw_cache (fst (wd_gateway w)) \<in> {None, Some (dp_tools D)}"
    and "resolved D headers = Some prin"
    and "client_request D headers (handle_list_tools (ga_bridge (dp_app D))) w = (r, w')"
  shows "r = Inr (filter (\<lambda>t. is_tool_allowed (bc_policy (ga_bridge (dp_app D))) prin (tl_name t)) (dp_tools D)) \<and>
    steady D budget fwd u w'"
proof -
  obtain g cl where w: "wd_gateway w = (g, cl)" by force
  obtain f where "handle_list_tools (ga_bridge (dp_app D)) (request_env D w (Some prin)) (g, cl) =
      (Inr (filter (\<lambda>t. is_tool_allowed (bc_policy (ga_bridge (dp_app D))) prin (tl_name t)) (dp_tools D)),
       (g\<lparr>gw_cache := Some (dp_tools D), gw_fetches := f\<rparr>, cl))"
    using assms(2)
    by (cases g) (auto simp: handle_list_tools_def current_principal_def get_tools_def cache_get_def request_env_def w)
  then show ?thesis
    using request_accepted [OF assms(3), where h = "handle_list_tools (ga_bridge (dp_app D))" and w = w] assms(1,4)
    by (auto simp: steady_def with_tools_def w upstream_after_def)
qed

lemma steady_enter:
  assumes "resolved D headers = Some prin" "client_request D headers (\<lambda>_ s. (Inr (), s)) w = (r, w')"
  shows "r = Inr () \<and> wd_gateway w' = wd_gateway w \<and> wd_upstream w' = wd_upstream w"
  using request_accepted [OF assms(1), where h = "\<lambda>_ s. (Inr (), s)" and w = w] assms(2)
  by (auto simp: upstream_after_def)


subsection \<open>The demo on the deployment\<close>

definition schema_says :: "deployment \<Rightarrow> string \<Rightarrow> args \<Rightarrow> string option res" where
  "schema_says D name arguments =
     (case find (\<lambda>t. tl_name t = name) (dp_tools D) of
        None \<Rightarrow> Inr None
      | Some t \<Rightarrow> validate_input_schema (bc_js (ga_bridge (dp_app D))) (tl_input_schema t) arguments)"

definition query_arguments :: args where
  "query_arguments = [(''database'', PStr ''staging''), (''limit'', PInt 10), (''include_query_text'', PBool False)]"

text \<open>
  What the demo expects of what it cannot see: the environment of compose.yaml; SHA-256 gives the
  three keys of the script distinct digests; the audit log can be written; the upstream's SDK lists
  the registered tools with schemas that say what the signatures say (\<open>m\<close> is the complaint about a
  limit that is a string) and passes valid arguments on; its client raises an \<open>Exception\<close> on a 401.
\<close>

definition compose_deployment :: "deployment \<Rightarrow> string \<Rightarrow> bool" where
  "compose_deployment D m =
     (he_getenv (dp_host D) = compose_environment \<and>
      distinct (map (he_sha256 (dp_host D)) [diagnostics_key, readonly_key, ''not-a-configured-key'']) \<and>
      (\<forall>n k. ce_write (dp_env D n) k = Written) \<and>
      map tl_name (dp_tools D) = registered_tools \<and>
      schema_says D ''database.query_stats'' query_arguments = Inr None \<and>
      schema_says D ''database.query_stats'' [(''database'', PStr ''staging''), (''limit'', PStr ''ten'')] = Inr (Some m) \<and>
      schema_says D ''database.query_stats'' [(''database'', PStr ''not-a-real-db''), (''limit'', PInt 10)] = Inr None \<and>
      schema_says D ''benchmark.noop'' [] = Inr None \<and>
      us_arguments (dp_sdk D) ''database.query_stats'' query_arguments = Some query_arguments \<and>
      us_arguments (dp_sdk D) ''benchmark.noop'' [] = Some [] \<and>
      is_exception (dp_refused D))"

definition query_reply :: "deployment \<Rightarrow> call_result" where
  "query_reply D = us_result (dp_sdk D)
     (PDict [(''database'', PStr ''staging''), (''limit'', PInt 10), (''include_query_text'', PBool False),
             (''rows'', PList [])])"

definition noop_reply :: "deployment \<Rightarrow> call_result" where
  "noop_reply D = us_result (dp_sdk D) (PDict [(''ok'', PBool True)])"

definition demo_output :: "world mcp_client \<Rightarrow> deployment \<Rightarrow> string \<Rightarrow> string \<Rightarrow> string list" where
  "demo_output K D url m =
     [''gateway: '' @ url,
      newline @ ''=== diagnostics-agent: authorized, constrained call ==='',
      ''tools visible to diagnostics-agent: '' @
        py_list_repr [''database.query_stats'', ''benchmark.noop'', ''benchmark.fixed_latency''],
      show_line ''permitted call succeeds''] @ shown K (query_reply D) @
     [show_line ''schema-invalid: limit as a string'',
      ''is_error=True'', ''Schema-invalid arguments for database.query_stats: '' @ m,
      show_line ''policy-invalid: database not in the allowed set'',
      ''is_error=True'',
      ''Argument policy violation for database.query_stats: '' @ py_repr ''database'' @
        '' is not one of the allowed values'',
      show_line ''hidden tool, denied identically to an unknown one'',
      ''is_error=True'', ''Unknown tool: database.execute_write'',
      newline @ ''=== readonly-agent: a narrower policy, same gateway ==='',
      ''tools visible to readonly-agent: '' @ py_list_repr [''benchmark.noop''],
      show_line ''readonly-agent may call benchmark.noop''] @ shown K (noop_reply D) @
     [newline @ ''=== credential failures ==='',
      ''missing credentials: rejected, as expected'',
      ''unknown credentials: rejected, as expected'']"

lemma keys_utf8:
  "utf8_encode diagnostics_key = diagnostics_key" "utf8_encode readonly_key = readonly_key"
  "utf8_encode ''not-a-configured-key'' = ''not-a-configured-key''"
  "diagnostics_key \<noteq> []" "readonly_key \<noteq> []"
  by code_simp+

lemma resolve_bearer:
  "k \<noteq> [] \<Longrightarrow> resolve sha ds [''Bearer '' @ k] = dict_get ds (sha (utf8_encode k))"
  using py_partition_append [of "CHR '' ''" "''Bearer''" k] by (simp add: resolve_def)

lemma authed_values:
  "authorization_values \<lparr>sc_type = t, sc_headers = authed_client (Some k)\<rparr> = [''Bearer '' @ k]"
  "authorization_values \<lparr>sc_type = t, sc_headers = authed_client None\<rparr> = []"
proof -
  have "py_lower ''Authorization'' = ''authorization''" by code_simp
  then show "authorization_values \<lparr>sc_type = t, sc_headers = authed_client (Some k)\<rparr> = [''Bearer '' @ k]"
    "authorization_values \<lparr>sc_type = t, sc_headers = authed_client None\<rparr> = []"
    by (simp_all add: authorization_values_def authed_client_def)
qed

lemma compose_resolver:
  assumes "main_app H P rf sl js fm (default_args path) = Inr A" "load_policy P rf sl path = Inr example_policy"
    and "he_getenv H = compose_environment"
  shows "ga_resolver A = [(he_sha256 H diagnostics_key, ''diagnostics-agent''), (he_sha256 H readonly_key, ''readonly-agent'')]"
proof -
  have "make_resolver (he_sha256 H) (he_getenv H) (key_bindings example_policy) = Inr (ga_resolver A)"
    using main_app_Inr [OF assms(1)] assms(2) by (auto simp: default_args_def)
  moreover have "key_bindings example_policy =
      [(''diagnostics-agent'', ''SENTINELMCP_DIAGNOSTICS_AGENT_API_KEY''),
       (''readonly-agent'', ''SENTINELMCP_READONLY_AGENT_API_KEY'')]"
    by code_simp
  ultimately show ?thesis
    using keys_utf8
    by (auto simp: make_resolver_def assms(3) compose_environment_def diagnostics_key_def readonly_key_def
        Let_def dict_set_def split: option.splits if_splits)
qed

lemma compose_who:
  assumes "main_app H P rf sl js fm (default_args path) = Inr (dp_app D)" "load_policy P rf sl path = Inr example_policy"
    and "H = dp_host D" "compose_deployment D m"
  shows "resolved D (authed_client (Some diagnostics_key)) = Some ''diagnostics-agent''"
    "resolved D (authed_client (Some readonly_key)) = Some ''readonly-agent''"
    "resolved D (authed_client None) = None"
    "resolved D (authed_client (Some ''not-a-configured-key'')) = None"
  using compose_resolver [OF assms(1,2)] assms(3,4) keys_utf8
  unfolding resolved_def authed_values
  by (simp_all only: resolve_bearer list.distinct(2) not_False_eq_True)
    (auto simp: resolve_def compose_deployment_def)

text \<open>The policy's side of the demo's calls.\<close>

lemma example_rules:
  "resolve_tool_policy example_policy ''diagnostics-agent'' ''database.query_stats'' = Some query_stats_policy"
  "resolve_tool_policy example_policy ''diagnostics-agent'' ''database.execute_write'' = None"
  "resolve_tool_policy example_policy ''readonly-agent'' ''benchmark.noop'' = Some plain_allow"
  "filter (is_tool_allowed example_policy ''diagnostics-agent'') registered_tools =
     [''database.query_stats'', ''benchmark.noop'', ''benchmark.fixed_latency'']"
  "filter (is_tool_allowed example_policy ''readonly-agent'') registered_tools = [''benchmark.noop'']"
  by code_simp+

lemma example_arguments:
  "evaluate_argument_policy fm query_stats_policy query_arguments = None"
  "evaluate_argument_policy fm query_stats_policy [(''database'', PStr ''not-a-real-db''), (''limit'', PInt 10)] =
     Some (py_repr ''database'' @ '' is not one of the allowed values'')"
  "evaluate_argument_policy fm plain_allow [] = None"
  by code_simp+

text \<open>The verdicts on the five calls, and what the upstream does for the two that reach it.\<close>

lemma demo_decides:
  assumes "compose_deployment D m" "bc_policy (ga_bridge (dp_app D)) = example_policy"
  shows "decide D ''diagnostics-agent'' ''database.query_stats'' query_arguments u = Inr (VForwarded (Inr (query_reply D)))"
    "decide D ''diagnostics-agent'' ''database.query_stats'' [(''database'', PStr ''staging''), (''limit'', PStr ''ten'')] u =
      Inr (VSchema m)"
    "decide D ''diagnostics-agent'' ''database.query_stats'' [(''database'', PStr ''not-a-real-db''), (''limit'', PInt 10)] u =
      Inr (VConstraint (py_repr ''database'' @ '' is not one of the allowed values''))"
    "decide D ''diagnostics-agent'' ''database.execute_write'' arguments u = Inr VDenied"
    "decide D ''readonly-agent'' ''benchmark.noop'' [] u = Inr (VForwarded (Inr (noop_reply D)))"
    "snd (upstream_call (dp_sdk D) ''database.query_stats'' query_arguments u) = snd (query_stats ''staging'' 10 False u)"
    "snd (upstream_call (dp_sdk D) ''benchmark.noop'' [] u) = snd (noop u)"
proof -
  have found: "\<exists>t. find (\<lambda>t. tl_name t = n) (dp_tools D) = Some t" if "n \<in> set registered_tools" for n
  proof -
    have "n \<in> tl_name ` set (dp_tools D)" using that assms(1) by (metis compose_deployment_def set_map)
    then show ?thesis by (cases "find (\<lambda>t. tl_name t = n) (dp_tools D)") (auto simp: find_None_iff)
  qed
  obtain tq tn where t: "find (\<lambda>t. tl_name t = ''database.query_stats'') (dp_tools D) = Some tq"
    "find (\<lambda>t. tl_name t = ''benchmark.noop'') (dp_tools D) = Some tn"
    using found [of "''database.query_stats''"] found [of "''benchmark.noop''"] by (auto simp: registered_tools_def)
  have q: "upstream_call (dp_sdk D) ''database.query_stats'' query_arguments u =
      (Inr (query_reply D), snd (query_stats ''staging'' 10 False u))" for u
    using assms(1)
    by (simp add: compose_deployment_def upstream_call_def invoke_tool_def query_reply_def query_arguments_def
        query_stats_def dict_get_or_def case_prod_beta)
  have n: "upstream_call (dp_sdk D) ''benchmark.noop'' [] u = (Inr (noop_reply D), snd (noop u))" for u
    using assms(1)
    by (simp add: compose_deployment_def upstream_call_def invoke_tool_def noop_reply_def noop_def case_prod_beta)
  note says = assms(1) [unfolded compose_deployment_def schema_says_def t option.case]
  show "decide D ''diagnostics-agent'' ''database.query_stats'' query_arguments u = Inr (VForwarded (Inr (query_reply D)))"
    "decide D ''diagnostics-agent'' ''database.query_stats'' [(''database'', PStr ''staging''), (''limit'', PStr ''ten'')] u =
      Inr (VSchema m)"
    "decide D ''diagnostics-agent'' ''database.query_stats'' [(''database'', PStr ''not-a-real-db''), (''limit'', PInt 10)] u =
      Inr (VConstraint (py_repr ''database'' @ '' is not one of the allowed values''))"
    "decide D ''readonly-agent'' ''benchmark.noop'' [] u = Inr (VForwarded (Inr (noop_reply D)))"
    using says by (simp_all add: decide_def assms(2) example_rules example_arguments t q n)
  show "decide D ''diagnostics-agent'' ''database.execute_write'' arguments u = Inr VDenied"
    by (simp add: decide_def assms(2) example_rules)
  show "snd (upstream_call (dp_sdk D) ''database.query_stats'' query_arguments u) = snd (query_stats ''staging'' 10 False u)"
    "snd (upstream_call (dp_sdk D) ''benchmark.noop'' [] u) = snd (noop u)"
    by (simp_all add: q n)
qed

lemma gateway_client_simps [simp]:
  "mc_enter (gateway_client D K) headers = client_request D headers (\<lambda>_ s. (Inr (), s))"
  "mc_leave (gateway_client D K) headers r w = (r, w)"
  "mc_list_tools (gateway_client D K) headers = client_request D headers (handle_list_tools (ga_bridge (dp_app D)))"
  "mc_call_tool (gateway_client D K) headers name arguments = client_request D headers
    (\<lambda>E. handle_call_tool (ga_bridge (dp_app D)) E \<lparr>cp_name = name, cp_arguments = Some arguments\<rparr>)"
  "shown (gateway_client D K) = shown K"
  by (simp_all add: gateway_client_def shown_def block_text_def fun_eq_iff split: content.split)

lemma steady_show:
  assumes "0 < budget prin" "bc_timeout (ga_bridge (dp_app D)) = None"
    and "\<forall>n k. ce_write (dp_env D n) k = Written" "resolved D headers = Some prin"
    and "decide D prin name arguments u = Inr v" "verdict_result name v = Inr res"
  shows "says (steady D budget fwd u)
    (show_call (gateway_client D K) label (sc_do (mc_call_tool (gateway_client D K) headers name arguments)))
    (show_line label # shown K res)
    (steady D (budget(prin := budget prin - 1)) (fwd @ (if forwarded_verdict v then [(name, arguments)] else []))
      (if forwarded_verdict v then snd (upstream_call (dp_sdk D) name arguments u) else u))"
proof (rule saysI)
  fix w out assume w: "steady D budget fwd u w"
  let ?f = "client_request D headers
    (\<lambda>E. handle_call_tool (ga_bridge (dp_app D)) E \<lparr>cp_name = name, cp_arguments = Some arguments\<rparr>)"
  obtain r w' where f: "?f w = (r, w')" by (metis prod.exhaust)
  have "\<forall>m. v \<noteq> VForwarded (Inl (BaseExc m))" "\<forall>n. ce_write (dp_env D (wd_requests w)) n = Written"
    using assms(3,6) by auto
  from steady_call [OF w assms(1,2) this(2) assms(4,5) this(1) f]
  have r: "r = Inr (finalize (ce_correlation_id (dp_env D (wd_requests w))) res)"
    and w': "steady D (budget(prin := budget prin - 1)) (fwd @ (if forwarded_verdict v then [(name, arguments)] else []))
      (if forwarded_verdict v then snd (upstream_call (dp_sdk D) name arguments u) else u) w'"
    by (simp_all add: assms(6))
  show "\<exists>w'. show_call (gateway_client D K) label (sc_do (mc_call_tool (gateway_client D K) headers name arguments)) (w, out) =
      (Inr (), (w', out @ show_line label # shown K res)) \<and>
    steady D (budget(prin := budget prin - 1)) (fwd @ (if forwarded_verdict v then [(name, arguments)] else []))
      (if forwarded_verdict v then snd (upstream_call (dp_sdk D) name arguments u) else u) w'"
    using show_call_returns [of ?f w _ "gateway_client D K" label out] w' unfolding gateway_client_simps
    by (intro exI [of _ w']) (simp add: f r del: if_split_asm split del: if_split)
qed

lemma steady_show_rejected:
  assumes "0 < budget prin" "bc_timeout (ga_bridge (dp_app D)) = None"
    and "\<forall>n k. ce_write (dp_env D n) k = Written" "resolved D headers = Some prin"
    and "decide D prin name arguments u = Inr v" "verdict_result name v = Inr res" "\<not> forwarded_verdict v"
    and "budget' = budget(prin := budget prin - 1)"
  shows "says (steady D budget fwd u)
    (show_call (gateway_client D K) label (sc_do (mc_call_tool (gateway_client D K) headers name arguments)))
    (show_line label # shown K res) (steady D budget' fwd u)"
  using steady_show [where budget = budget and prin = prin and fwd = fwd and K = K and label = label, OF assms(1-6)] assms(7,8)
  by simp

lemma steady_show_forwarded:
  assumes "0 < budget prin" "bc_timeout (ga_bridge (dp_app D)) = None"
    and "\<forall>n k. ce_write (dp_env D n) k = Written" "resolved D headers = Some prin"
    and "decide D prin name arguments u = Inr (VForwarded (Inr res))"
    and "budget' = budget(prin := budget prin - 1)" "u' = snd (upstream_call (dp_sdk D) name arguments u)"
  shows "says (steady D budget fwd u)
    (show_call (gateway_client D K) label (sc_do (mc_call_tool (gateway_client D K) headers name arguments)))
    (show_line label # shown K res) (steady D budget' (fwd @ [(name, arguments)]) u')"
  using steady_show [where budget = budget and prin = prin and fwd = fwd and K = K and label = label,
      OF assms(1-5)] assms(6,7)
  by (simp add: forwarded_verdict_def)

text \<open>A part of the script inside \<open>async with\<close>: listing, then calls.\<close>

definition nearly_steady ::
  "deployment \<Rightarrow> (string \<Rightarrow> nat) \<Rightarrow> (string \<times> args) list \<Rightarrow> upstream_state \<Rightarrow> world \<Rightarrow> bool" where
  "nearly_steady D budget fwd u w =
     (steady D budget fwd u (with_tools D w) \<and> gw_cache (fst (wd_gateway w)) \<in> {None, Some (dp_tools D)})"

lemma steady_nearly: "steady D budget fwd u w \<Longrightarrow> nearly_steady D budget fwd u w"
  by (auto simp: nearly_steady_def steady_with_tools) (auto simp: steady_def split: prod.splits)

lemma steady_part:
  assumes "resolved D headers = Some prin"
    and "says (steady D budget fwd u)
      (sc_all (ms (filter (\<lambda>t. is_tool_allowed (bc_policy (ga_bridge (dp_app D))) prin (tl_name t)) (dp_tools D)))) ls Q"
  shows "says (nearly_steady D budget fwd u)
    (with_client (gateway_client D K) headers
      (sc_bind (sc_do (mc_list_tools (gateway_client D K) headers)) (\<lambda>tools. sc_all (ms tools)))) ls Q"
proof (rule saysI)
  fix w out assume w: "nearly_steady D budget fwd u w"
  obtain r0 w0 where e: "client_request D headers (\<lambda>_ s. (Inr (), s)) w = (r0, w0)" by (metis prod.exhaust)
  then have w0: "r0 = Inr ()" "wd_gateway w0 = wd_gateway w" "wd_upstream w0 = wd_upstream w"
    using steady_enter [OF assms(1)] by blast+
  obtain r1 w1 where l: "client_request D headers (handle_list_tools (ga_bridge (dp_app D))) w0 = (r1, w1)"
    by (metis prod.exhaust)
  have "steady D budget fwd u (with_tools D w0)"
    using w by (simp add: nearly_steady_def steady_def with_tools_def w0 split: prod.splits)
  from steady_list [OF this _ assms(1) l] w
  have "r1 = Inr (filter (\<lambda>t. is_tool_allowed (bc_policy (ga_bridge (dp_app D))) prin (tl_name t)) (dp_tools D))"
    "steady D budget fwd u w1" by (simp_all add: w0 nearly_steady_def)
  with saysD [OF assms(2), of w1 out]
  show "\<exists>w'. with_client (gateway_client D K) headers
      (sc_bind (sc_do (mc_list_tools (gateway_client D K) headers)) (\<lambda>tools. sc_all (ms tools))) (w, out) =
    (Inr (), (w', out @ ls)) \<and> Q w'"
    by (auto simp: with_client_def e l w0)
qed

lemma visible_tools:
  assumes "map tl_name (dp_tools D) = registered_tools" "bc_policy (ga_bridge (dp_app D)) = example_policy"
  shows "map tl_name (filter (\<lambda>t. is_tool_allowed (bc_policy (ga_bridge (dp_app D))) prin (tl_name t)) (dp_tools D)) =
    filter (is_tool_allowed example_policy prin) registered_tools"
  using filter_map [of "is_tool_allowed example_policy prin" tl_name "dp_tools D"] assms
  by (simp add: comp_def)

definition diagnostics_output :: "world mcp_client \<Rightarrow> deployment \<Rightarrow> string \<Rightarrow> string list" where
  "diagnostics_output K D m =
     (''tools visible to diagnostics-agent: '' @
        py_list_repr [''database.query_stats'', ''benchmark.noop'', ''benchmark.fixed_latency'']) #
     show_line ''permitted call succeeds'' # shown K (query_reply D) @
     show_line ''schema-invalid: limit as a string'' #
       shown K (schema_invalid_result ''database.query_stats'' m) @
     show_line ''policy-invalid: database not in the allowed set'' #
       shown K (policy_invalid_result ''database.query_stats'' (py_repr ''database'' @ '' is not one of the allowed values'')) @
     show_line ''hidden tool, denied identically to an unknown one'' #
       shown K (denied_result ''database.execute_write'')"

lemma diagnostics_runs:
  assumes "compose_deployment D m" "bc_policy (ga_bridge (dp_app D)) = example_policy"
    and "bc_timeout (ga_bridge (dp_app D)) = None"
    and "resolved D (authed_client (Some diagnostics_key)) = Some ''diagnostics-agent''"
    and "4 \<le> budget ''diagnostics-agent''"
  shows "says (nearly_steady D budget [] u) (diagnostics_part (gateway_client D K)) (diagnostics_output K D m)
    (steady D (budget(''diagnostics-agent'' := budget ''diagnostics-agent'' - 4))
      [(''database.query_stats'', query_arguments)] (snd (query_stats ''staging'' 10 False u)))"
proof -
  let ?p = "''diagnostics-agent''" and ?q = "''database.query_stats''" and ?K = "gateway_client D K"
    and ?h = "authed_client (Some diagnostics_key)" and ?u = "snd (query_stats ''staging'' 10 False u)"
  let ?b = "\<lambda>n. budget(?p := budget ?p - n)" and ?f = "[(?q, query_arguments)]"
  note decides = demo_decides [OF assms(1,2)]
  have io: "\<forall>n k. ce_write (dp_env D n) k = Written" "map tl_name (dp_tools D) = registered_tools"
    using assms(1) by (simp_all add: compose_deployment_def)
  have call1: "says (steady D budget [] u)
      (show_call ?K ''permitted call succeeds'' (sc_do (mc_call_tool ?K ?h ?q query_arguments)))
      (show_line ''permitted call succeeds'' # shown K (query_reply D)) (steady D (?b 1) ?f ?u)"
    using steady_show_forwarded [where budget = budget and prin = ?p and fwd = "[]" and K = K,
        OF _ assms(3) io(1) assms(4) decides(1) refl refl] assms(5)
    by (simp add: decides(6))
  have step: "(?b n)(?p := ?b n ?p - 1) = ?b (Suc n)" for n by auto
  have rejected: "says (steady D (?b n) ?f ?u)
      (show_call ?K label (sc_do (mc_call_tool ?K ?h name arguments)))
      (show_line label # shown K res) (steady D (?b n') ?f ?u)"
    if "n < 4" "n' = Suc n" "decide D ?p name arguments ?u = Inr v" "verdict_result name v = Inr res" "\<not> forwarded_verdict v"
    for n n' label name arguments v res
    by (rule steady_show_rejected [where budget = "?b n" and prin = ?p, OF _ assms(3) io(1) assms(4) that(3-5)])
      (use that(1,2) assms(5) step in auto)
  have call2: "says (steady D (?b 1) ?f ?u)
      (show_call ?K ''schema-invalid: limit as a string''
        (sc_do (mc_call_tool ?K ?h ?q [(''database'', PStr ''staging''), (''limit'', PStr ''ten'')])))
      (show_line ''schema-invalid: limit as a string'' # shown K (schema_invalid_result ?q m)) (steady D (?b 2) ?f ?u)"
    by (rule rejected [OF _ _ decides(2)]) (simp_all add: forwarded_verdict_def)
  have call3: "says (steady D (?b 2) ?f ?u)
      (show_call ?K ''policy-invalid: database not in the allowed set''
        (sc_do (mc_call_tool ?K ?h ?q [(''database'', PStr ''not-a-real-db''), (''limit'', PInt 10)])))
      (show_line ''policy-invalid: database not in the allowed set'' #
        shown K (policy_invalid_result ?q (py_repr ''database'' @ '' is not one of the allowed values'')))
      (steady D (?b 3) ?f ?u)"
    by (rule rejected [OF _ _ decides(3)]) (simp_all add: forwarded_verdict_def)
  have call4: "says (steady D (?b 3) ?f ?u)
      (show_call ?K ''hidden tool, denied identically to an unknown one''
        (sc_do (mc_call_tool ?K ?h ''database.execute_write''
           [(''database'', PStr ''staging''), (''statement'', PStr ''DELETE FROM x'')])))
      (show_line ''hidden tool, denied identically to an unknown one'' # shown K (denied_result ''database.execute_write''))
      (steady D (?b 4) ?f ?u)"
    by (rule rejected [OF _ _ decides(4)]) (simp_all add: forwarded_verdict_def)
  note body = says_seq [OF says_print says_seq [OF call1 says_seq [OF call2 says_seq [OF call3
    says_seq [OF call4 says_done]]]], THEN says_lines]
  show ?thesis
    unfolding diagnostics_part_def Let_def query_arguments_def [symmetric]
    by (intro steady_part [OF assms(4)], unfold visible_tools [OF io(2) assms(2)] example_rules, rule body)
      (simp add: diagnostics_output_def)
qed

definition readonly_output :: "world mcp_client \<Rightarrow> deployment \<Rightarrow> string list" where
  "readonly_output K D =
     (''tools visible to readonly-agent: '' @ py_list_repr [''benchmark.noop'']) #
     show_line ''readonly-agent may call benchmark.noop'' # shown K (noop_reply D)"

lemma readonly_runs:
  assumes "compose_deployment D m" "bc_policy (ga_bridge (dp_app D)) = example_policy"
    and "bc_timeout (ga_bridge (dp_app D)) = None"
    and "resolved D (authed_client (Some readonly_key)) = Some ''readonly-agent''"
    and "0 < budget ''readonly-agent''"
  shows "says (nearly_steady D budget f u) (readonly_part (gateway_client D K)) (readonly_output K D)
    (steady D (budget(''readonly-agent'' := budget ''readonly-agent'' - 1)) (f @ [(''benchmark.noop'', [])]) (snd (noop u)))"
proof -
  note decides = demo_decides [OF assms(1,2)]
  have io: "\<forall>n k. ce_write (dp_env D n) k = Written" "map tl_name (dp_tools D) = registered_tools"
    using assms(1) by (simp_all add: compose_deployment_def)
  note call = steady_show_forwarded [where budget = budget and prin = "''readonly-agent''" and fwd = f and K = K,
    OF assms(5,3) io(1) assms(4) decides(5) refl decides(7) [symmetric]]
  note body = says_seq [OF says_print says_seq [OF call says_done], THEN says_lines]
  show ?thesis
    unfolding readonly_part_def Let_def
    by (intro steady_part [OF assms(4)], unfold visible_tools [OF io(2) assms(2)] example_rules, rule body)
      (simp add: readonly_output_def)
qed

lemma credentials_run:
  assumes "resolved D (authed_client key) = None" "is_exception (dp_refused D)"
  shows "says (steady D budget f u) (credential_part (gateway_client D K) what key)
    [what @ '' credentials: rejected, as expected''] (steady D budget f u)"
proof (rule saysI)
  fix w out assume w: "steady D budget f u w"
  obtain r w' where c: "client_request D (authed_client key) (\<lambda>_ s. (Inr (), s)) w = (r, w')"
    by (metis prod.exhaust)
  then have "r = Inl (dp_refused D)" "steady D budget f u w'"
    using assms(1) w by (auto simp: client_request_def http_request_def middleware_call_def resolved_def steady_def
        upstream_after_def split: prod.splits)
  then show "\<exists>w'. credential_part (gateway_client D K) what key (w, out) =
      (Inr (), (w', out @ [what @ '' credentials: rejected, as expected''])) \<and> steady D budget f u w'"
    using assms(2) by (simp add: credential_part_def Let_def sc_try_def with_client_def c)
qed

definition first_world :: "gateway_app \<Rightarrow> world" where
  "first_world A = \<lparr>wd_gateway = ga_state A, wd_upstream = initial_upstream, wd_requests = 0\<rparr>"

lemma started_bridge:
  assumes "main_app H P rf sl js fm (default_args path) = Inr (dp_app D)" "load_policy P rf sl path = Inr example_policy"
  shows "bc_policy (ga_bridge (dp_app D)) = example_policy" "bc_timeout (ga_bridge (dp_app D)) = None"
    "nearly_steady D (\<lambda>_. 20) [] initial_upstream (first_world (dp_app D))"
proof -
  obtain cl where A: "make_concurrency_limiter default_max_concurrent_per_principal = Inr cl"
    "ga_bridge (dp_app D) = \<lparr>bc_policy = example_policy, bc_timeout = None, bc_js = js, bc_fullmatch = fm\<rparr>"
    "ga_state (dp_app D) =
      (\<lparr>gw_rate = make_rate_limiter default_rate_limit_capacity default_rate_limit_refill_per_second, gw_cache = None,
        gw_audit = make_logger default_redaction_mode, gw_forwarded = [], gw_fetches = 0\<rparr>, cl)"
    using main_app_Inr [OF assms(1)] assms(2) by (auto simp: default_args_def)
  show "bc_policy (ga_bridge (dp_app D)) = example_policy" "bc_timeout (ga_bridge (dp_app D)) = None"
    by (simp_all add: A(2))
  have "known_mode default_redaction_mode" by code_simp
  moreover have "tokens_left p 20 (make_rate_limiter default_rate_limit_capacity default_rate_limit_refill_per_second)" for p
    by (simp add: tokens_left_def make_rate_limiter_def default_rate_limit_capacity_def
        default_rate_limit_refill_per_second_def rnd64_small_int)
  moreover have "active_count cl p = 0" "0 < cl_max_concurrent cl" for p
    using A(1) by (auto simp: make_concurrency_limiter_def active_count_def dict_get_or_def
        default_max_concurrent_per_principal_def)
  ultimately show "nearly_steady D (\<lambda>_. 20) [] initial_upstream (first_world (dp_app D))"
    using limiter_inv_init [OF A(1)]
    by (simp add: nearly_steady_def steady_def with_tools_def first_world_def A(3) make_logger_def)
qed

text \<open>
  C12: The demo shows what it announces. On the gateway that compose.yaml starts with the bundled policy,
  whatever its clocks show, demo.py ends normally and prints exactly this: each agent sees its own
  tools, the permitted calls return the upstream's results, the schema-invalid and the
  policy-invalid call are rejected with their reasons, the hidden tool is denied as unknown, and the
  missing and the unknown key are rejected. Only the two permitted calls reach the upstream, which
  counts one \<open>query_stats\<close>, one \<open>noop\<close> and no \<open>execute_write\<close>.
\<close>

theorem demo_shows_what_it_announces:
  assumes "gateway_main (dp_host D) P rf sl js fm compose_gateway_command = Inr L" "dp_app D = la_app L"
    and "load_policy P rf sl compose_policy_path = Inr example_policy"
    and "compose_deployment D m" "parse_args demo_options argv = Inr ns"
  shows "\<exists>w. demo_main (gateway_client D K) argv (first_world (dp_app D), []) =
      (Inr (), (w, demo_output K D (mcp_url ns) m)) \<and>
    gw_forwarded (fst (wd_gateway w)) = [(''database.query_stats'', query_arguments), (''benchmark.noop'', [])] \<and>
    wd_upstream w =
      (\<lparr>ic_query_stats = 1, ic_execute_write = 0, ic_noop = 1, ic_fixed_latency = 0\<rparr>, \<lparr>ct_current = 0, ct_peak = 0\<rparr>)"
proof -
  let ?d = "''diagnostics-agent''" and ?r = "''readonly-agent''" and ?b = "\<lambda>_::string. 20::nat"
    and ?f = "[(''database.query_stats'', query_arguments)]" and ?u = "snd (query_stats ''staging'' 10 False initial_upstream)"
  have app: "main_app (dp_host D) P rf sl js fm (default_args compose_policy_path) = Inr (dp_app D)"
    using compose_main [OF assms(1)] assms(2) by simp
  note who = compose_who [OF app assms(3) refl assms(4)] and bridge = started_bridge [OF app assms(3)]
  have refused: "is_exception (dp_refused D)" using assms(4) by (simp add: compose_deployment_def)
  have part1: "says (nearly_steady D ?b [] initial_upstream) (diagnostics_part (gateway_client D K))
      (diagnostics_output K D m) (nearly_steady D (?b(?d := 16)) ?f ?u)"
    using diagnostics_runs [OF assms(4) bridge(1,2) who(1), of ?b initial_upstream K] steady_nearly
    by (fastforce simp: says_def)
  have part2: "says (nearly_steady D (?b(?d := 16)) ?f ?u) (readonly_part (gateway_client D K)) (readonly_output K D)
      (steady D (?b(?d := 16, ?r := 19)) (?f @ [(''benchmark.noop'', [])]) (snd (noop ?u)))"
    using readonly_runs [OF assms(4) bridge(1,2) who(2), of "?b(?d := 16)" ?f ?u K] by simp
  note script = says_seq [OF says_print says_seq [OF says_print says_seq [OF part1 says_seq [OF says_print
    says_seq [OF part2 says_seq [OF says_print says_seq [OF credentials_run [OF who(3) refused]
    says_seq [OF credentials_run [OF who(4) refused] says_done]]]]]]]]
  have "says (nearly_steady D ?b [] initial_upstream) (demo_main (gateway_client D K) argv)
      (demo_output K D (mcp_url ns) m)
      (steady D (?b(?d := 16, ?r := 19)) (?f @ [(''benchmark.noop'', [])]) (snd (noop ?u)))"
    unfolding demo_main_def assms(5) sum.case demo_script_def
    by (rule script [THEN says_lines])
      (simp add: demo_output_def diagnostics_output_def readonly_output_def denied_result_def
        schema_invalid_result_def policy_invalid_result_def)
  from saysD [OF this bridge(3), of "[]"]
  obtain w where "demo_main (gateway_client D K) argv (first_world (dp_app D), []) =
      (Inr (), (w, demo_output K D (mcp_url ns) m))"
    "steady D (?b(?d := 16, ?r := 19)) (?f @ [(''benchmark.noop'', [])]) (snd (noop ?u)) w"
    by auto
  then show ?thesis
    by (auto simp: steady_def noop_def query_stats_def initial_upstream_def)
qed

text \<open>A deployment of that kind: SHA-256 replaced by the identity, one schema for all tools.\<close>

definition plain_client :: "'w mcp_client" where
  "plain_client =
     \<lparr>mc_enter = (\<lambda>_ w. (Inr (), w)), mc_leave = (\<lambda>_ r w. (r, w)), mc_list_tools = (\<lambda>_ w. (Inr [], w)),
      mc_call_tool = (\<lambda>_ _ _ w. (Inl Cancelled, w)), mc_is_mcp_error = (\<lambda>_. False), mc_show = (\<lambda>_. []),
      mc_show_content = (\<lambda>_. []), mc_show_schema = (\<lambda>_. []), mc_protocol_version = (\<lambda>_. []),
      mc_server_info = (\<lambda>_. [])\<rparr>"

definition integer_limit :: "pyval \<Rightarrow> pyval \<Rightarrow> js_outcome" where
  "integer_limit v schema = (case v of
     PDict kvs \<Rightarrow> (case dict_get kvs ''limit'' of
       Some (PStr s) \<Rightarrow> JsValidationError (py_repr s @ '' is not an integer'') | _ \<Rightarrow> JsValid)
   | _ \<Rightarrow> JsValid)"

definition compose_host :: host_env where
  "compose_host = \<lparr>he_getenv = compose_environment, he_sha256 = id\<rparr>"

definition compose_app :: gateway_app where
  "compose_app =
     \<lparr>ga_resolver = [(diagnostics_key, ''diagnostics-agent''), (readonly_key, ''readonly-agent'')],
      ga_bridge = \<lparr>bc_policy = example_policy, bc_timeout = None, bc_js = integer_limit, bc_fullmatch = (\<lambda>_ _. True)\<rparr>,
      ga_state =
        (\<lparr>gw_rate = make_rate_limiter default_rate_limit_capacity default_rate_limit_refill_per_second,
          gw_cache = None, gw_audit = make_logger default_redaction_mode, gw_forwarded = [], gw_fetches = 0\<rparr>,
         \<lparr>cl_max_concurrent = default_max_concurrent_per_principal, cl_active = [], cl_peak = []\<rparr>)\<rparr>"

definition compose_demo :: deployment where
  "compose_demo =
     \<lparr>dp_host = compose_host, dp_app = compose_app,
      dp_sdk = \<lparr>us_arguments = (\<lambda>_ kw. Some kw), us_invalid = (\<lambda>_ _. Inl (Exc ''ToolError'' '''')),
                us_result = (\<lambda>v. \<lparr>cr_content = [OtherContent v], cr_is_error = False, cr_meta = None, cr_rest = []\<rparr>)\<rparr>,
      dp_tools = map (\<lambda>n. \<lparr>tl_name = n, tl_input_schema = Some (PDict []), tl_rest = []\<rparr>) registered_tools,
      dp_env = (\<lambda>_. demo_call_env\<lparr>ce_rate_now := NaN\<rparr>), dp_invalid_request = - 32600,
      dp_refused = Exc ''HTTPStatusError'' '''', dp_error = id\<rparr>"

lemma compose_demo_starts:
  "\<exists>L. gateway_main (dp_host compose_demo) (plain_pydantic (\<lambda>_. ReOk)) (\<lambda>_. ReadOk []) (\<lambda>_. YamlOk example_document)
     integer_limit (\<lambda>_ _. True) compose_gateway_command = Inr L \<and> dp_app compose_demo = la_app L"
proof -
  have "make_resolver id compose_environment (map (\<lambda>(name, p). (name, pp_api_key_env p)) (pc_principals example_policy)) =
      Inr [(diagnostics_key, ''diagnostics-agent''), (readonly_key, ''readonly-agent'')]" by code_simp
  moreover have "0 < default_max_concurrent_per_principal" by (simp add: default_max_concurrent_per_principal_def)
  ultimately have "main_app (dp_host compose_demo) (plain_pydantic (\<lambda>_. ReOk)) (\<lambda>_. ReadOk []) (\<lambda>_. YamlOk example_document)
      integer_limit (\<lambda>_ _. True) (default_args compose_policy_path) = Inr (dp_app compose_demo)"
    by (simp add: main_app_def default_args_def example_policy_loads build_gateway_app_def build_gateway_server_def
        compose_demo_def compose_host_def compose_app_def make_concurrency_limiter_def Let_def)
  then show ?thesis
    using compose_args by (cases "parse_args gateway_options compose_gateway_command") (simp_all add: gateway_main_def)
qed

lemma compose_demo_conforms: "compose_deployment compose_demo (py_repr ''ten'' @ '' is not an integer'')"
proof -
  have "distinct [diagnostics_key, readonly_key, ''not-a-configured-key'']" by code_simp
  moreover have "schema_says compose_demo ''database.query_stats'' query_arguments = Inr None"
    "schema_says compose_demo ''database.query_stats'' [(''database'', PStr ''staging''), (''limit'', PStr ''ten'')] =
      Inr (Some (py_repr ''ten'' @ '' is not an integer''))"
    "schema_says compose_demo ''database.query_stats'' [(''database'', PStr ''not-a-real-db''), (''limit'', PInt 10)] = Inr None"
    "schema_says compose_demo ''benchmark.noop'' [] = Inr None"
    by code_simp+
  ultimately show ?thesis
    by (simp add: compose_deployment_def) (simp add: compose_demo_def compose_host_def comp_def registered_tools_def)
qed

theorem demo_shows_what_it_announces_witness:
  "\<exists>w. demo_main (gateway_client compose_demo plain_client) [] (first_world compose_app, []) =
      (Inr (), (w, demo_output plain_client compose_demo
        (''http://'' @ ''localhost'' @ '':'' @ int_str 8080 @ ''/mcp'') (py_repr ''ten'' @ '' is not an integer''))) \<and>
    gw_forwarded (fst (wd_gateway w)) = [(''database.query_stats'', query_arguments), (''benchmark.noop'', [])]"
proof -
  obtain L where L: "gateway_main (dp_host compose_demo) (plain_pydantic (\<lambda>_. ReOk)) (\<lambda>_. ReadOk []) (\<lambda>_. YamlOk example_document)
      integer_limit (\<lambda>_ _. True) compose_gateway_command = Inr L" "dp_app compose_demo = la_app L"
    using compose_demo_starts by blast
  obtain ns where ns: "parse_args demo_options [] = Inr ns" "mcp_url ns = ''http://'' @ ''localhost'' @ '':'' @ int_str 8080 @ ''/mcp''"
    using compose_ports(3) by (cases "parse_args demo_options []") auto
  have app: "dp_app compose_demo = compose_app" by (simp add: compose_demo_def)
  from demo_shows_what_it_announces [OF L example_policy_loads compose_demo_conforms ns(1), of plain_client]
  show ?thesis unfolding app ns(2) by blast
qed


subsection \<open>The direct client\<close>

text \<open>
  \<open>direct_script\<close> against the upstream alone: what it prints, and the counters it leaves.
\<close>

definition direct_client :: "upstream_sdk \<Rightarrow> tool list \<Rightarrow> upstream_state mcp_client \<Rightarrow> upstream_state mcp_client" where
  "direct_client S tools K = K
     \<lparr>mc_enter := (\<lambda>_ u. (Inr (), u)), mc_leave := (\<lambda>_ r u. (r, u)), mc_list_tools := (\<lambda>_ u. (Inr tools, u)),
      mc_call_tool := (\<lambda>_ name arguments u. upstream_call S name arguments u)\<rparr>"

lemma direct_client_round_trip:
  assumes "us_arguments S ''database.query_stats'' query_arguments = Some query_arguments"
    and "us_arguments S ''benchmark.noop'' [] = Some []"
  shows "direct_script (direct_client S tools K) (u, out) =
    (Inr (), (snd (query_stats ''staging'' 10 False (snd (noop u))), out @
       [''negotiated protocol version: '' @ mc_protocol_version K u, ''server info: '' @ mc_server_info K u,
        ''discovered '' @ int_str (int (length tools)) @ '' tools:''] @
       map (\<lambda>t. ''  - '' @ tl_name t @ '': '' @ mc_show_schema K (tl_input_schema t)) tools @
       [''benchmark.noop -> '' @ mc_show_content K (cr_content (us_result S (PDict [(''ok'', PBool True)]))),
        ''database.query_stats -> '' @ mc_show_content K (cr_content (us_result S (fst (query_stats ''staging'' 10 False u))))]))"
proof -
  have "upstream_call S ''database.query_stats'' query_arguments v =
      (Inr (us_result S (fst (query_stats ''staging'' 10 False u))), snd (query_stats ''staging'' 10 False v))" for v
    using assms(1)
    by (simp add: upstream_call_def invoke_tool_def query_arguments_def query_stats_def dict_get_or_def case_prod_beta)
  moreover have "upstream_call S ''benchmark.noop'' [] v = (Inr (us_result S (PDict [(''ok'', PBool True)])), snd (noop v))" for v
    using assms(2) by (simp add: upstream_call_def invoke_tool_def noop_def case_prod_beta)
  ultimately show ?thesis
    by (simp add: direct_script_def with_client_def direct_client_def query_arguments_def [symmetric] sc_all_prints)
qed

end
