(* ===== verification/BenchmarkRun.thy ===== *)
theory BenchmarkRun
  imports AuditReport LoopBudget DemoScript
begin

text \<open>
  The benchmark's set-up: benchmarks/run.py from \<open>_run_configuration_matrix\<close> on, up to the report
  (BenchmarkReport). The configuration matrix runs trial after trial over the direct and over the gateway
  path, then the denied requests. What a request does and what the clocks show comes from outside
  (\<open>trial_run\<close>). The gateway that is measured is built by the code of server.py, with the benchmark's own
  policy and limits, and \<open>benchmark_trials\<close> runs the trials against it, one event loop run each.
\<close>

subsection \<open>Configuration\<close>

definition noop_requests_per_client :: nat where
  "noop_requests_per_client = 20"

definition fixed_latency_requests_per_client :: nat where
  "fixed_latency_requests_per_client = 5"

text \<open>0.01, the nearest float.\<close>

definition fixed_latency_duration_seconds :: pyfloat where
  "fixed_latency_duration_seconds = f_round (1 / 100)"

definition denied_request_concurrency :: int where
  "denied_request_concurrency = 10"

definition denied_request_requests_per_client :: nat where
  "denied_request_requests_per_client = 10"

definition benchmark_key_env :: string where
  "benchmark_key_env = ''SENTINELMCP_BENCHMARK_API_KEY''"

definition benchmark_key :: string where
  "benchmark_key = ''benchmark-only-not-a-real-secret''"

definition benchmark_principal :: string where
  "benchmark_principal = ''benchmark-agent''"

definition benchmark_document :: pyval where
  "benchmark_document = PDict [(''principals'', PDict
     [(benchmark_principal, PDict
        [(''api_key_env'', PStr benchmark_key_env),
         (''tools'', PDict
            [(''benchmark.noop'', PDict [(''effect'', PStr ''allow'')]),
             (''benchmark.fixed_latency'', PDict
                [(''effect'', PStr ''allow''), (''deny_unknown_arguments'', PBool False)])])])])]"

text \<open>\<open>PolicyConfig.model_validate\<close> of it, when the module is imported.\<close>

definition benchmark_policy :: policy_config where
  "benchmark_policy = \<lparr>pc_principals =
     [(benchmark_principal,
       \<lparr>pp_api_key_env = benchmark_key_env, pp_tools =
          [(''benchmark.noop'', plain_allow),
           (''benchmark.fixed_latency'', plain_allow\<lparr>tp_deny_unknown := False\<rparr>)]\<rparr>)]\<rparr>"

lemma benchmark_document_valid:
  "validate_policy_config (plain_pydantic rc) benchmark_document = VOk benchmark_policy"
  by code_simp


subsection \<open>Trials\<close>

text \<open>What a trial measures, and the outside of it: its workers and its clock.\<close>

record trial_spec =
  tr_tool :: string
  tr_args :: args
  tr_concurrency :: int
  tr_requests :: nat

record trial_run =
  tu_workers :: "nat \<Rightarrow> worker_run"
  tu_start :: pyfloat
  tu_stop :: pyfloat

definition run_spec :: "trial_spec \<Rightarrow> trial_run \<Rightarrow> trial_stats res" where
  "run_spec spec u =
     run_trial (tu_workers u) (nat (tr_concurrency spec)) (tr_requests spec) (tu_start u) (tu_stop u)"

definition trial_calls :: "trial_spec \<Rightarrow> nat" where
  "trial_calls spec = nat (tr_concurrency spec) * tr_requests spec"

definition tool_configs :: "(string \<times> args \<times> nat) list" where
  "tool_configs =
     [(''benchmark.noop'', [], noop_requests_per_client),
      (''benchmark.fixed_latency'', [(''duration_seconds'', PFloat fixed_latency_duration_seconds)],
       fixed_latency_requests_per_client)]"

definition configurations :: "trial_spec list" where
  "configurations =
     concat (map (\<lambda>(tool, arguments, n). map (\<lambda>c. \<lparr>tr_tool = tool, tr_args = arguments, tr_concurrency = c,
       tr_requests = n\<rparr>) concurrency_levels) tool_configs)"

text \<open>
  One configuration: \<open>out spec k\<close> is the outside of its \<open>k\<close>-th trial, the 0-th being the warm-up, whose
  statistics are dropped. An exception of a trial ends the matrix.
\<close>

definition run_configuration ::
  "(trial_spec \<Rightarrow> nat \<Rightarrow> trial_run) \<Rightarrow> string \<Rightarrow> trial_spec \<Rightarrow> configuration_result res" where
  "run_configuration out path_name spec =
     (case gather (map (\<lambda>k. run_spec spec (out spec k)) [0..<Suc trials_per_configuration]) of
        Inl e \<Rightarrow> Inl e
      | Inr measured \<Rightarrow>
          (let trials = tl measured in
           case median_trial_stats trials of (med, variability) \<Rightarrow>
             Inr \<lparr>cr_path = path_name, cr_tool = tr_tool spec, cr_concurrency = tr_concurrency spec,
                  cr_trials = trials, cr_median = med, cr_variability = variability\<rparr>))"

definition run_configuration_matrix ::
  "(trial_spec \<Rightarrow> nat \<Rightarrow> trial_run) \<Rightarrow> string \<Rightarrow> configuration_result list res" where
  "run_configuration_matrix out path_name = gather (map (run_configuration out path_name) configurations)"

definition denied_spec :: trial_spec where
  "denied_spec =
     \<lparr>tr_tool = ''database.execute_write'', tr_args = [(''database'', PStr ''x''), (''statement'', PStr ''x'')],
      tr_concurrency = denied_request_concurrency, tr_requests = denied_request_requests_per_client\<rparr>"

definition run_denied_request_benchmark :: "trial_run \<Rightarrow> trial_stats res" where
  "run_denied_request_benchmark u = run_spec denied_spec u"


subsection \<open>Servers\<close>

text \<open>
  \<open>_running_asgi_app\<close> after uvicorn has started the server: up to 50 probes, of which \<open>probe i\<close> is the
  \<open>i\<close>-th; an \<open>httpx2.HTTPError\<close> is waited out, and after the last one the benchmark fails loudly.
\<close>

fun probe_server :: "(exn \<Rightarrow> bool) \<Rightarrow> string \<Rightarrow> (nat \<Rightarrow> unit res) \<Rightarrow> nat \<Rightarrow> nat \<Rightarrow> unit res" where
  "probe_server http_error url probe i 0 = Inl (RuntimeError (url @ '' never became reachable''))"
| "probe_server http_error url probe i (Suc n) =
     (case probe i of
        Inr _ \<Rightarrow> Inr ()
      | Inl e \<Rightarrow> if http_error e then probe_server http_error url probe (Suc i) n else Inl e)"

definition server_url :: "int \<Rightarrow> string" where
  "server_url port = ''http://127.0.0.1:'' @ int_str port @ ''/mcp''"

definition running_asgi_app :: "(exn \<Rightarrow> bool) \<Rightarrow> int \<Rightarrow> (nat \<Rightarrow> unit res) \<Rightarrow> unit res" where
  "running_asgi_app http_error port probe = probe_server http_error (server_url port) probe 0 50"

text \<open>
  The gateway: built as \<open>main\<close> builds it, with its own policy and limits set effectively unlimited, the
  key put into the environment first.
\<close>

definition benchmark_host :: "host_env \<Rightarrow> host_env" where
  "benchmark_host H = H\<lparr>he_getenv := (he_getenv H)(benchmark_key_env := Some benchmark_key)\<rparr>"

definition benchmark_gateway ::
  "host_env \<Rightarrow> (pyval \<Rightarrow> pyval \<Rightarrow> js_outcome) \<Rightarrow> (string \<Rightarrow> string \<Rightarrow> bool) \<Rightarrow> gateway_app res" where
  "benchmark_gateway H js fullmatch =
     (let rl = make_rate_limiter (Fin 1000000) (Fin 1000000) in
      case make_concurrency_limiter 10000 of
        Inl e \<Rightarrow> Inl e
      | Inr cl \<Rightarrow>
          build_gateway_app (benchmark_host H) js fullmatch benchmark_policy (Some rl) (Some cl)
            (Some (make_logger default_redaction_mode)) default_redaction_mode None)"

text \<open>The headers that the clients of the two factories send with every request.\<close>

definition direct_headers :: "string pydict" where
  "direct_headers = []"

definition gateway_headers :: "string pydict" where
  "gateway_headers = [(''Authorization'', ''Bearer '' @ benchmark_key)]"


subsection \<open>The gateway under measurement\<close>

text \<open>The benchmark's gateway starts, whatever the environment is otherwise.\<close>

definition benchmark_app ::
  "host_env \<Rightarrow> (pyval \<Rightarrow> pyval \<Rightarrow> js_outcome) \<Rightarrow> (string \<Rightarrow> string \<Rightarrow> bool) \<Rightarrow> gateway_app" where
  "benchmark_app H js fullmatch =
     \<lparr>ga_resolver = [(he_sha256 H (utf8_encode benchmark_key), benchmark_principal)],
      ga_bridge = \<lparr>bc_policy = benchmark_policy, bc_timeout = None, bc_js = js, bc_fullmatch = fullmatch\<rparr>,
      ga_state = (\<lparr>gw_rate = make_rate_limiter (Fin 1000000) (Fin 1000000), gw_cache = None,
          gw_audit = make_logger default_redaction_mode, gw_forwarded = [], gw_fetches = 0\<rparr>,
        \<lparr>cl_max_concurrent = 10000, cl_active = [], cl_peak = []\<rparr>)\<rparr>"

lemma benchmark_gateway_starts: "benchmark_gateway H js fm = Inr (benchmark_app H js fm)"
proof -
  have "benchmark_key \<noteq> []" by (simp add: benchmark_key_def)
  then show ?thesis
    by (simp add: benchmark_gateway_def benchmark_app_def build_gateway_app_def build_gateway_server_def
        make_concurrency_limiter_def make_resolver_def benchmark_policy_def benchmark_host_def Let_def
        dict_get_def dict_set_def)
qed

definition gateway_trials :: "trial_spec list" where
  "gateway_trials = concat (map (replicate (Suc trials_per_configuration)) configurations) @ [denied_spec]"

text \<open>
  The calls of a trial, as they reach the handler: the principal is what the middleware resolves the
  header of the gateway's clients to. A client has one call under way at a time; the runs of the loop
  include those in which it does. There may be \<open>tools/list\<close> requests of anybody between the calls.
\<close>

definition calls_of_trial :: "host_env \<Rightarrow> gateway_app \<Rightarrow> trial_spec \<Rightarrow> (call_env \<times> call_params) list \<Rightarrow> bool" where
  "calls_of_trial H A spec calls =
     (length calls = trial_calls spec \<and>
      list_all (\<lambda>(E, params).
        ce_principal E = resolve (he_sha256 H) (ga_resolver A)
          (authorization_values \<lparr>sc_type = ''http'', sc_headers = gateway_headers\<rparr>) \<and>
        cp_name params = tr_tool spec \<and> call_arguments params = tr_args spec) calls)"

inductive benchmark_trials :: "host_env \<Rightarrow> gateway_app \<Rightarrow> trial_spec list \<Rightarrow> gateway_state \<Rightarrow> bool"
  for H :: host_env and A :: gateway_app where
  no_trial: "benchmark_trials H A [] (ga_state A)"
| one_trial: "benchmark_trials H A specs st \<Longrightarrow> calls_of_trial H A spec calls \<Longrightarrow>
    loop_run (ga_bridge A) ls (start_loop calls listers st) (ts, sh) \<Longrightarrow> list_all task_finished ts \<Longrightarrow>
    benchmark_trials H A (specs @ [spec]) (sh_gateway sh, sh_limiter sh)"

lemma benchmark_clients_known:
  "resolve (he_sha256 (benchmark_host H)) (ga_resolver (benchmark_app H js fm))
     (authorization_values \<lparr>sc_type = ''http'', sc_headers = gateway_headers\<rparr>) = Some benchmark_principal"
proof -
  have env: "he_getenv (benchmark_host H) benchmark_key_env = Some benchmark_key"
    "he_sha256 (benchmark_host H) = he_sha256 H"
    by (simp_all add: benchmark_host_def)
  have key: "benchmark_key \<noteq> []" by (simp add: benchmark_key_def)
  have "make_resolver (he_sha256 H) (he_getenv (benchmark_host H)) [(benchmark_principal, benchmark_key_env)] =
      Inr (ga_resolver (benchmark_app H js fm))"
    using env(1) key by (simp add: make_resolver_def benchmark_app_def dict_get_def dict_set_def)
  moreover have "authorization_values \<lparr>sc_type = ''http'', sc_headers = gateway_headers\<rparr> = [''Bearer '' @ benchmark_key]"
    by code_simp
  ultimately show ?thesis using resolve_built key env by (fastforce simp: key_digest_def)
qed

text \<open>How many calls the trials make, and that no trial makes more at once than the ceiling.\<close>

lemma gateway_trials_calls:
  "sum_list (map trial_calls gateway_trials) = 28000" "\<forall>spec\<in>set gateway_trials. trial_calls spec \<le> 2000"
  by (simp_all add: gateway_trials_def configurations_def tool_configs_def concurrency_levels_def trial_calls_def
      denied_spec_def sum_list_replicate trials_per_configuration_def noop_requests_per_client_def
      fixed_latency_requests_per_client_def denied_request_concurrency_def denied_request_requests_per_client_def)

lemma tokens_left_antimono: "tokens_left p m rl \<Longrightarrow> n \<le> m \<Longrightarrow> tokens_left p n rl"
proof -
  assume m: "tokens_left p m rl" and "n \<le> m"
  then have "(of_nat n :: rat) \<le> of_nat m" by simp
  with m show ?thesis unfolding tokens_left_def by (meson order_trans)
qed

lemma calls_by_trial: "calls_of_trial H A spec calls \<Longrightarrow> calls_by p calls \<le> trial_calls spec"
  by (simp add: calls_of_trial_def calls_by_def) (metis length_filter_le)

text \<open>Between trials no slot is taken, and there are tokens for all calls to come.\<close>

definition rested :: "nat \<Rightarrow> gateway_state \<Rightarrow> bool" where
  "rested n st =
     (limiter_inv (snd st) \<and> (\<forall>p. active_count (snd st) p = 0) \<and> cl_max_concurrent (snd st) = 10000 \<and>
      (\<forall>p. tokens_left p n (gw_rate (fst st))))"

lemma rested_trial:
  assumes "rested (trial_calls spec + n) st" "calls_of_trial H A spec calls" "trial_calls spec \<le> 2000"
    and "loop_run C ls (start_loop calls listers st) (ts, sh)"
  shows "within_budget (\<lambda>_. n) (ts, sh)"
    and "list_all task_finished ts \<Longrightarrow> rested n (sh_gateway sh, sh_limiter sh)"
proof -
  obtain g cl where st: "st = (g, cl)" by (cases st)
  note run = assms(4) [unfolded st]
  have r: "limiter_inv cl" "\<And>p. active_count cl p = 0" "cl_max_concurrent cl = 10000"
    "\<And>p. tokens_left p (trial_calls spec + n) (gw_rate g)"
    using assms(1) by (simp_all add: rested_def st)
  have few: "calls_by p calls \<le> 2000" for p using calls_by_trial [OF assms(2), of p] assms(3) by simp
  have "tokens_left p (calls_by p calls + n) (gw_rate g)" for p
    using calls_by_trial [OF assms(2), of p] by (intro tokens_left_antimono [OF r(4)]) simp
  moreover have "int (calls_by p calls) \<le> cl_max_concurrent cl" for p using few [of p] r(3) by linarith
  ultimately show b: "within_budget (\<lambda>_. n) (ts, sh)"
    by (intro within_budget_run [OF run r(1,2)])
  assume fin: "list_all task_finished ts"
  have "tokens_left p n (gw_rate (sh_gateway sh))" for p
  proof (rule tokens_left_antimono)
    show "tokens_left p (waiting p ts + n) (gw_rate (sh_gateway sh))" using b by (simp add: within_budget_def)
  qed simp
  then show "rested n (sh_gateway sh, sh_limiter sh)"
    using slots_run [OF run r(1,2)] finished_slots [OF fin] r(3) by (simp add: rested_def)
qed

lemma benchmark_rested:
  assumes "benchmark_trials H A specs st" "rested (sum_list (map trial_calls specs) + n) (ga_state A)"
    and "\<forall>spec\<in>set specs. trial_calls spec \<le> 2000"
  shows "rested n st"
  using assms
proof (induction arbitrary: n rule: benchmark_trials.induct)
  case (one_trial specs st spec calls ls ts sh)
  then show ?case by (intro rested_trial(2) [OF _ one_trial(2) _ one_trial(3,4)]) (simp_all add: add.assoc)
qed simp

lemma benchmark_app_rested: "rested 28000 (ga_state (benchmark_app H js fm))"
proof -
  have "rnd64 1000000 = 1000000" using rnd64_of_int [of 1000000] by simp
  then show ?thesis
    by (simp add: rested_def benchmark_app_def tokens_left_def make_rate_limiter_def limiter_inv_def active_count_def
        peak_count_def dict_get_or_def dict_get_def)
qed

text \<open>What the policy says of the three tools.\<close>

lemma benchmark_policy_decides:
  "\<not> call_authorized (ga_bridge (benchmark_app H js fm)) tools prin ''database.execute_write'' arguments"
  "(tool, arguments, n) \<in> set tool_configs \<Longrightarrow>
   call_authorized (ga_bridge (benchmark_app H js fm)) tools benchmark_principal tool arguments \<longleftrightarrow>
     (\<exists>ut. find (\<lambda>t. tl_name t = tool) tools = Some ut \<and>
        validate_input_schema js (tl_input_schema ut) arguments = Inr None)"
  by (auto simp: call_authorized_def benchmark_app_def tool_rule_def benchmark_policy_def dict_get_def plain_allow_def
      args_satisfy_def dict_in_def tool_configs_def)


text \<open>Twenty calls of the first trial, the first of them at its record and the second on its way.\<close>

definition first_call :: "call_env \<times> call_params" where
  "first_call =
     (demo_call_env\<lparr>ce_principal := Some benchmark_principal, ce_monotonic := (\<lambda>_. Fin 0)\<rparr>,
      \<lparr>cp_name = ''benchmark.noop'', cp_arguments = Some []\<rparr>)"

definition first_signals :: "(nat \<times> signal) list" where
  "first_signals =
     [(0, Begin), (0, TakeLock),
      (0, ToolsArrive (Inr [\<lparr>tl_name = ''benchmark.noop'', tl_input_schema = None, tl_rest = []\<rparr>])), (1, Begin),
      (1, TakeLock), (0, ReplyArrives (Inr (error_result ''x'')))]"

definition first_app :: gateway_app where
  "first_app = benchmark_app demo_host (\<lambda>_ _. JsValid) (\<lambda>_ _. True)"

definition first_moment :: "loop_state option" where
  "first_moment =
     loop_exec (ga_bridge first_app) first_signals (start_loop (replicate 20 first_call) [] (ga_state first_app))"


end
