(* ===== verification/TextLayout.thy ===== *)
theory TextLayout
  imports JsonReader
begin

text \<open>
  The texts of the benchmark's report: \<open>json.dumps(value, indent=2)\<close>, which \<open>json.loads\<close> reads back to
  the value, and the format specifications of the f-strings that print the tables (\<open>24s\<close>, \<open>4d\<close>, \<open>7.2f\<close>,
  \<open>+6.1f\<close>, \<open>.1%\<close>), with the errors they raise for a value of another type. A printed number is the
  float to half a unit of its last digit.
\<close>

subsection \<open>json.dumps with an indentation\<close>

definition margin :: "nat \<Rightarrow> string" where
  "margin level = CHR 0x0A # replicate (2 * level) CHR '' ''"

function json_indent :: "nat \<Rightarrow> pyval \<Rightarrow> string" where
  "json_indent level (PList xs) =
     (if xs = [] then ''[]''
      else ''['' @ margin (Suc level) @ py_join (CHR '','' # margin (Suc level)) (map (json_indent (Suc level)) xs) @
        margin level @ '']'')"
| "json_indent level (PTuple xs) =
     (if xs = [] then ''[]''
      else ''['' @ margin (Suc level) @ py_join (CHR '','' # margin (Suc level)) (map (json_indent (Suc level)) xs) @
        margin level @ '']'')"
| "json_indent level (PDict kvs) =
     (if kvs = [] then ''{}''
      else ''{'' @ margin (Suc level) @ py_join (CHR '','' # margin (Suc level))
          (map (\<lambda>(k, v). json_string k @ '': '' @ json_indent (Suc level) v) kvs) @
        margin level @ ''}'')"
| "json_indent level PNone = json_dumps PNone"
| "json_indent level (PBool b) = json_dumps (PBool b)"
| "json_indent level (PInt n) = json_dumps (PInt n)"
| "json_indent level (PFloat x) = json_dumps (PFloat x)"
| "json_indent level (PStr s) = json_dumps (PStr s)"
  by pat_completeness auto
termination
  by (relation "measure (\<lambda>(_, v). size v)") (auto dest!: size_list_elem size_dict_value)

lemma margin_blank [simp]: "blank (margin n)" "line_break (margin n)"
  by (simp_all add: margin_def blank_def line_break_def list_all_iff)

lemma json_indent_reads: "value_ok v \<Longrightarrow> floats_valid v \<Longrightarrow> reads_as (json_indent l v) (json_plain v)"
proof (induction v arbitrary: l rule: pyval_induct)
  case (PList xs)
  then show ?case
    using json_array_read [of xs "json_indent (Suc l)" json_plain "margin (Suc l)" "margin (Suc l)" "margin l"]
      json_scalar_read [of "PList xs"]
    by (cases "xs = []") (simp_all add: list_all_iff)
next
  case (PTuple xs)
  then show ?case
    using json_array_read [of xs "json_indent (Suc l)" json_plain "margin (Suc l)" "margin (Suc l)" "margin l"]
      json_scalar_read [of "PTuple xs"]
    by (cases "xs = []") (simp_all add: list_all_iff)
next
  case (PDict kvs)
  then have "reads_as (json_indent (Suc l) x) (json_plain x)" if "(k, x) \<in> set kvs" for k x
    using that by (fastforce simp: list_all_iff)
  moreover have "member_text '' '' (json_indent (Suc l)) = (\<lambda>(k, v). json_string k @ '': '' @ json_indent (Suc l) v)"
    by (simp add: fun_eq_iff member_text_def)
  moreover have "blank '' ''" by (simp add: blank_def)
  ultimately show ?case
    using json_object_read [of kvs "json_indent (Suc l)" json_plain "'' ''" "margin (Suc l)" "margin (Suc l)" "margin l"]
      PDict.prems json_scalar_read [of "PDict kvs"]
    by (cases "kvs = []") simp_all
qed (simp only: json_indent.simps, rule json_scalar_read; simp)+

lemma json_loads_indent:
  assumes "value_ok v" "floats_valid v"
  shows "json_loads (json_indent l v) = Inr (json_plain v)"
  by (rule json_loads_reads [OF json_indent_reads [OF assms]])


subsection \<open>Format specifications\<close>

definition pad_left :: "nat \<Rightarrow> string \<Rightarrow> string" where
  "pad_left w s = replicate (w - length s) CHR '' '' @ s"

definition pad_right :: "nat \<Rightarrow> string \<Rightarrow> string" where
  "pad_right w s = s @ replicate (w - length s) CHR '' ''"

text \<open>The decimal with \<open>d\<close> places nearest to a non-negative number, a tie to the even digit.\<close>

definition fixed_places :: "nat \<Rightarrow> rat \<Rightarrow> string" where
  "fixed_places d q =
     (let m = round_half_even (q * 10 ^ d); frac = nat_digits (m mod 10 ^ d)
      in nat_digits (m div 10 ^ d) @ (if d = 0 then [] else CHR ''.'' # zeros (d - length frac) @ frac))"

text \<open>
  \<open>f"{x:.df}"\<close>, and with \<open>+\<close>: \<open>lead\<close> is what stands before a number without a minus. The floats of the
  model have one zero.
\<close>

definition fixed_text :: "string \<Rightarrow> nat \<Rightarrow> pyfloat \<Rightarrow> string" where
  "fixed_text lead d x =
     (case x of NaN \<Rightarrow> lead @ ''nan'' | PInf \<Rightarrow> lead @ ''inf'' | NInf \<Rightarrow> ''-inf''
      | Fin q \<Rightarrow> (if q < 0 then ''-'' else lead) @ fixed_places d \<bar>q\<bar>)"

definition percent_text :: "nat \<Rightarrow> pyfloat \<Rightarrow> string" where
  "percent_text d x = fixed_text [] d (f_mul x (Fin 100)) @ ''%''"

definition class_name :: "pyval \<Rightarrow> string" where
  "class_name v =
     (case v of PNone \<Rightarrow> ''NoneType'' | PBool _ \<Rightarrow> ''bool'' | PInt _ \<Rightarrow> ''int'' | PFloat _ \<Rightarrow> ''float''
      | PStr _ \<Rightarrow> ''str'' | PList _ \<Rightarrow> ''list'' | PTuple _ \<Rightarrow> ''tuple'' | PDict _ \<Rightarrow> ''dict'')"

text \<open>Numbers and strings know format codes, though not each other's; the other types take none.\<close>

definition format_error :: "char \<Rightarrow> pyval \<Rightarrow> exn" where
  "format_error code v =
     (if v = PNone \<or> type_of v \<in> {TList, TTuple, TDict}
      then Exc ''TypeError'' (''unsupported format string passed to '' @ class_name v @ ''.__format__'')
      else ValueError (''Unknown format code '' @ py_repr [code] @ '' for object of type '' @ py_repr (class_name v)))"

definition format_s :: "nat \<Rightarrow> pyval \<Rightarrow> string res" where
  "format_s w v = (case v of PStr s \<Rightarrow> Inr (pad_right w s) | _ \<Rightarrow> Inl (format_error CHR ''s'' v))"

definition format_d :: "nat \<Rightarrow> pyval \<Rightarrow> string res" where
  "format_d w v =
     (case v of PInt n \<Rightarrow> Inr (pad_left w (int_str n))
      | PBool b \<Rightarrow> Inr (pad_left w (int_str (if b then 1 else 0)))
      | _ \<Rightarrow> Inl (format_error CHR ''d'' v))"

text \<open>An integer is formatted as the float it converts to.\<close>

definition format_f :: "string \<Rightarrow> nat \<Rightarrow> nat \<Rightarrow> pyval \<Rightarrow> string res" where
  "format_f lead w d v =
     (case v of PFloat x \<Rightarrow> Inr (pad_left w (fixed_text lead d x))
      | PInt n \<Rightarrow>
          (if is_finite (float_of_int n) then Inr (pad_left w (fixed_text lead d (float_of_int n)))
           else Inl (Exc ''OverflowError'' ''int too large to convert to float''))
      | PBool b \<Rightarrow> Inr (pad_left w (fixed_text lead d (Fin (if b then 1 else 0))))
      | _ \<Rightarrow> Inl (format_error CHR ''f'' v))"


subsection \<open>What a printed number says\<close>

text \<open>The digits before and after the point, and the number they stand for.\<close>

lemma fixed_places_digits:
  assumes "0 \<le> q"
  shows "\<exists>whole frac. fixed_places d q = whole @ (if d = 0 then [] else CHR ''.'' # frac) \<and> length frac = d \<and>
    list_all is_digit (whole @ frac) \<and> \<bar>of_int (digits_value (whole @ frac)) / 10 ^ d - q\<bar> \<le> 1 / 2 / 10 ^ d"
proof -
  define m where "m = round_half_even (q * 10 ^ d)"
  define ip where "ip = nat_digits (m div 10 ^ d)"
  define fr where "fr = nat_digits (m mod 10 ^ d)"
  define frac where "frac = (if d = 0 then [] else zeros (d - length fr) @ fr)"
  have m0: "0 \<le> m" using round_half_even_mono [of 0 "q * 10 ^ d"] assms round_half_even_of_int [of 0] by (simp add: m_def)
  have fr_len: "length fr \<le> d" if "d \<noteq> 0"
  proof (cases "m mod 10 ^ d = 0")
    case True
    then show ?thesis using that by (simp add: fr_def nat_digits.simps)
  next
    case False
    moreover have "0 \<le> m mod 10 ^ d" by simp
    ultimately have p: "0 < m mod 10 ^ d" by linarith
    have "(10::int) ^ (length fr - 1) \<le> m mod 10 ^ d" using nat_digits_props [of "m mod 10 ^ d"] p by (simp add: fr_def)
    also have "\<dots> < 10 ^ d" by simp
    finally have "length fr - 1 < d" by (rule power_less_imp_less_exp [rotated]) simp
    then show ?thesis by simp
  qed
  have len: "length frac = d" using fr_len by (simp add: frac_def zeros_def)
  have fr: "digits_value fr = m mod 10 ^ d" "list_all is_digit fr" using nat_digits_props [of "m mod 10 ^ d"] by (simp_all add: fr_def)
  have ip: "digits_value ip = m div 10 ^ d" "list_all is_digit ip"
    using nat_digits_props [of "m div 10 ^ d"] m0 by (simp_all add: ip_def pos_imp_zdiv_nonneg_iff)
  have z: "digits_value (zeros n @ fr) = digits_value fr" for n
    using digits_value_zeros [of "[]" n] by (simp add: digits_value_append) (simp add: digits_value_def)
  have v: "digits_value (ip @ frac) = m"
  proof (cases "d = 0")
    case False
    then have "digits_value frac = m mod 10 ^ d" using z fr by (simp add: frac_def)
    then show ?thesis using len ip div_mult_mod_eq [of m "10 ^ d"] by (simp add: digits_value_append)
  qed (simp add: frac_def ip)
  have digits: "list_all is_digit (ip @ frac)"
    using ip fr by (auto simp: frac_def zeros_def list_all_iff is_digit_def)
  have "\<bar>of_int m - q * 10 ^ d\<bar> \<le> 1 / 2" using round_half_even_bounds [of "q * 10 ^ d"] unfolding m_def by linarith
  moreover have "of_int m / 10 ^ d - q = (of_int m - q * 10 ^ d) / 10 ^ d" by (simp add: field_simps)
  ultimately have "\<bar>of_int m / 10 ^ d - q\<bar> \<le> 1 / 2 / 10 ^ d" using divide_right_mono [of "\<bar>of_int m - q * 10 ^ d\<bar>" "1 / 2" "10 ^ d"]
    by (simp add: abs_divide)
  moreover have "fixed_places d q = ip @ (if d = 0 then [] else CHR ''.'' # frac)"
    by (simp add: fixed_places_def Let_def m_def ip_def fr_def frac_def)
  ultimately show ?thesis using v len digits by blast
qed

end
