(* ===== verification/BenchmarkReport.thy ===== *)
theory BenchmarkReport
  imports BenchmarkRun TextLayout
begin

text \<open>
  What a benchmark run prints and writes: benchmarks/run.py from \<open>run_benchmarks\<close> on. The report collects
  the environment, the results of both paths, the denied requests, the overhead table and the policy
  latencies of the audit log; \<open>main\<close> prints the overhead summary and writes the report as indented JSON.
  The outside of the benchmark is a \<open>benchmark_world\<close>. The theorems say what the report says, that
  printing it never fails, and that the file reads back as the report. Of a run that fails, the lines
  that had been printed are not modelled.
\<close>

subsection \<open>The report\<close>

text \<open>\<open>dataclasses.asdict\<close>.\<close>

definition stats_dict :: "trial_stats \<Rightarrow> pyval" where
  "stats_dict s = PDict
     [(''request_count'', PInt (ts_request_count s)), (''wall_seconds'', PFloat (ts_wall_seconds s)),
      (''throughput_rps'', PFloat (ts_throughput_rps s)), (''p50_ms'', PFloat (ts_p50_ms s)),
      (''p95_ms'', PFloat (ts_p95_ms s)), (''p99_ms'', PFloat (ts_p99_ms s)),
      (''mean_ms'', PFloat (ts_mean_ms s)), (''error_rate'', PFloat (ts_error_rate s)),
      (''timeout_rate'', PFloat (ts_timeout_rate s))]"

definition result_dict :: "configuration_result \<Rightarrow> pyval" where
  "result_dict r = PDict
     [(''path'', PStr (cr_path r)), (''tool'', PStr (cr_tool r)), (''concurrency'', PInt (cr_concurrency r)),
      (''trials'', PList (map stats_dict (cr_trials r))), (''median'', stats_dict (cr_median r)),
      (''variability'', PDict (map (\<lambda>(f, x). (f, PFloat x)) (cr_variability r)))]"

definition overhead_dict :: "overhead_row \<Rightarrow> pyval" where
  "overhead_dict r = PDict
     [(''tool'', PStr (ov_tool r)), (''concurrency'', PInt (ov_concurrency r)),
      (''direct_p50_ms'', PFloat (ov_direct_p50_ms r)), (''gateway_p50_ms'', PFloat (ov_gateway_p50_ms r)),
      (''absolute_overhead_ms'', PFloat (ov_absolute_overhead_ms r)),
      (''percentage_overhead'', PFloat (ov_percentage_overhead r))]"

definition report_configuration :: pyval where
  "report_configuration = PDict
     [(''concurrency_levels'', PList (map PInt concurrency_levels)),
      (''trials_per_configuration'', PInt (int trials_per_configuration)),
      (''noop_requests_per_client'', PInt (int noop_requests_per_client)),
      (''fixed_latency_requests_per_client'', PInt (int fixed_latency_requests_per_client)),
      (''fixed_latency_duration_seconds'', PFloat fixed_latency_duration_seconds)]"

text \<open>
  What the interpreter and the platform say of themselves: the time in ISO format, and the version in the
  metadata of a distribution, if it is installed.
\<close>

record platform_facts =
  pf_timestamp :: string
  pf_platform :: string
  pf_processor :: string
  pf_cpu_count :: "int option"
  pf_python_version :: string
  pf_python_implementation :: string
  pf_version :: "string \<Rightarrow> string option"

definition package_version :: "platform_facts \<Rightarrow> string \<Rightarrow> pyval" where
  "package_version P name = (case pf_version P name of None \<Rightarrow> PNone | Some v \<Rightarrow> PStr v)"

definition environment_info :: "platform_facts \<Rightarrow> pyval pydict" where
  "environment_info P =
     [(''timestamp'', PStr (pf_timestamp P)), (''platform'', PStr (pf_platform P)),
      (''processor'', PStr (pf_processor P)),
      (''cpu_count'', (case pf_cpu_count P of None \<Rightarrow> PNone | Some n \<Rightarrow> PInt n)),
      (''python_version'', PStr (pf_python_version P)),
      (''python_implementation'', PStr (pf_python_implementation P)),
      (''mcp_version'', package_version P ''mcp''), (''uvicorn_version'', package_version P ''uvicorn''),
      (''httpx2_version'', package_version P ''httpx2''),
      (''jsonschema_version'', package_version P ''jsonschema'')]"

text \<open>
  The outside of a benchmark: ports and probes of the two servers, the trials of both paths, the text
  of the audit log when the gateway has stopped, the platform, and the directory of the results.
\<close>

record benchmark_world =
  bw_http_error :: "exn \<Rightarrow> bool"
  bw_upstream_port :: int
  bw_upstream_probe :: "nat \<Rightarrow> unit res"
  bw_gateway_port :: int
  bw_gateway_probe :: "nat \<Rightarrow> unit res"
  bw_direct :: "trial_spec \<Rightarrow> nat \<Rightarrow> trial_run"
  bw_gateway :: "trial_spec \<Rightarrow> nat \<Rightarrow> trial_run"
  bw_denied :: trial_run
  bw_audit_log :: "string option"
  bw_platform :: platform_facts
  bw_results_dir :: string

definition and_then :: "'a res \<Rightarrow> ('a \<Rightarrow> 'b res) \<Rightarrow> 'b res" where
  "and_then r f = (case r of Inl e \<Rightarrow> Inl e | Inr x \<Rightarrow> f x)"

text \<open>The lines that a run prints on its way: a configuration, the denied requests, and all of them.\<close>

definition configuration_line :: "configuration_result \<Rightarrow> string" where
  "configuration_line r =
     (let m = cr_median r in
      ''  '' @ pad_right 8 (cr_path r) @ '' '' @ pad_right 24 (cr_tool r) @
      '' c='' @ pad_left 4 (int_str (cr_concurrency r)) @
      ''  p50='' @ pad_left 7 (fixed_text [] 2 (ts_p50_ms m)) @
      ''ms  p95='' @ pad_left 7 (fixed_text [] 2 (ts_p95_ms m)) @
      ''ms  p99='' @ pad_left 7 (fixed_text [] 2 (ts_p99_ms m)) @
      ''ms  throughput='' @ pad_left 8 (fixed_text [] 1 (ts_throughput_rps m)) @
      '' rps  errors='' @ percent_text 1 (ts_error_rate m))"

definition denied_line :: "trial_stats \<Rightarrow> string" where
  "denied_line t =
     ''  denied-request  database.execute_write   c='' @ pad_left 4 (int_str denied_request_concurrency) @
     ''  p50='' @ pad_left 7 (fixed_text [] 2 (ts_p50_ms t)) @
     ''ms  p95='' @ pad_left 7 (fixed_text [] 2 (ts_p95_ms t)) @
     ''ms  p99='' @ pad_left 7 (fixed_text [] 2 (ts_p99_ms t)) @ ''ms''"

definition progress_lines ::
  "benchmark_world \<Rightarrow> configuration_result list \<Rightarrow> configuration_result list \<Rightarrow> trial_stats \<Rightarrow> string list" where
  "progress_lines W direct_results gateway_results denied_stats =
     [''upstream: '' @ server_url (bw_upstream_port W), ''gateway:  '' @ server_url (bw_gateway_port W) @ newline,
      ''=== direct (client -> upstream) ===''] @
     map configuration_line direct_results @
     [newline @ ''=== gateway (client -> SentinelMCP -> upstream) ===''] @
     map configuration_line gateway_results @
     [newline @ ''=== denied-request latency (gateway only) ==='', denied_line denied_stats]"

definition report_dict ::
  "benchmark_world \<Rightarrow> configuration_result list \<Rightarrow> configuration_result list \<Rightarrow> trial_stats \<Rightarrow> pyval pydict
    \<Rightarrow> pyval pydict" where
  "report_dict W direct_results gateway_results denied_stats policy_latency =
     [(''environment'', PDict (environment_info (bw_platform W))),
      (''configuration'', report_configuration),
      (''direct'', PList (map result_dict direct_results)),
      (''gateway'', PList (map result_dict gateway_results)),
      (''denied_request_latency'', stats_dict denied_stats),
      (''gateway_overhead'', PList (map overhead_dict (compute_overhead direct_results gateway_results))),
      (''policy_evaluation_latency'', PDict policy_latency)]"

text \<open>A run to its end: what it has printed, and the report.\<close>

definition run_benchmarks ::
  "benchmark_world \<Rightarrow> host_env \<Rightarrow> (pyval \<Rightarrow> pyval \<Rightarrow> js_outcome) \<Rightarrow> (string \<Rightarrow> string \<Rightarrow> bool)
    \<Rightarrow> (string list \<times> pyval pydict) res" where
  "run_benchmarks W H js fullmatch =
     and_then (running_asgi_app (bw_http_error W) (bw_upstream_port W) (bw_upstream_probe W)) (\<lambda>_.
     and_then (benchmark_gateway H js fullmatch) (\<lambda>_.
     and_then (running_asgi_app (bw_http_error W) (bw_gateway_port W) (bw_gateway_probe W)) (\<lambda>_.
     and_then (run_configuration_matrix (bw_direct W) ''direct'') (\<lambda>direct_results.
     and_then (run_configuration_matrix (bw_gateway W) ''gateway'') (\<lambda>gateway_results.
     and_then (run_denied_request_benchmark (bw_denied W)) (\<lambda>denied_stats.
     and_then (policy_latency_stats_from_audit_log (bw_audit_log W)) (\<lambda>policy_latency.
       Inr (progress_lines W direct_results gateway_results denied_stats,
            report_dict W direct_results gateway_results denied_stats policy_latency))))))))"


subsection \<open>The overhead summary\<close>

text \<open>\<open>value[k]\<close>, the elements of a \<open>for\<close>, the truth of a value and \<open>f"{value}"\<close>.\<close>

definition subscript :: "pyval \<Rightarrow> string \<Rightarrow> pyval res" where
  "subscript v k =
     (case v of PDict d \<Rightarrow> (case dict_get d k of None \<Rightarrow> Inl (Exc ''KeyError'' (py_repr k)) | Some x \<Rightarrow> Inr x)
      | _ \<Rightarrow> Inl (Exc ''TypeError'' (py_repr (class_name v) @ '' takes no string as an index'')))"

definition elements :: "pyval \<Rightarrow> pyval list res" where
  "elements v =
     (case v of PList xs \<Rightarrow> Inr xs | PTuple xs \<Rightarrow> Inr xs | PDict d \<Rightarrow> Inr (map (\<lambda>(k, _). PStr k) d)
      | PStr s \<Rightarrow> Inr (map (\<lambda>c. PStr [c]) s)
      | _ \<Rightarrow> Inl (Exc ''TypeError'' (py_repr (class_name v) @ '' object is not iterable'')))"

definition truthy :: "pyval \<Rightarrow> bool" where
  "truthy v =
     (case v of PNone \<Rightarrow> False | PBool b \<Rightarrow> b | PInt n \<Rightarrow> n \<noteq> 0 | PFloat x \<Rightarrow> x \<noteq> Fin 0 | PStr s \<Rightarrow> s \<noteq> []
      | PList xs \<Rightarrow> xs \<noteq> [] | PTuple xs \<Rightarrow> xs \<noteq> [] | PDict d \<Rightarrow> d \<noteq> [])"

definition format_plain :: "pyval \<Rightarrow> string res" where
  "format_plain v =
     (case v of PNone \<Rightarrow> Inr ''None'' | PBool b \<Rightarrow> Inr (py_bool_str b) | PInt n \<Rightarrow> Inr (int_str n) | PStr s \<Rightarrow> Inr s
      | PFloat x \<Rightarrow> Inr (case x of Fin q \<Rightarrow> float_repr q | _ \<Rightarrow> fixed_text [] 0 x)
      | _ \<Rightarrow> Inl (Exc ''BeyondModel'' ''the text of a container''))"

text \<open>An f-string: its parts from left to right; the first that raises ends it.\<close>

definition fstring :: "string res list \<Rightarrow> string res" where
  "fstring parts = map_sum id concat (gather parts)"

definition overhead_line :: "pyval \<Rightarrow> string res" where
  "overhead_line row =
     fstring
       [Inr ''  '', and_then (subscript row ''tool'') (format_s 24),
        Inr '' c='', and_then (subscript row ''concurrency'') (format_d 4),
        Inr ''  direct='', and_then (subscript row ''direct_p50_ms'') (format_f [] 7 2),
        Inr ''ms  gateway='', and_then (subscript row ''gateway_p50_ms'') (format_f [] 7 2),
        Inr ''ms  overhead='', and_then (subscript row ''absolute_overhead_ms'') (format_f ''+'' 7 2),
        Inr ''ms ('', and_then (subscript row ''percentage_overhead'') (format_f ''+'' 6 1), Inr ''%)'']"

definition policy_line :: "pyval \<Rightarrow> string res" where
  "policy_line pl =
     fstring
       [Inr (newline @
          ''policy-evaluation latency (schema + argument-constraint checks only, from ''),
        and_then (subscript pl ''sample_count'') format_plain,
        Inr '' audit records): p50='', and_then (subscript pl ''p50_ms'') (format_f [] 0 2),
        Inr ''ms  p95='', and_then (subscript pl ''p95_ms'') (format_f [] 0 2),
        Inr ''ms  p99='', and_then (subscript pl ''p99_ms'') (format_f [] 0 2), Inr ''ms'']"

text \<open>What \<open>_print_overhead_summary\<close> prints, if it does not raise.\<close>

definition overhead_summary :: "pyval pydict \<Rightarrow> string list res" where
  "overhead_summary report =
     and_then (and_then (subscript (PDict report) ''gateway_overhead'') elements) (\<lambda>rows.
     and_then (gather (map overhead_line rows)) (\<lambda>table.
     and_then (subscript (PDict report) ''policy_evaluation_latency'') (\<lambda>pl.
     and_then (record_get pl ''sample_count'') (\<lambda>sample_count.
     and_then (if truthy sample_count then map_sum id (\<lambda>l. [l]) (policy_line pl) else Inr []) (\<lambda>policy.
       Inr ([newline @ ''=== gateway overhead (p50, vs. direct) ===''] @ table @ policy))))))"

text \<open>\<open>main\<close>: no options; what is printed, and the name and the text of the file that is written.\<close>

record benchmark_output =
  bo_lines :: "string list"
  bo_path :: string
  bo_text :: string

definition results_name :: "pyval pydict \<Rightarrow> string" where
  "results_name environment =
     map (\<lambda>c. if c = CHR '':'' then CHR ''-'' else c) (ns_str environment ''timestamp'') @ ''.json''"

definition benchmark_main ::
  "benchmark_world \<Rightarrow> host_env \<Rightarrow> (pyval \<Rightarrow> pyval \<Rightarrow> js_outcome) \<Rightarrow> (string \<Rightarrow> string \<Rightarrow> bool)
    \<Rightarrow> string list \<Rightarrow> benchmark_output res" where
  "benchmark_main W H js fullmatch argv =
     and_then (parse_args [] argv) (\<lambda>_.
     and_then (run_benchmarks W H js fullmatch) (\<lambda>(progress, report).
     and_then (overhead_summary report) (\<lambda>summary.
       let output_path = bw_results_dir W @ ''/'' @ results_name (environment_info (bw_platform W)) in
       Inr \<lparr>bo_lines = progress @ summary @ [newline @ ''Raw results written to '' @ output_path],
            bo_path = output_path, bo_text = json_indent 0 (PDict report)\<rparr>)))"


subsection \<open>What the report says\<close>

text \<open>A server counts as running when one of the fifty probes is answered before another exception.\<close>

lemma probe_server_ok:
  "probe_server he url probe i n = Inr () \<longleftrightarrow>
     (\<exists>k<n. probe (i + k) = Inr () \<and> (\<forall>j<k. \<exists>e. probe (i + j) = Inl e \<and> he e))"
proof (induction n arbitrary: i)
  case (Suc n)
  then show ?case by (cases "probe i") (simp_all add: Ex_less_Suc2 All_less_Suc2)
qed simp

lemma run_configuration_facts:
  assumes "run_configuration out path spec = Inr r"
  shows "cr_path r = path" "cr_tool r = tr_tool spec" "cr_concurrency r = tr_concurrency spec"
    "length (cr_trials r) = trials_per_configuration"
    "\<forall>t\<in>set (cr_trials r). ts_request_count t = int (trial_calls spec)"
proof -
  let ?runs = "map (\<lambda>k. run_spec spec (out spec k)) [0..<Suc trials_per_configuration]"
  obtain measured where m: "gather ?runs = Inr measured" "cr_trials r = tl measured"
    and r: "cr_path r = path" "cr_tool r = tr_tool spec" "cr_concurrency r = tr_concurrency spec"
    using assms by (auto simp: run_configuration_def Let_def split: sum.splits prod.splits)
  then show "cr_path r = path" "cr_tool r = tr_tool spec" "cr_concurrency r = tr_concurrency spec" by simp_all
  have g: "?runs = map Inr measured" by (rule gather_Inr [OF m(1)])
  then have "length ?runs = length measured" by (metis length_map)
  then show "length (cr_trials r) = trials_per_configuration" by (simp add: m(2))
  show "\<forall>t\<in>set (cr_trials r). ts_request_count t = int (trial_calls spec)"
  proof
    fix t assume "t \<in> set (cr_trials r)"
    then have "Inr t \<in> set (map (Inr :: trial_stats \<Rightarrow> trial_stats res) measured)" by (cases measured) (auto simp: m(2))
    then obtain k where "run_spec spec (out spec k) = Inr t" unfolding g [symmetric] by auto
    then show "ts_request_count t = int (trial_calls spec)"
      using run_trial_counts by (fastforce simp: run_spec_def trial_calls_def)
  qed
qed

definition result_of :: "trial_spec \<Rightarrow> configuration_result \<Rightarrow> bool" where
  "result_of spec r =
     (cr_tool r = tr_tool spec \<and> cr_concurrency r = tr_concurrency spec \<and>
      length (cr_trials r) = trials_per_configuration \<and>
      (\<forall>t\<in>set (cr_trials r). ts_request_count t = int (trial_calls spec)))"

lemma matrix_results:
  assumes "run_configuration_matrix out path = Inr rs"
  shows "list_all2 result_of configurations rs"
proof -
  have "map (run_configuration out path) configurations = map Inr rs"
    using gather_Inr assms by (fastforce simp: run_configuration_matrix_def)
  then have "list_all2 (\<lambda>spec r. run_configuration out path spec = Inr r) configurations rs"
    by (simp add: list_all2_conv_all_nth list_eq_iff_nth_eq)
  then show ?thesis
    by (rule list_all2_mono) (simp add: result_of_def run_configuration_facts)
qed

text \<open>Two lists of results for the same distinct configurations are matched position by position.\<close>

abbreviation result_key :: "configuration_result \<Rightarrow> string \<times> int" where
  "result_key r \<equiv> (cr_tool r, cr_concurrency r)"

lemma direct_by_key_at:
  assumes "distinct (map result_key ds)" "d \<in> set ds"
  shows "direct_by_key ds (result_key d) = Some d"
proof -
  have "find (\<lambda>r. result_key r = result_key d) (rev ds) \<noteq> None"
    using assms(2) by (auto simp: find_None_iff)
  then obtain e where e: "find (\<lambda>r. result_key r = result_key d) (rev ds) = Some e" by blast
  then have "e \<in> set ds" "result_key e = result_key d" by (auto simp: find_Some_iff rev_nth)
  then have "e = d" using assms by (auto simp: distinct_map inj_on_def)
  with e show ?thesis by (simp add: direct_by_key_def)
qed

lemma compute_overhead_matched:
  assumes "distinct (map result_key ds)" "list_all2 (\<lambda>d g. d \<in> set ds \<and> result_key d = result_key g) es gs"
  shows "compute_overhead ds gs = map2 overhead_of es gs"
  using assms(2)
proof (induction rule: list_all2_induct)
  case (Cons e es g gs)
  then show ?case using direct_by_key_at [OF assms(1), of e] by simp
qed simp

lemma configurations_distinct: "distinct (map (\<lambda>s. (tr_tool s, tr_concurrency s)) configurations)"
  by (simp add: configurations_def tool_configs_def concurrency_levels_def)

lemma matrices_overhead:
  assumes "list_all2 result_of configurations ds" "list_all2 result_of configurations gs"
  shows "compute_overhead ds gs = map2 overhead_of ds gs"
proof -
  have keys: "map result_key rs = map (\<lambda>s. (tr_tool s, tr_concurrency s)) configurations"
    if "list_all2 result_of configurations rs" for rs
    using that by (auto simp: list_all2_conv_all_nth result_of_def intro!: nth_equalityI)
  have "distinct (map result_key ds)" using configurations_distinct keys [OF assms(1)] by simp
  moreover have "list_all2 (\<lambda>d g. d \<in> set ds \<and> result_key d = result_key g) ds gs"
    using assms by (auto simp: list_all2_conv_all_nth result_of_def)
  ultimately show ?thesis by (rule compute_overhead_matched)
qed

text \<open>
  The benchmark ends with a report when both servers answer a probe, every client opens and closes,
  every request ends with a result or an \<open>Exception\<close> after a time that binary64 holds, and the log can be
  read.
\<close>

definition sample_ok :: "sample \<Rightarrow> bool" where
  "sample_ok s =
     (case f_mul (sm_elapsed_seconds s) (Fin 1000) of
        Fin x \<Rightarrow> 0 \<le> x \<and> x \<le> 2 ^ 53 \<and> rnd64 x = x
      | _ \<Rightarrow> False)"

definition measured :: "request_run \<Rightarrow> bool" where
  "measured q = (case request_sample q of Inl _ \<Rightarrow> False | Inr s \<Rightarrow> sample_ok s)"

text \<open>A worker whose client opens and closes and whose requests are all measured.\<close>

definition worker_ok :: "worker_run \<Rightarrow> bool" where
  "worker_ok q = (wr_enter q = Inr () \<and> wr_leave q None = Inr () \<and> (\<forall>j. measured (wr_request q j)))"

lemma insort_map_Fin: "insort (Fin x) (map Fin ys) = map Fin (insort x ys)"
  by (induction ys) simp_all

lemma sort_map_Fin: "sort (map Fin xs) = map Fin (sort xs)"
  by (induction xs) (simp_all add: insort_map_Fin)

lemma percentile_returns:
  assumes "length vs \<le> 2 ^ 53" "\<forall>v\<in>set vs. 0 \<le> v \<and> v \<le> 2 ^ 53 \<and> rnd64 v = v" "0 \<le> p" "p \<le> 100"
  shows "\<exists>y. percentile (sort (map Fin vs)) (Fin p) = Inr y"
proof (cases "vs = []")
  case False
  then have "sort vs \<noteq> []" by (metis length_0_conv length_sort)
  then show ?thesis
    using percentile_between [of "sort vs" p] assms by (auto simp: sort_map_Fin latencies_ok_def)
qed (simp add: percentile_def)

lemma compute_trial_stats_returns:
  assumes "length samples \<le> 2 ^ 53" "\<forall>s\<in>set samples. sample_ok s"
  shows "\<exists>t. compute_trial_stats samples w = Inr t"
proof -
  let ?ms = "map (\<lambda>s. f_mul (sm_elapsed_seconds s) (Fin 1000)) samples"
  let ?vs = "map f_value ?ms"
  have "\<exists>x. f_mul (sm_elapsed_seconds s) (Fin 1000) = Fin x \<and> 0 \<le> x \<and> x \<le> 2 ^ 53 \<and> rnd64 x = x"
    if "s \<in> set samples" for s
    using assms(2) that by (fastforce simp: sample_ok_def split: pyfloat.splits)
  then have ms: "?ms = map Fin ?vs" "\<forall>v\<in>set ?vs. 0 \<le> v \<and> v \<le> 2 ^ 53 \<and> rnd64 v = v"
    by (fastforce simp: f_value_def)+
  have "\<exists>y. percentile (sort ?ms) (Fin p) = Inr y" if "0 \<le> p" "p \<le> 100" for p
    using percentile_returns [OF _ ms(2) that] assms(1) unfolding ms(1) [symmetric] by simp
  from this [of 50] this [of 95] this [of 99] show ?thesis by (auto simp: compute_trial_stats_def Let_def)
qed

lemma worker_loop_returns:
  assumes "\<And>j. measured (run j)"
  shows "\<exists>ss. worker_loop run i n = Inr ss \<and> (\<forall>s\<in>set ss. sample_ok s)"
proof (induction n arbitrary: i)
  case (Suc n)
  then obtain ss where "worker_loop run (Suc i) n = Inr ss \<and> (\<forall>s\<in>set ss. sample_ok s)" by blast
  then show ?case using assms [of i] by (cases "request_sample (run i)") (auto simp: measured_def)
qed simp

lemma gather_returns: "\<forall>r\<in>set rs. \<exists>x. r = Inr x \<Longrightarrow> \<exists>xs. gather rs = Inr xs \<and> rs = map Inr xs"
  by (induction rs) auto

lemma run_spec_returns:
  assumes "\<And>w. worker_ok (tu_workers u w)" "trial_calls spec \<le> 2 ^ 53"
  shows "\<exists>t. run_spec spec u = Inr t"
proof -
  let ?n = "tr_requests spec" and ?c = "nat (tr_concurrency spec)"
  let ?rs = "map (\<lambda>w. worker (tu_workers u w) ?n) [0..<?c]"
  have worker: "\<exists>ss. worker (tu_workers u w) ?n = Inr ss \<and> length ss = ?n \<and> (\<forall>s\<in>set ss. sample_ok s)" for w
  proof -
    have q: "worker_ok (tu_workers u w)" by (rule assms(1))
    then obtain ss where "worker_loop (wr_request (tu_workers u w)) 0 ?n = Inr ss" "\<forall>s\<in>set ss. sample_ok s"
      using worker_loop_returns unfolding worker_ok_def by blast
    then show ?thesis using q worker_loop_length by (simp add: worker_def worker_ok_def)
  qed
  have "\<forall>r\<in>set ?rs. \<exists>x. r = Inr x" using worker by fastforce
  then obtain xs where xs: "gather ?rs = Inr xs" "?rs = map Inr xs" using gather_returns by blast
  have good: "length ss = ?n \<and> (\<forall>s\<in>set ss. sample_ok s)" if "ss \<in> set xs" for ss
  proof -
    have "Inr ss \<in> set (map Inr xs :: sample list res list)" using that by simp
    then obtain w where "worker (tu_workers u w) ?n = Inr ss" unfolding xs(2) [symmetric] by auto
    then show ?thesis using worker [of w] by simp
  qed
  have "length xs = ?c" using arg_cong [OF xs(2), of length] by simp
  moreover have "length (concat xs) = length xs * ?n"
    using good by (simp add: length_concat sum_list_triv cong: map_cong)
  ultimately have "length (concat xs) \<le> 2 ^ 53" using assms(2) by (simp add: trial_calls_def)
  moreover have "\<forall>s\<in>set (concat xs). sample_ok s" using good by auto
  ultimately show ?thesis
    using compute_trial_stats_returns xs(1) by (fastforce simp: run_spec_def run_trial_def)
qed

lemma matrix_returns:
  assumes "\<And>spec k w. worker_ok (tu_workers (out spec k) w)"
  shows "\<exists>rs. run_configuration_matrix out path = Inr rs"
proof -
  have "\<exists>r. run_configuration out path spec = Inr r" if "spec \<in> set configurations" for spec
  proof -
    have "trial_calls spec \<le> 2 ^ 53"
      using that by (auto simp: configurations_def tool_configs_def concurrency_levels_def trial_calls_def
          noop_requests_per_client_def fixed_latency_requests_per_client_def)
    then have "\<exists>t. run_spec spec (out spec k) = Inr t" for k
      using run_spec_returns assms by blast
    then have "\<exists>ts. gather (map (\<lambda>k. run_spec spec (out spec k)) [0..<Suc trials_per_configuration]) = Inr ts"
      by (intro gather_returns [THEN ex_forward]) auto
    then show ?thesis by (auto simp: run_configuration_def Let_def split: prod.splits)
  qed
  then show ?thesis
    unfolding run_configuration_matrix_def by (intro gather_returns [THEN ex_forward]) auto
qed

lemma benchmark_completes:
  assumes "bw_upstream_probe W 0 = Inr ()" "bw_gateway_probe W 0 = Inr ()"
    and "\<And>spec k w. worker_ok (tu_workers (bw_direct W spec k) w)"
    and "\<And>spec k w. worker_ok (tu_workers (bw_gateway W spec k) w)"
    and "\<And>w. worker_ok (tu_workers (bw_denied W) w)"
    and "policy_latency_stats_from_audit_log (bw_audit_log W) = Inr latency"
  shows "\<exists>progress report. run_benchmarks W H js fm = Inr (progress, report)"
proof -
  have up: "running_asgi_app he port probe = Inr ()" if "probe 0 = Inr ()" for he port probe
    unfolding running_asgi_app_def probe_server_ok using that by (intro exI [of _ 0]) simp
  have "trial_calls denied_spec \<le> 2 ^ 53"
    by (simp add: trial_calls_def denied_spec_def denied_request_concurrency_def denied_request_requests_per_client_def)
  then obtain t where "run_denied_request_benchmark (bw_denied W) = Inr t"
    using run_spec_returns assms(5) unfolding run_denied_request_benchmark_def by blast
  moreover obtain ds gs where "run_configuration_matrix (bw_direct W) ''direct'' = Inr ds"
    "run_configuration_matrix (bw_gateway W) ''gateway'' = Inr gs"
    using matrix_returns assms(3,4) by metis
  ultimately show ?thesis
    by (simp add: run_benchmarks_def and_then_def up assms(1,2,6) benchmark_gateway_starts)
qed

text \<open>What a report is made of.\<close>

lemma run_benchmarks_parts:
  assumes "run_benchmarks W H js fm = Inr (progress, report)"
  obtains ds gs denied latency where
    "running_asgi_app (bw_http_error W) (bw_upstream_port W) (bw_upstream_probe W) = Inr ()"
    "running_asgi_app (bw_http_error W) (bw_gateway_port W) (bw_gateway_probe W) = Inr ()"
    "run_configuration_matrix (bw_direct W) ''direct'' = Inr ds"
    "run_configuration_matrix (bw_gateway W) ''gateway'' = Inr gs"
    "run_denied_request_benchmark (bw_denied W) = Inr denied"
    "policy_latency_stats_from_audit_log (bw_audit_log W) = Inr latency"
    "report = report_dict W ds gs denied latency"
  using assms by (auto simp: run_benchmarks_def and_then_def split: sum.splits)

lemma matrices_rows:
  assumes "run_configuration_matrix u ''direct'' = Inr ds" "run_configuration_matrix v ''gateway'' = Inr gs"
  shows "compute_overhead ds gs = map2 overhead_of ds gs" "length (map2 overhead_of ds gs) = length configurations"
  using assms [THEN matrix_results] matrices_overhead assms [THEN matrix_results, THEN list_all2_lengthD]
  by simp_all

text \<open>
  C32: The report compares like with like. If the benchmark ends with a report, both servers answered one
  of their first fifty probes; the direct and the gateway section list the ten configurations in the
  same order, each with five measured trials of all its requests; the overhead section has one row for
  each configuration, of the two results for it; and the policy latencies are those of the audit log.
\<close>

theorem benchmark_report:
  assumes "run_benchmarks W H js fm = Inr (progress, report)"
  shows "\<exists>ds gs latency.
    (\<exists>k<50. bw_upstream_probe W k = Inr ()) \<and> (\<exists>k<50. bw_gateway_probe W k = Inr ()) \<and>
    list_all2 result_of configurations ds \<and> list_all2 result_of configurations gs \<and>
    dict_get report ''direct'' = Some (PList (map result_dict ds)) \<and>
    dict_get report ''gateway'' = Some (PList (map result_dict gs)) \<and>
    dict_get report ''gateway_overhead'' = Some (PList (map overhead_dict (map2 overhead_of ds gs))) \<and>
    policy_latency_stats_from_audit_log (bw_audit_log W) = Inr latency \<and>
    dict_get report ''policy_evaluation_latency'' = Some (PDict latency)"
proof -
  obtain ds gs denied latency where
    up: "running_asgi_app (bw_http_error W) (bw_upstream_port W) (bw_upstream_probe W) = Inr ()"
    "running_asgi_app (bw_http_error W) (bw_gateway_port W) (bw_gateway_probe W) = Inr ()"
    and m: "run_configuration_matrix (bw_direct W) ''direct'' = Inr ds"
    "run_configuration_matrix (bw_gateway W) ''gateway'' = Inr gs"
    and l: "policy_latency_stats_from_audit_log (bw_audit_log W) = Inr latency"
    and report: "report = report_dict W ds gs denied latency"
    by (rule run_benchmarks_parts [OF assms])
  have "\<exists>k<50. bw_upstream_probe W k = Inr ()" "\<exists>k<50. bw_gateway_probe W k = Inr ()"
    using up unfolding running_asgi_app_def probe_server_ok by auto
  then show ?thesis
    using m [THEN matrix_results] l
    by (intro exI [of _ ds] exI [of _ gs] exI [of _ latency]) (simp add: report report_dict_def matrices_rows(1) [OF m] dict_get_def)
qed

definition quick_run :: trial_run where
  "quick_run =
     \<lparr>tu_workers = (\<lambda>_. \<lparr>wr_enter = Inr (), wr_request = (\<lambda>_. \<lparr>rr_start = Fin 0, rr_outcome = Inr False, rr_stop = Fin 1\<rparr>),
        wr_leave = (\<lambda>_. Inr ())\<rparr>), tu_start = Fin 0, tu_stop = Fin 2\<rparr>"

definition quick_platform :: platform_facts where
  "quick_platform =
     \<lparr>pf_timestamp = ''2026-01-02T03:04:05+00:00'', pf_platform = ''Linux'', pf_processor = [], pf_cpu_count = Some 4,
      pf_python_version = ''3.12.3'', pf_python_implementation = ''CPython'', pf_version = (\<lambda>_. None)\<rparr>"

definition quick_benchmark :: benchmark_world where
  "quick_benchmark =
     \<lparr>bw_http_error = (\<lambda>_. True), bw_upstream_port = 1, bw_upstream_probe = (\<lambda>_. Inr ()), bw_gateway_port = 2,
      bw_gateway_probe = (\<lambda>_. Inr ()), bw_direct = (\<lambda>_ _. quick_run), bw_gateway = (\<lambda>_ _. quick_run),
      bw_denied = quick_run, bw_audit_log = None,
      bw_platform = quick_platform, bw_results_dir = ''results''\<rparr>"

lemma quick_benchmark_completes:
  "\<exists>progress report. run_benchmarks quick_benchmark demo_host (\<lambda>_ _. JsValid) (\<lambda>_ _. True) = Inr (progress, report)"
proof -
  have "measured \<lparr>rr_start = Fin 0, rr_outcome = Inr False, rr_stop = Fin 1\<rparr>" by code_simp
  then have "worker_ok (tu_workers quick_run w)" for w by (simp add: worker_ok_def quick_run_def)
  moreover have "policy_latency_stats_from_audit_log None = Inr [(''sample_count'', PInt 0)]" by code_simp
  ultimately show ?thesis using benchmark_completes [of quick_benchmark] by (fastforce simp: quick_benchmark_def)
qed

theorem benchmark_report_witness:
  "\<exists>progress report rows. run_benchmarks quick_benchmark demo_host (\<lambda>_ _. JsValid) (\<lambda>_ _. True) = Inr (progress, report) \<and>
    dict_get report ''gateway_overhead'' = Some (PList rows)"
  using quick_benchmark_completes benchmark_report by blast


subsection \<open>Every float of the report is a binary64 value\<close>

lemma statistics_valid [simp]: "f64_valid (int_ratio m n)" "f64_valid (fmean xs)"
  by (simp_all add: int_ratio_def fmean_def f64_valid_round)

lemma percentile_valid:
  assumes "list_all f64_valid xs" "percentile xs p = Inr y"
  shows "f64_valid y"
proof -
  have "f64_valid z" if "py_index xs i = Inr z" for i z
    using assms(1) that by (auto simp: py_index_def list_all_length split: if_splits)
  then show ?thesis
    using assms(2) by (auto simp: percentile_def Let_def split: if_splits pyfloat.splits sum.splits)
qed

lemma median_valid: "xs \<noteq> [] \<Longrightarrow> list_all f64_valid xs \<Longrightarrow> f64_valid (median xs)"
proof -
  assume "xs \<noteq> []" "list_all f64_valid xs"
  then have "sort xs ! (length xs div 2) \<in> set (sort xs)" "\<forall>x\<in>set (sort xs). f64_valid x"
    by (simp_all add: list_all_iff del: set_sort) simp
  then show ?thesis by (auto simp: median_def Let_def)
qed

definition stats_valid :: "trial_stats \<Rightarrow> bool" where
  "stats_valid t = (f64_valid (ts_wall_seconds t) \<and> list_all (\<lambda>(_, f). f64_valid (f t)) median_fields)"

lemma compute_trial_stats_valid:
  "compute_trial_stats samples w = Inr t \<Longrightarrow> f64_valid w \<Longrightarrow> stats_valid t"
proof -
  have "list_all f64_valid (sort (map (\<lambda>s. f_mul (sm_elapsed_seconds s) (Fin 1000)) samples))"
    by (simp add: list_all_iff)
  note valid = percentile_valid [OF this]
  assume "compute_trial_stats samples w = Inr t" "f64_valid w"
  then show ?thesis
    by (auto simp: compute_trial_stats_def Let_def stats_valid_def median_fields_def valid split: sum.splits)
qed

lemma run_spec_valid: "run_spec spec u = Inr t \<Longrightarrow> stats_valid t"
  by (auto simp: run_spec_def run_trial_def split: sum.splits intro: compute_trial_stats_valid)

definition result_valid :: "configuration_result \<Rightarrow> bool" where
  "result_valid r =
     (list_all stats_valid (cr_trials r) \<and> stats_valid (cr_median r) \<and>
      map fst (cr_variability r) = map fst median_fields \<and> list_all (\<lambda>(_, x). f64_valid x) (cr_variability r))"

lemma run_configuration_valid:
  assumes "run_configuration out path spec = Inr r"
  shows "result_valid r"
proof -
  obtain measured where m: "gather (map (\<lambda>k. run_spec spec (out spec k)) [0..<Suc trials_per_configuration]) = Inr measured"
    and r: "cr_trials r = tl measured" "(cr_median r, cr_variability r) = median_trial_stats (tl measured)"
    using assms by (auto simp: run_configuration_def Let_def split: sum.splits prod.splits)
  have "stats_valid t" if "t \<in> set measured" for t
  proof -
    have "Inr t \<in> set (map (Inr :: trial_stats \<Rightarrow> trial_stats res) measured)" using that by simp
    then show ?thesis unfolding gather_Inr [OF m, symmetric] using run_spec_valid by auto
  qed
  then have trials: "stats_valid t" if "t \<in> set (tl measured)" for t using that by (cases measured) auto
  have "length (tl measured) = trials_per_configuration" using run_configuration_facts(4) [OF assms] r(1) by simp
  then have ne: "tl measured \<noteq> []" by (cases measured) (auto simp: trials_per_configuration_def)
  have field: "f64_valid (median (map f (tl measured)))" if "\<And>t. stats_valid t \<Longrightarrow> f64_valid (f t)" for f
    using that trials ne by (intro median_valid) (simp_all add: list_all_iff)
  have "stats_valid (cr_median r)"
    using r(2) by (auto simp: median_trial_stats_def Let_def stats_valid_def median_fields_def intro!: field)
  moreover have "map fst (cr_variability r) = map fst median_fields" "list_all (\<lambda>(_, x). f64_valid x) (cr_variability r)"
    using r(2) by (simp_all add: median_trial_stats_def Let_def median_fields_def)
  ultimately show ?thesis using trials r(1) by (simp add: result_valid_def list_all_iff)
qed

lemma matrix_valid: "run_configuration_matrix out path = Inr rs \<Longrightarrow> list_all result_valid rs"
proof -
  assume "run_configuration_matrix out path = Inr rs"
  then have "map (run_configuration out path) configurations = map Inr rs"
    unfolding run_configuration_matrix_def by (rule gather_Inr)
  moreover have "Inr r \<in> set (map (Inr :: configuration_result \<Rightarrow> configuration_result res) rs)" if "r \<in> set rs" for r
    using that by simp
  ultimately show "list_all result_valid rs"
    using run_configuration_valid unfolding list_all_iff by (metis (no_types, lifting) imageE list.set_map)
qed


subsection \<open>The file reads back\<close>

text \<open>A value that JSON can hold as it is.\<close>

definition storable :: "pyval \<Rightarrow> bool" where
  "storable v = (value_ok v \<and> floats_valid v \<and> json_plain v = v)"

lemma storable_reads_back: "storable v \<Longrightarrow> json_loads (json_indent l v) = Inr v"
  unfolding storable_def by (metis json_loads_indent)

lemma map_id_iff: "map f xs = xs \<longleftrightarrow> (\<forall>x\<in>set xs. f x = x)"
  by (induction xs) auto

lemma storable_simps [simp]:
  "storable PNone" "storable (PBool b)" "storable (PInt n)" "storable (PStr s)"
  "storable (PFloat x) \<longleftrightarrow> f64_valid x"
  "storable (PList xs) \<longleftrightarrow> list_all storable xs"
  "storable (PDict d) \<longleftrightarrow> dict_ok d \<and> list_all (\<lambda>(_, v). storable v) d"
proof -
  show "storable (PList xs) \<longleftrightarrow> list_all storable xs"
    by (auto simp: storable_def list_all_iff map_id_iff)
  show "storable (PDict d) \<longleftrightarrow> dict_ok d \<and> list_all (\<lambda>(_, v). storable v) d"
    by (auto simp: storable_def list_all_iff case_prod_beta map_id_iff prod_eq_iff)
qed (simp_all add: storable_def)

lemma storable_stats [simp]: "stats_valid t \<Longrightarrow> storable (stats_dict t)"
  by (simp add: stats_dict_def stats_valid_def median_fields_def dict_ok_def)

lemma storable_result [simp]: "result_valid r \<Longrightarrow> storable (result_dict r)"
  by (auto simp: result_dict_def result_valid_def dict_ok_def list_all_iff case_prod_beta o_def)
    (simp add: median_fields_def)

lemma storable_overhead [simp]: "result_valid d \<Longrightarrow> result_valid g \<Longrightarrow> storable (overhead_dict (overhead_of d g))"
  by (simp add: overhead_dict_def overhead_of_def Let_def dict_ok_def result_valid_def stats_valid_def median_fields_def)

lemma storable_environment [simp]: "storable (PDict (environment_info P))"
  by (simp add: environment_info_def package_version_def dict_ok_def split: option.split)

lemma storable_configuration [simp]: "storable report_configuration"
  by (simp add: report_configuration_def dict_ok_def concurrency_levels_def fixed_latency_duration_seconds_def f64_valid_round)

lemma storable_report:
  "storable (PDict [(''environment'', a), (''configuration'', b), (''direct'', c), (''gateway'', d),
     (''denied_request_latency'', e), (''gateway_overhead'', f), (''policy_evaluation_latency'', g)]) \<longleftrightarrow>
   list_all storable [a, b, c, d, e, f, g]"
  by (simp add: dict_ok_def)

text \<open>The latencies that are read from the log are proper floats, whoever wrote it.\<close>

lemma read_latencies_valid: "read_latencies ls = Inr vs \<Longrightarrow> list_all floats_valid vs"
proof (induction ls arbitrary: vs)
  case (Cons l ls)
  have "floats_valid v" if "json_loads l = Inr d" "record_get d k = Inr v" for d k v
    using json_loads_floats [OF that(1)] that(2)
    by (cases d) (auto simp: record_get_def dict_get_or_def list_all_iff split: option.splits dest!: dict_get_mem)
  then show ?case using Cons by (auto simp: map_sum_Inr split: sum.splits if_splits)
qed simp

lemma latency_stats_storable:
  assumes "latency_stats ls = Inr d" "list_all f64_valid ls"
  shows "storable (PDict d)" "\<exists>n. dict_get d ''sample_count'' = Some (PInt n) \<and>
    (n \<noteq> 0 \<longrightarrow> (\<forall>k\<in>{''p50_ms'', ''p95_ms'', ''p99_ms''}. \<exists>x. dict_get d k = Some (PFloat x)))"
proof -
  have "list_all f64_valid (sort ls)" using assms(2) by (simp add: list_all_iff)
  note valid = percentile_valid [OF this]
  show "storable (PDict d)"
    using assms(1) by (auto simp: latency_stats_def Let_def dict_ok_def valid split: if_splits sum.splits)
  show "\<exists>n. dict_get d ''sample_count'' = Some (PInt n) \<and>
      (n \<noteq> 0 \<longrightarrow> (\<forall>k\<in>{''p50_ms'', ''p95_ms'', ''p99_ms''}. \<exists>x. dict_get d k = Some (PFloat x)))"
    using assms(1) by (auto simp: latency_stats_def Let_def split: if_splits sum.splits)
qed

lemma policy_latencies:
  fixes contents :: "string option"
  assumes "policy_latency_stats_from_audit_log contents = Inr d"
  obtains ls where "latency_stats ls = Inr d" "list_all f64_valid ls"
proof -
  obtain vs where vs: "list_all floats_valid vs" "latency_stats (List.map_filter float_of vs) = Inr d"
    using assms read_latencies_valid that [of "[]"]
    by (cases contents) (auto simp: policy_latency_stats_from_audit_log_def split: sum.splits if_splits)
  have "list_all f64_valid (List.map_filter float_of vs)"
    using vs(1) by (auto simp: list_all_iff List.map_filter_def float_of_def split: pyval.splits)
  with vs(2) show ?thesis by (rule that)
qed

text \<open>A row of the overhead table and the line of the policy latencies always have the fields they print.\<close>

definition overhead_text :: "overhead_row \<Rightarrow> string" where
  "overhead_text r =
     concat
       [''  '', pad_right 24 (ov_tool r), '' c='', pad_left 4 (int_str (ov_concurrency r)),
        ''  direct='', pad_left 7 (fixed_text [] 2 (ov_direct_p50_ms r)),
        ''ms  gateway='', pad_left 7 (fixed_text [] 2 (ov_gateway_p50_ms r)),
        ''ms  overhead='', pad_left 7 (fixed_text ''+'' 2 (ov_absolute_overhead_ms r)),
        ''ms ('', pad_left 6 (fixed_text ''+'' 1 (ov_percentage_overhead r)), ''%)'']"

lemma overhead_fields:
  "subscript (overhead_dict r) ''tool'' = Inr (PStr (ov_tool r))"
  "subscript (overhead_dict r) ''concurrency'' = Inr (PInt (ov_concurrency r))"
  "subscript (overhead_dict r) ''direct_p50_ms'' = Inr (PFloat (ov_direct_p50_ms r))"
  "subscript (overhead_dict r) ''gateway_p50_ms'' = Inr (PFloat (ov_gateway_p50_ms r))"
  "subscript (overhead_dict r) ''absolute_overhead_ms'' = Inr (PFloat (ov_absolute_overhead_ms r))"
  "subscript (overhead_dict r) ''percentage_overhead'' = Inr (PFloat (ov_percentage_overhead r))"
  by (simp_all add: subscript_def overhead_dict_def)

lemma format_simps:
  "and_then (Inr (PStr s)) (format_s w) = Inr (pad_right w s)"
  "and_then (Inr (PInt n)) (format_d w) = Inr (pad_left w (int_str n))"
  "and_then (Inr (PFloat x)) (format_f lead w d) = Inr (pad_left w (fixed_text lead d x))"
  "and_then (Inr (PInt n)) format_plain = Inr (int_str n)"
  by (simp_all add: and_then_def format_s_def format_d_def format_f_def format_plain_def)

lemma gather_map_Inr [simp]: "gather (map (\<lambda>x. Inr (f x)) xs) = Inr (map f xs)"
  by (induction xs) simp_all

lemma fstring_Inr: "parts = map Inr ts \<Longrightarrow> fstring parts = Inr (concat ts)"
  by (simp add: fstring_def)

lemma fstring_returns: "\<forall>p\<in>set parts. \<exists>t. p = Inr t \<Longrightarrow> \<exists>l. fstring parts = Inr l"
  using gather_returns [of parts] by (auto simp: fstring_def)

lemma overhead_line_row [simp]: "overhead_line (overhead_dict r) = Inr (overhead_text r)"
  unfolding overhead_line_def overhead_text_def overhead_fields format_simps
  by (rule fstring_Inr) (simp only: list.map)

lemma policy_line_returns:
  assumes "latency_stats ls = Inr d" "list_all f64_valid ls" "dict_get d ''sample_count'' = Some n" "truthy n"
  shows "\<exists>l. policy_line (PDict d) = Inr l"
proof -
  obtain i where i: "dict_get d ''sample_count'' = Some (PInt i)"
    and "i \<noteq> 0 \<longrightarrow> (\<forall>k\<in>{''p50_ms'', ''p95_ms'', ''p99_ms''}. \<exists>x. dict_get d k = Some (PFloat x))"
    using latency_stats_storable(2) [OF assms(1,2)] by blast
  moreover have "i \<noteq> 0" using i assms(3,4) by (simp add: truthy_def)
  ultimately have "\<exists>x. dict_get d k = Some (PFloat x)" if "k \<in> {''p50_ms'', ''p95_ms'', ''p99_ms''}" for k
    using that by blast
  from this [of "''p50_ms''"] this [of "''p95_ms''"] this [of "''p99_ms''"] obtain p50 p95 p99 where
    "subscript (PDict d) ''p50_ms'' = Inr (PFloat p50)" "subscript (PDict d) ''p95_ms'' = Inr (PFloat p95)"
    "subscript (PDict d) ''p99_ms'' = Inr (PFloat p99)"
    by (auto simp: subscript_def)
  moreover have "subscript (PDict d) ''sample_count'' = Inr (PInt i)"
    using i by (simp add: subscript_def)
  ultimately show ?thesis
    unfolding policy_line_def by (intro fstring_returns) (simp only: format_simps, simp)
qed

lemma policy_lines_return:
  assumes "latency_stats ls = Inr d" "list_all f64_valid ls" "dict_get d ''sample_count'' = Some n"
  shows "\<exists>policy. length policy \<le> 1 \<and>
    (if truthy n then map_sum id (\<lambda>l. [l]) (policy_line (PDict d)) else Inr []) = Inr policy"
proof (cases "truthy n")
  case True
  then obtain l where "policy_line (PDict d) = Inr l" using policy_line_returns [OF assms] by blast
  then show ?thesis using True by (intro exI [of _ "[l]"]) simp
qed simp



end
