(* ===== verification/LoopTrail.thy ===== *)
theory LoopTrail
  imports LoopProperties AuditReport
begin

text \<open>
  The audit file of a concurrent run, read back as text: the lines of LoopProperties are those of
  records whose latencies are floats that print and parse exactly, so \<open>splitlines\<close> and \<open>json.loads\<close>
  give one payload for each finished call.
\<close>

subsection \<open>Latencies\<close>

lemma f64_valid_elapsed [simp]: "f64_valid (elapsed_ms now t)"
  by (simp add: elapsed_ms_def)

definition timed_locals :: "call_locals \<Rightarrow> bool" where
  "timed_locals l \<longleftrightarrow> latency_valid (lo_policy_latency_ms l) \<and> latency_valid (lo_upstream_latency_ms l)"

definition timed_record :: "audit_record \<Rightarrow> bool" where
  "timed_record r \<longleftrightarrow> latency_valid (ar_policy_latency_ms r) \<and> latency_valid (ar_upstream_latency_ms r) \<and>
     f64_valid (ar_total_latency_ms r)"

definition timed :: "point \<times> call_state \<Rightarrow> bool" where
  "timed r \<longleftrightarrow> timed_locals (st_lo (snd r)) \<and> (\<forall>em. emission_of (fst r) = Some em \<longrightarrow> timed_record (em_record em))"

lemma timed_emit: "timed_locals (st_lo s) \<Longrightarrow> timed_record (emit_record E X s out a c)"
  by (simp add: timed_locals_def timed_record_def emit_record_def make_record_def)

lemma timed_stop [simp]:
  "timed_locals (st_lo s) \<Longrightarrow> timed_locals (st_lo (snd (stop_policy_timer E t s)))"
  "timed_locals (st_lo s) \<Longrightarrow> timed_locals (st_lo (snd (stop_upstream_timer E t s)))"
  by (auto simp: stop_policy_timer_def stop_upstream_timer_def handler_simps timed_locals_def latency_valid_def)

lemma timed_local [simp]:
  "timed_locals (st_lo (count_reading s)) = timed_locals (st_lo s)"
  "timed_locals (st_lo (count_write s)) = timed_locals (st_lo s)"
  "timed_locals (st_lo (leave_slot h X s)) = timed_locals (st_lo s)"
  "timed_locals (l\<lparr>lo_readings := n\<rparr>) = timed_locals l" "timed_locals (l\<lparr>lo_audit_emitted := b\<rparr>) = timed_locals l"
  "timed_locals (l\<lparr>lo_schema_result := r\<rparr>) = timed_locals l" "timed_locals (l\<lparr>lo_policy_result := r\<rparr>) = timed_locals l"
  "timed_locals (l\<lparr>lo_concurrency_result := r\<rparr>) = timed_locals l" "timed_locals (l\<lparr>lo_rate_limit_result := r\<rparr>) = timed_locals l"
  "timed_locals (l\<lparr>lo_matched_rule := m\<rparr>) = timed_locals l" "timed_locals (l\<lparr>lo_writes := n\<rparr>) = timed_locals l"
  "timed_locals initial_locals"
  by (simp_all add: count_reading_def count_write_def leave_slot_def timed_locals_def initial_locals_def latency_valid_def)

lemma st_lo_with_local [simp]: "st_lo (with_local f s) = f (st_lo s)"
  by (simp add: set_local_def case_prod_beta)

lemma timed_escape: "timed_locals (st_lo s) \<Longrightarrow> timed (escape_to E X e s)"
  by (auto simp: timed_def escape_to_def Let_def timed_emit split: sum.split)

lemma timed_over: "timed_locals (st_lo s) \<Longrightarrow> timed (emission_over E X em res s)"
  by (auto simp: emission_over_def Let_def timed_def [of "(Finished r, s)" for r s] intro!: timed_escape split: sum.split)

lemma timed_start: "timed_locals (st_lo s) \<Longrightarrow> timed (start_emission E X slot after out a c s)"
  by (auto simp: start_emission_def Let_def timed_def [of "(AtLog em, s)" for em s] timed_emit intro!: timed_over split: sum.split)

lemma timed_answer: "timed_locals (st_lo s) \<Longrightarrow> timed (answer E X slot out a c res s)"
  unfolding answer_def by (rule timed_start)

lemma timed_forward: "timed_locals (st_lo s) \<Longrightarrow> timed (seg_forward E X s)"
  by (auto simp: seg_forward_def Let_def timed_def [of "(Calling t, s)" for t s] intro!: timed_answer split: prod.split)

lemma timed_tools: "timed_locals (st_lo s) \<Longrightarrow> timed (seg_tools C E X tp tools s)"
  by (auto simp: seg_tools_def seg_deny_def seg_arguments_def Let_def
      intro!: timed_answer timed_escape timed_forward split: option.split sum.split)

lemma timed_begin:
  assumes "timed_locals (st_lo s)"
  shows "timed (seg_begin C E X s)"
proof -
  obtain res s1 where s1: "acquire_token E X s = (res, s1)" by (cases "acquire_token E X s")
  then have "timed_locals (st_lo s1)" using assms by (auto simp: acquire_token_def split: prod.splits)
  then show ?thesis
    by (auto simp: seg_begin_def seg_deny_def s1 Let_def timed_def [of "(AtCache t, s)" for t s]
        intro!: timed_answer timed_escape split: option.split sum.split)
qed

lemma timed_reply: "timed_locals (st_lo s) \<Longrightarrow> timed (seg_reply E X t reply s)"
  by (auto simp: seg_reply_def Let_def intro!: timed_answer timed_start timed_escape split: sum.split exn.split)

definition timed_task :: "task \<Rightarrow> bool" where
  "timed_task t \<longleftrightarrow> timed_locals (tk_locals t) \<and> (\<forall>em. emission_of (tk_point t) = Some em \<longrightarrow> timed_record (em_record em))"

lemma timedD: "timed r \<Longrightarrow> timed_task (t\<lparr>tk_locals := st_lo (snd r), tk_point := fst r\<rparr>)"
  by (simp add: timed_def timed_task_def)

lemma step_timed:
  assumes "task_step C sig t sh = Some (t', sh')" "timed_task t"
  shows "timed_task t'"
proof -
  have l: "timed_locals (tk_locals t)" using assms(2) by (simp add: timed_task_def)
  show ?thesis
    using assms(1)
    by (cases rule: task_step_cases)
      (use l assms(2) in \<open>auto simp: Let_def timed_task_def [of "t\<lparr>tk_point := pt\<rparr>" for pt] timed_task_def [of t]
        intro!: timedD timed_begin timed_tools timed_escape timed_reply timed_over\<close>)
qed


subsection \<open>Answers\<close>

text \<open>Every answer, also one that waits for its record to be written, carries the call's correlation ID.\<close>

definition named_result :: "string \<Rightarrow> call_result res \<Rightarrow> bool" where
  "named_result c res \<longleftrightarrow> (\<forall>r. res = Inr r \<longrightarrow> (\<exists>x. r = finalize c x))"

definition named_point :: "string \<Rightarrow> point \<Rightarrow> bool" where
  "named_point c pt \<longleftrightarrow>
     (\<forall>res. pt = Finished res \<longrightarrow> named_result c res) \<and>
     (\<forall>em. emission_of pt = Some em \<longrightarrow> named_result c (em_after em))"

abbreviation names_answer :: "call_env \<Rightarrow> point \<times> call_state \<Rightarrow> bool" where
  "names_answer E r \<equiv> named_point (ce_correlation_id E) (fst r)"

lemma named_Inl [simp]: "named_result c (Inl e)"
  by (simp add: named_result_def)

lemma named_finalize [simp]: "named_result c (Inr (finalize c x))"
  by (auto simp: named_result_def)

lemma named_points [simp]:
  "named_point c (Finished res) \<longleftrightarrow> named_result c res" "named_point c (AtLog em) \<longleftrightarrow> named_result c (em_after em)"
  "named_point c (Writing em) \<longleftrightarrow> named_result c (em_after em)" "named_point c (AtCache tp)" "named_point c (Calling t)"
  "named_point c (Fetching tp)" "named_point c Ready"
  by (auto simp: named_point_def)

lemma named_escape: "names_answer E (escape_to E X e s)"
  by (auto simp: escape_to_def Let_def split: sum.split)

lemma named_over: "named_result (ce_correlation_id E) (em_after em) \<Longrightarrow> names_answer E (emission_over E X em res s)"
  by (auto simp: emission_over_def Let_def named_escape split: sum.split)

lemma named_start: "named_result (ce_correlation_id E) after \<Longrightarrow> names_answer E (start_emission E X slot after out a c s)"
  by (auto simp: start_emission_def Let_def named_over split: sum.split)

lemma named_answer: "names_answer E (answer E X slot out a c res s)"
  unfolding answer_def by (rule named_start) simp

lemma named_tools: "names_answer E (seg_tools C E X tp tools s)"
  by (auto simp: seg_tools_def seg_deny_def seg_arguments_def seg_forward_def Let_def named_answer named_escape
      split: option.split sum.split prod.split)

lemma named_begin: "names_answer E (seg_begin C E X s)"
  by (auto simp: seg_begin_def seg_deny_def Let_def named_answer named_escape split: option.split sum.split prod.split)

lemma named_reply: "names_answer E (seg_reply E X t reply s)"
  by (auto simp: seg_reply_def Let_def named_answer named_start named_escape split: sum.split exn.split)

definition named_task :: "task \<Rightarrow> bool" where
  "named_task t \<longleftrightarrow> named_point (ce_correlation_id (tk_env t)) (tk_point t)"

lemma step_named:
  assumes "task_step C sig t sh = Some (t', sh')" "named_task t"
  shows "named_task t'"
  using assms(1)
  by (cases rule: task_step_cases)
    (use assms(2) in \<open>auto simp: Let_def named_task_def named_begin named_tools named_escape named_reply named_over,
      simp_all add: named_point_def\<close>)

lemma run_named:
  assumes "loop_run C ls (start_loop calls listers (g, cl)) s"
  shows "list_all named_task (fst s)"
  using assms
proof (induction rule: loop_induct)
  case start
  then show ?case
    by (auto simp: start_loop_def new_task_def new_list_def list_all_iff named_task_def named_point_def)
next
  case (step ls ts sh i sig t sh')
  then have "named_task t" by (auto simp: list_all_length intro: step_named [OF step(5)])
  with step(1) show ?case
    by (auto simp: list_all_iff dest!: set_update_subset_insert [THEN subsetD])
qed

text \<open>The ID that a client reads off an answer.\<close>

definition answer_id :: "call_result \<Rightarrow> string option" where
  "answer_id r =
     (case cr_meta r of
        None \<Rightarrow> None
      | Some m \<Rightarrow> (case dict_get m ''correlation_id'' of Some (PStr s) \<Rightarrow> Some s | _ \<Rightarrow> None))"

lemma answer_id_finalize: "answer_id (finalize c r) = Some c"
  by (simp add: answer_id_def finalize_def)

lemma answer_id_run:
  assumes "loop_run C ls (start_loop calls listers (g, cl)) (ts, sh)" "t \<in> set ts" "tk_point t = Finished (Inr r)"
  shows "answer_id r = Some (ce_correlation_id (tk_env t))"
proof -
  have "named_task t" using run_named [OF assms(1)] assms(2) by (simp add: list_all_iff)
  then show ?thesis using assms(3) answer_id_finalize by (auto simp: named_task_def named_result_def)
qed


subsection \<open>The file\<close>

text \<open>Arguments as a JSON decoder makes them: dictionaries with distinct keys, and binary64 floats.\<close>

definition arguments_valid :: "call_params \<Rightarrow> bool" where
  "arguments_valid params \<longleftrightarrow> value_ok (PDict (call_arguments params)) \<and> floats_valid (PDict (call_arguments params))"

lemma record_valid_iff:
  "record_valid r \<longleftrightarrow> value_ok (PDict (ar_arguments r)) \<and> floats_valid (PDict (ar_arguments r)) \<and> timed_record r"
  unfolding record_valid_def timed_record_def by blast

lemma trail_timed:
  assumes "loop_run C ls (start_loop calls listers (g, cl)) s" "\<forall>(i, sig) \<in> set ls. undisturbed sig"
    and "known_mode (al_redaction_mode (gw_audit g))"
  shows "list_all timed_task (fst s) \<and> (\<exists>ws. trail_of (gw_audit g) ws s \<and> (\<forall>w\<in>set ws. timed_record (snd w)))"
  using assms(1,2)
proof (induction rule: loop_induct)
  case start
  have "trail_of (gw_audit g) [] (start_loop calls listers (g, cl))"
    by (auto simp: trail_of_def start_loop_def audit_lines_def new_task_def new_list_def nth_append recorded_def)
  moreover have "list_all timed_task (fst (start_loop calls listers (g, cl)))"
    by (auto simp: start_loop_def new_task_def new_list_def list_all_iff timed_task_def)
  ultimately show ?case by fastforce
next
  case (step ls ts sh i sig t sh')
  then obtain ws where ws: "trail_of (gw_audit g) ws (ts, sh)" "\<forall>w\<in>set ws. timed_record (snd w)"
    and tt: "list_all timed_task ts" by auto
  have ny: "not_yet (ts ! i)" "undisturbed sig"
    using trail_run [OF step(2) _ assms(3)] step(3,6) by (auto simp: list_all_length)
  have ti: "timed_task (ts ! i)" using tt step(3) by (simp add: list_all_length)
  obtain ws' where ws': "trail_of (gw_audit g) ws' (ts[i := t], sh')"
    "ws' = ws \<or> (\<exists>em. tk_point (ts ! i) = Writing em \<and> ws' = ws @ [(i, em_record em)])"
    using trail_step [OF ws(1) step(3,4) ny step(5) assms(3)] by blast
  have "\<forall>w\<in>set ws'. timed_record (snd w)"
    using ws'(2) ws(2) ti by (auto simp: timed_task_def)
  moreover have "list_all timed_task (ts[i := t])"
    using tt step_timed [OF step(5) ti] by (auto simp: list_all_iff dest!: set_update_subset_insert [THEN subsetD])
  ultimately show ?case using ws'(1) by auto
qed

lemma audit_lines_concat:
  "audit_lines mode ws = concat (map (\<lambda>l. l @ [CHR 0x0A]) (map (audit_line mode) (map snd ws)))"
  by (induction ws) (auto simp: audit_lines_def)

text \<open>What a reader gets of the log that a run has left, if it was empty before.\<close>

lemma trail_reads_back:
  assumes "loop_run C ls (start_loop calls listers (g, cl)) (ts, sh)" "\<forall>(i, sig) \<in> set ls. undisturbed sig"
    and "gw_audit g = make_logger mode" "known_mode mode" "\<forall>c\<in>set calls. arguments_valid (snd c)"
  shows "\<exists>ws. map json_loads (py_splitlines (universal_newlines (al_file (gw_audit (sh_gateway sh))))) =
      map (\<lambda>w. Inr (audit_entry mode (snd w))) ws \<and>
    distinct (map fst ws) \<and> (\<forall>i. i \<in> fst ` set ws \<longleftrightarrow> i < length ts \<and> recorded (ts ! i)) \<and>
    (\<forall>w \<in> set ws. fst w < length calls \<and> record_of (ts ! fst w) (snd w))"
proof -
  have lg: "al_redaction_mode (gw_audit g) = mode" "al_file (gw_audit g) = []"
    using assms(3) by (simp_all add: make_logger_def)
  obtain ws where ws: "trail_of (gw_audit g) ws (ts, sh)" and timed: "\<forall>w\<in>set ws. timed_record (snd w)"
    using trail_timed [OF assms(1,2)] assms(4) lg(1) by auto
  have med: "mediated C calls g ls (ts, sh)" by (rule mediated_run [OF assms(1)])
  have call: "fst w < length calls \<and> record_valid (snd w)" if w: "w \<in> set ws" for w
  proof -
    have "fst w < length ts" "recorded (ts ! fst w)" "record_of (ts ! fst w) (snd w)"
      using ws w by (auto simp: trail_of_def)
    moreover from this have "\<not> list_point (tk_point (ts ! fst w))" by (auto simp: recorded_def)
    ultimately have n: "fst w < length calls" "ar_arguments (snd w) = call_arguments (tk_params (ts ! fst w))"
      using med by (auto simp: mediated_def record_of_def describes_def)
    then have "tk_params (ts ! fst w) = snd (calls ! fst w)"
      using med unfolding mediated_def fst_conv snd_conv by (metis snd_conv)
    then show ?thesis using n timed w assms(5) by (auto simp: record_valid_iff arguments_valid_def)
  qed
  have content: "al_file (gw_audit (sh_gateway sh)) =
      concat (map (\<lambda>l. l @ [CHR 0x0A]) (map (audit_line mode) (map snd ws)))"
    using ws by (simp add: trail_of_def lg audit_lines_concat)
  have "map json_loads (map (audit_line mode) (map snd ws)) = map (\<lambda>w. Inr (audit_entry mode (snd w))) ws"
    using call audit_line_reads [OF assms(4)] by simp
  then have "map json_loads (py_splitlines (universal_newlines (al_file (gw_audit (sh_gateway sh))))) =
      map (\<lambda>w. Inr (audit_entry mode (snd w))) ws"
    unfolding content audit_splitlines .
  moreover have "distinct (map fst ws)" "\<forall>i. i \<in> fst ` set ws \<longleftrightarrow> i < length ts \<and> recorded (ts ! i)"
    "\<forall>w\<in>set ws. record_of (ts ! fst w) (snd w)"
    using ws by (simp_all add: trail_of_def)
  ultimately show ?thesis using call by blast
qed

end
