(* ===== verification/CorrelationId.thy ===== *)
theory CorrelationId
  imports JsonReader "HOL-Library.Word"
begin

unbundle bit_operations_syntax

text \<open>
  Correlation IDs: \<open>new_correlation_id\<close> of sentinelmcp/telemetry/audit.py, which is \<open>uuid.uuid4().hex\<close>.
  \<open>uuid4\<close> draws 16 bytes, the word \<open>r\<close> here, and sets the four version bits and the two variant bits;
  \<open>hex\<close> prints the 128 bits as 32 digits.
\<close>

definition uuid4_int :: "128 word \<Rightarrow> 128 word" where
  "uuid4_int r =
     (let a = (r AND NOT (push_bit 48 0xC000)) OR push_bit 48 0x8000
      in (a AND NOT (push_bit 64 0xF000)) OR push_bit 76 4)"

definition nibble :: "128 word \<Rightarrow> nat \<Rightarrow> nat" where
  "nibble w k = unat (take_bit 4 (drop_bit (4 * k) w))"

definition uuid_hex :: "128 word \<Rightarrow> string" where
  "uuid_hex w = map (\<lambda>k. hex_digit (nibble w k)) (rev [0..<32])"

definition new_correlation_id :: "128 word \<Rightarrow> string" where
  "new_correlation_id r = uuid_hex (uuid4_int r)"

lemma new_correlation_id_example:
  "new_correlation_id 0x00112233445566778899AABBCCDDEEFF = ''00112233445546778899aabbccddeeff''"
  "new_correlation_id 0 = ''00000000000040008000000000000000''"
  "new_correlation_id 1 = ''00000000000040008000000000000001''"
  by code_simp+

text \<open>The bits that are drawn.\<close>

definition free_bit :: "nat \<Rightarrow> bool" where
  "free_bit n \<longleftrightarrow> n < 128 \<and> n \<notin> {62, 63, 76, 77, 78, 79}"

lemma uuid_masks:
  "push_bit 48 0xC000 = push_bit 62 (mask 2 :: 128 word)" "push_bit 48 0x8000 = push_bit 63 (1 :: 128 word)"
  "push_bit 64 0xF000 = push_bit 76 (mask 4 :: 128 word)" "push_bit 76 4 = push_bit 78 (1 :: 128 word)"
  by (simp_all add: mask_eq_exp_minus_1)

lemma bit_uuid4:
  assumes "n < 128"
  shows "bit (uuid4_int r) n \<longleftrightarrow> (if free_bit n then bit r n else n = 63 \<or> n = 78)"
proof -
  have drawn: "bit (push_bit 62 (mask 2 :: 128 word)) n \<longleftrightarrow> n = 62 \<or> n = 63"
    "bit (push_bit 76 (mask 4 :: 128 word)) n \<longleftrightarrow> n = 76 \<or> n = 77 \<or> n = 78 \<or> n = 79"
    using assms by (auto simp: bit_push_bit_iff bit_mask_iff)
  have one: "m < 128 \<Longrightarrow> bit (push_bit m (1 :: 128 word)) n \<longleftrightarrow> n = m" for m
    by (subst bit_push_bit_iff) (auto simp: bit_1_iff)
  have "63 < (128 :: nat)" "78 < (128 :: nat)" by simp_all
  note set_bits = one [OF this(1)] one [OF this(2)]
  show ?thesis
    unfolding uuid4_int_def uuid_masks Let_def bit_or_iff bit_and_iff bit_not_iff drawn set_bits free_bit_def
    using assms by auto
qed

lemma nibble_lt: "nibble w k < 16"
proof -
  have "unat (take_bit 4 (drop_bit (4 * k) w)) = take_bit 4 (unat (drop_bit (4 * k) w))"
    by (simp add: unsigned_take_bit_eq)
  then show ?thesis by (simp add: nibble_def take_bit_nat_less_exp [of 4, simplified])
qed

lemma bit_nibble: "j < 4 \<Longrightarrow> bit (nibble w k) j \<longleftrightarrow> bit w (4 * k + j)"
  by (simp add: nibble_def unsigned_take_bit_eq bit_take_bit_iff bit_unsigned_iff bit_drop_bit_eq o_def)

lemma hex_digit_inj: "a < 16 \<Longrightarrow> b < 16 \<Longrightarrow> hex_digit a = hex_digit b \<longleftrightarrow> a = b"
  by (metis hex_value_digit option.inject)

lemma uuid_hex_inj: "uuid_hex w = uuid_hex v \<longleftrightarrow> w = v"
proof
  assume h: "uuid_hex w = uuid_hex v"
  have nib: "nibble w k = nibble v k" if "k < 32" for k
  proof -
    have "hex_digit (nibble w k) = hex_digit (nibble v k)" using h that by (simp add: uuid_hex_def)
    then show ?thesis by (simp only: hex_digit_inj nibble_lt)
  qed
  show "w = v"
  proof (rule bit_word_eqI)
    fix n assume "n < LENGTH(128)"
    then have "n div 4 < 32" "4 * (n div 4) + n mod 4 = n" by simp_all
    then show "bit w n \<longleftrightarrow> bit v n"
      using nib bit_nibble [of "n mod 4" _ "n div 4"] by (metis mod_less_divisor zero_less_numeral)
  qed
qed simp

lemma new_correlation_id_eq:
  "new_correlation_id r = new_correlation_id s \<longleftrightarrow> (\<forall>n. free_bit n \<longrightarrow> bit r n = bit s n)"
  by (auto simp: new_correlation_id_def uuid_hex_inj bit_eq_iff bit_uuid4 free_bit_def dest: bit_imp_le_length)

text \<open>
  A correlation ID is 32 lower-case hexadecimal digits, and two of them are equal exactly if the
  draws agree in all of the 122 bits that \<open>uuid4\<close> keeps.
\<close>

lemma correlation_ids_identify:
  "length (new_correlation_id r) = 32 \<and> set (new_correlation_id r) \<subseteq> set ''0123456789abcdef'' \<and>
    (new_correlation_id r = new_correlation_id s \<longleftrightarrow> (\<forall>n. free_bit n \<longrightarrow> bit r n = bit s n)) \<and>
    card {n. free_bit n} = 122"
proof -
  have "hex_digit a \<in> set ''0123456789abcdef''" if "a < 16" for a
  proof -
    have "\<forall>a<16. hex_digit a \<in> set ''0123456789abcdef''" by code_simp
    with that show ?thesis by blast
  qed
  then have "set (new_correlation_id r) \<subseteq> set ''0123456789abcdef''"
    using nibble_lt by (auto simp: new_correlation_id_def uuid_hex_def simp del: list.set)
  moreover have "{n. free_bit n} = {..<128} - {62, 63, 76, 77, 78, 79}" by (auto simp: free_bit_def)
  moreover have "card ({..<128} - {62, 63, 76, 77, 78, 79 :: nat}) = 122" by (simp add: card_Diff_subset)
  ultimately show ?thesis unfolding new_correlation_id_eq by (simp add: new_correlation_id_def uuid_hex_def)
qed

end
