(* ===== verification/GatewayLoop.thy ===== *)
theory GatewayLoop
  imports CommandLine LoopRate LoopTrail CorrelationId
begin

text \<open>
  The started gateway under concurrent HTTP traffic: from \<open>sys.argv\<close> and the requests on the wire to
  what the upstream sees. Each request goes through the middleware, which either answers it or hands
  it on with its principal in the context; what is handed on is a task of the event loop. The
  theorems are about the whole: which requests reach the upstream, and how many.
\<close>

subsection \<open>Requests\<close>

text \<open>
  A request with a \<open>tools/call\<close>, or with a \<open>tools/list\<close> (no parameters), and the outside of its
  handler. The protocol layer behind the middleware is the SDK's; what is used of it is that it starts
  one handler for the request, in the request's context.
\<close>

record agent_request =
  hr_scope :: scope
  hr_env :: call_env
  hr_params :: "call_params option"

record traffic =
  tf_calls :: "(call_env \<times> call_params) list"
  tf_lists :: "call_env list"
  tf_refused :: "response list"

definition no_traffic :: traffic where
  "no_traffic = \<lparr>tf_calls = [], tf_lists = [], tf_refused = []\<rparr>"

definition start_handler :: "agent_request \<Rightarrow> traffic app" where
  "start_handler q sc = (\<lambda>(w, var).
     let E = (hr_env q)\<lparr>ce_principal := var\<rparr>
     in (Inr (),
         (case hr_params q of
            None \<Rightarrow> w\<lparr>tf_lists := tf_lists w @ [E]\<rparr>
          | Some params \<Rightarrow> w\<lparr>tf_calls := tf_calls w @ [(E, params)]\<rparr>), var))"

definition refuse :: "response \<Rightarrow> traffic \<Rightarrow> unit res \<times> traffic" where
  "refuse resp w = (Inr (), w\<lparr>tf_refused := tf_refused w @ [resp]\<rparr>)"

definition arrive :: "host_env \<Rightarrow> gateway_app \<Rightarrow> int \<Rightarrow> agent_request \<Rightarrow> traffic \<Rightarrow> traffic" where
  "arrive H A invalid_request q w =
     fst (snd (middleware_call (resolve (he_sha256 H) (ga_resolver A)) refuse invalid_request
       (start_handler q) (hr_scope q) (w, None)))"

definition arrivals :: "host_env \<Rightarrow> gateway_app \<Rightarrow> int \<Rightarrow> agent_request list \<Rightarrow> traffic" where
  "arrivals H A invalid_request qs = fold (arrive H A invalid_request) qs no_traffic"

text \<open>The event loop with a handler for each request that the middleware let through.\<close>

definition serve_traffic :: "host_env \<Rightarrow> launch \<Rightarrow> int \<Rightarrow> agent_request list \<Rightarrow> loop_state" where
  "serve_traffic H L invalid_request qs =
     (let w = arrivals H (la_app L) invalid_request qs
      in start_loop (tf_calls w) (tf_lists w) (ga_state (la_app L)))"


subsection \<open>Who gets through\<close>

definition context_of :: "host_env \<Rightarrow> gateway_app \<Rightarrow> agent_request \<Rightarrow> string option" where
  "context_of H A q =
     (if sc_type (hr_scope q) = ''http'' then resolve (he_sha256 H) (ga_resolver A) (authorization_values (hr_scope q))
      else None)"

text \<open>The call that a request becomes, if it is one and is let through.\<close>

definition call_from :: "host_env \<Rightarrow> gateway_app \<Rightarrow> agent_request \<Rightarrow> (call_env \<times> call_params) option" where
  "call_from H A q =
     (if sc_type (hr_scope q) = ''http'' \<and> context_of H A q = None then None
      else map_option (\<lambda>params. ((hr_env q)\<lparr>ce_principal := context_of H A q\<rparr>, params)) (hr_params q))"

lemma arrive_calls: "tf_calls (arrive H A ir q w) = tf_calls w @ (case call_from H A q of None \<Rightarrow> [] | Some c \<Rightarrow> [c])"
  by (auto simp: arrive_def middleware_call_def start_handler_def refuse_def call_from_def context_of_def Let_def
      split: option.split)

lemma arrivals_calls: "tf_calls (arrivals H A ir qs) = List.map_filter (call_from H A) qs"
proof -
  have "tf_calls (fold (arrive H A ir) qs w) = tf_calls w @ List.map_filter (call_from H A) qs" for w
    by (induction qs arbitrary: w) (simp_all add: arrive_calls map_filter_simps split: option.split)
  then show ?thesis by (simp add: arrivals_def no_traffic_def)
qed

text \<open>The requests behind the calls, by their positions.\<close>

definition callers :: "host_env \<Rightarrow> gateway_app \<Rightarrow> agent_request list \<Rightarrow> nat list" where
  "callers H A qs = filter (\<lambda>i. call_from H A (qs ! i) \<noteq> None) [0..<length qs]"

lemma map_filter_positions:
  "List.map_filter f xs = map (\<lambda>i. the (f (xs ! i))) (filter (\<lambda>i. f (xs ! i) \<noteq> None) [0..<length xs])"
proof (induction xs rule: rev_induct)
  case (snoc x xs)
  have same: "map (\<lambda>i. the (f ((xs @ [x]) ! i))) (filter (\<lambda>i. f ((xs @ [x]) ! i) \<noteq> None) [0..<length xs]) =
      map (\<lambda>i. the (f (xs ! i))) (filter (\<lambda>i. f (xs ! i) \<noteq> None) [0..<length xs])"
    by (intro map_cong filter_cong) (auto simp: nth_append)
  have "List.map_filter f (xs @ [x]) = List.map_filter f xs @ (case f x of None \<Rightarrow> [] | Some y \<Rightarrow> [y])"
    by (simp add: map_filter_def split: option.split)
  with snoc same show ?case by (auto simp: nth_append split: option.split)
qed (simp add: map_filter_simps)

lemma arrivals_callers:
  "tf_calls (arrivals H A ir qs) = map (\<lambda>i. the (call_from H A (qs ! i))) (callers H A qs)"
  "distinct (callers H A qs)"
  "i \<in> set (callers H A qs) \<Longrightarrow> i < length qs \<and> call_from H A (qs ! i) \<noteq> None"
  unfolding arrivals_calls map_filter_positions callers_def by simp_all

lemma call_position:
  assumes "j < length (tf_calls (arrivals H A ir qs))"
  shows "call_from H A (qs ! (callers H A qs ! j)) = Some (tf_calls (arrivals H A ir qs) ! j)"
    "callers H A qs ! j < length qs"
  using assms arrivals_callers(3) [OF nth_mem, of j H A qs] by (auto simp: arrivals_callers(1))

lemma distinct_positions:
  assumes "distinct js" "set js \<subseteq> {..<length (tf_calls (arrivals H A ir qs))}"
  shows "distinct (map ((!) (callers H A qs)) js)"
proof -
  have "inj_on ((!) (callers H A qs)) (set js)"
    using assms(2) arrivals_callers(2) [of H A qs] by (intro inj_on_nth) (auto simp: arrivals_callers(1))
  then show ?thesis using assms(1) by (simp add: distinct_map)
qed

definition upstream_request :: "agent_request \<Rightarrow> string \<times> args" where
  "upstream_request q = (case hr_params q of None \<Rightarrow> ([], []) | Some params \<Rightarrow> (cp_name params, call_arguments params))"

lemma call_from_of: "call_from H A q = Some c \<Longrightarrow> call_of c = upstream_request q"
  by (auto simp: call_from_def call_of_def upstream_request_def split: if_splits)

text \<open>
  What must hold of a request that reaches the upstream: it carries the key of a principal of the
  policy, and the call is one that the principal may make.
\<close>

definition presents_key :: "host_env \<Rightarrow> gateway_app \<Rightarrow> scope \<Rightarrow> string \<Rightarrow> bool" where
  "presents_key H A sc prin \<longleftrightarrow>
     (\<exists>token ev. authorization_values sc = [''Bearer '' @ token] \<and> token \<noteq> [] \<and>
        (prin, ev) \<in> set (key_bindings (bc_policy (ga_bridge A))) \<and>
        key_digest (he_sha256 H) (he_getenv H) ev = Some (he_sha256 H (utf8_encode token)))"

definition authorized_request :: "host_env \<Rightarrow> gateway_app \<Rightarrow> tool list set \<Rightarrow> agent_request \<Rightarrow> bool" where
  "authorized_request H A offered q \<longleftrightarrow>
     (\<exists>prin params tools. hr_params q = Some params \<and> sc_type (hr_scope q) = ''http'' \<and>
        presents_key H A (hr_scope q) prin \<and> tools \<in> offered \<and>
        call_authorized (ga_bridge A) tools prin (cp_name params) (call_arguments params))"

lemma main_app_resolver:
  "main_app H P rf sl js fm a = Inr A \<Longrightarrow>
    make_resolver (he_sha256 H) (he_getenv H) (key_bindings (bc_policy (ga_bridge A))) = Inr (ga_resolver A)"
  using main_app_Inr by fastforce

lemma context_key:
  assumes "main_app H P rf sl js fm a = Inr A" "context_of H A q = Some prin"
  shows "presents_key H A (hr_scope q) prin" "sc_type (hr_scope q) = ''http''"
  using assms(2) resolve_built [OF main_app_resolver [OF assms(1)]]
  by (auto simp: context_of_def presents_key_def split: if_splits)

lemma call_from_authorized:
  assumes "main_app H P rf sl js fm a = Inr A" "call_from H A q = Some c" "authorized_by (ga_bridge A) offered c"
  shows "authorized_request H A offered q"
proof -
  obtain params where c: "hr_params q = Some params" "c = ((hr_env q)\<lparr>ce_principal := context_of H A q\<rparr>, params)"
    using assms(2) by (auto simp: call_from_def split: if_splits)
  then show ?thesis
    using assms(3) context_key [OF assms(1)] by (auto simp: authorized_by_def authorized_request_def)
qed

lemma gateway_main_app:
  assumes "gateway_main H P rf sl js fm argv = Inr L"
  obtains ns where "parse_args gateway_options argv = Inr ns"
    "main_app H P rf sl js fm (gateway_args ns) = Inr (la_app L)"
  using assms by (auto simp: gateway_main_def split: sum.splits)

text \<open>Traffic at a started gateway, as a run of the loop.\<close>

lemma traffic_run:
  assumes "gateway_main H P rf sl js fm argv = Inr L"
    and "loop_run (ga_bridge (la_app L)) ls (serve_traffic H L ir qs) s"
  obtains ns g cl where "parse_args gateway_options argv = Inr ns"
    "main_app H P rf sl js fm (gateway_args ns) = Inr (la_app L)"
    "loop_run (ga_bridge (la_app L)) ls (start_loop (tf_calls (arrivals H (la_app L) ir qs))
       (tf_lists (arrivals H (la_app L) ir qs)) (g, cl)) s"
    "gw_cache g = None" "gw_forwarded g = []"
    "gw_audit g = make_logger (ns_str ns ''audit_redaction_mode'')" "known_mode (ns_str ns ''audit_redaction_mode'')"
    "make_concurrency_limiter (ma_max_concurrent (gateway_args ns)) = Inr cl"
proof -
  obtain ns where ns: "parse_args gateway_options argv = Inr ns" "main_app H P rf sl js fm (gateway_args ns) = Inr (la_app L)"
    using gateway_main_app [OF assms(1)] .
  obtain g cl where st: "ga_state (la_app L) = (g, cl)" by fastforce
  show thesis
    using that [of ns g cl] ns main_app_Inr [OF ns(2)] accepted_mode [OF ns(1)] assms(2)
    by (auto simp: st serve_traffic_def Let_def gateway_args_def)
qed

text \<open>The calls that a run has forwarded, and the requests they come from.\<close>

lemma forwarded_requests:
  fixes H A ir qs
  defines "calls \<equiv> tf_calls (arrivals H A ir qs)" and "pos \<equiv> callers H A qs"
  assumes "loop_run C ls (start_loop calls listers (g, cl)) (ts, sh)" "gw_forwarded g = []"
  obtains js where "distinct js" "set js \<subseteq> {..<length calls}"
    "gw_forwarded (sh_gateway sh) = map (\<lambda>i. upstream_request (qs ! i)) (map ((!) pos) js)"
    "\<And>j. j \<in> set js \<Longrightarrow> authorized_by C (tool_lists g ls) (calls ! j)"
proof -
  from mediated_run [OF assms(3)] obtain js where js: "distinct js" "set js \<subseteq> {..<length calls}"
      "gw_forwarded (sh_gateway sh) = map (\<lambda>j. call_of (calls ! j)) js"
      "\<And>j. j \<in> set js \<Longrightarrow> authorized_by C (tool_lists g ls) (calls ! j)"
    unfolding mediated_def fst_conv snd_conv assms(4) append_Nil by blast
  have "call_of (calls ! j) = upstream_request (qs ! (pos ! j))" if "j \<in> set js" for j
    using call_from_of [OF call_position(1)] that js(2) unfolding calls_def pos_def by blast
  then show thesis using that js by simp
qed

text \<open>
  C1: From the command line and the wire to the upstream. Whatever HTTP requests reach a gateway that
  has started, and however their handlers interleave, each request causes at most one upstream call,
  with the tool name and arguments it carries; and only if it is a \<open>tools/call\<close> with exactly one
  \<open>Authorization\<close> value, \<open>Bearer\<close> and a non-empty token whose digest is that of the key that the
  environment holds for a principal of the policy, if the policy allows that principal the tool, a tool
  list that the upstream sent offers it, its schema accepts the arguments and they satisfy every
  constraint. At no time has a principal more calls in flight than the command line allows.
\<close>

theorem traffic_is_mediated:
  assumes "gateway_main H P rf sl js fm argv = Inr L"
    and "loop_run (ga_bridge (la_app L)) ls (serve_traffic H L ir qs) (ts, sh)"
  shows "\<exists>is. distinct is \<and> set is \<subseteq> {..<length qs} \<and>
    gw_forwarded (sh_gateway sh) = map (\<lambda>i. upstream_request (qs ! i)) is \<and>
    (\<forall>i\<in>set is. authorized_request H (la_app L) {tools. \<exists>j. (j, ToolsArrive (Inr tools)) \<in> set ls} (qs ! i)) \<and>
    (\<exists>ns. parse_args gateway_options argv = Inr ns \<and>
       (\<forall>p. int (calls_in_flight p ts) \<le> ma_max_concurrent (gateway_args ns)))"
proof -
  let ?A = "la_app L" and ?calls = "tf_calls (arrivals H (la_app L) ir qs)" and ?pos = "callers H (la_app L) qs"
  obtain ns g cl where ns: "parse_args gateway_options argv = Inr ns" "main_app H P rf sl js fm (gateway_args ns) = Inr ?A"
    and run: "loop_run (ga_bridge ?A) ls (start_loop ?calls (tf_lists (arrivals H ?A ir qs)) (g, cl)) (ts, sh)"
    and g: "gw_cache g = None" "gw_forwarded g = []" "make_concurrency_limiter (ma_max_concurrent (gateway_args ns)) = Inr cl"
    by (rule traffic_run [OF assms])
  have offered: "tool_lists g ls = {tools. \<exists>j. (j, ToolsArrive (Inr tools)) \<in> set ls}"
    by (simp add: tool_lists_def g(1))
  obtain js where js: "distinct js" "set js \<subseteq> {..<length ?calls}"
      "gw_forwarded (sh_gateway sh) = map (\<lambda>i. upstream_request (qs ! i)) (map ((!) ?pos) js)"
      "\<And>j. j \<in> set js \<Longrightarrow> authorized_by (ga_bridge ?A) (tool_lists g ls) (?calls ! j)"
    using forwarded_requests [OF run g(2)] by blast
  have "distinct (map ((!) ?pos) js)" by (rule distinct_positions [OF js(1,2)])
  moreover have "set (map ((!) ?pos) js) \<subseteq> {..<length qs}" using call_position(2) js(2) by auto
  moreover have "\<forall>i\<in>set (map ((!) ?pos) js).
      authorized_request H ?A {tools. \<exists>j. (j, ToolsArrive (Inr tools)) \<in> set ls} (qs ! i)"
    using call_from_authorized [OF ns(2) call_position(1) js(4)] js(2) by (auto simp: offered)
  moreover have "int (calls_in_flight p ts) \<le> ma_max_concurrent (gateway_args ns)" for p
    by (rule ceiling_run(1) [OF g(3) run])
  ultimately show ?thesis using ns(1) js(3) by blast
qed


subsection \<open>What is on record\<close>

definition record_of_request :: "host_env \<Rightarrow> gateway_app \<Rightarrow> agent_request \<Rightarrow> audit_record \<Rightarrow> bool" where
  "record_of_request H A q rec \<longleftrightarrow>
     (\<exists>prin params. hr_params q = Some params \<and> presents_key H A (hr_scope q) prin \<and>
        describes (hr_env q) (call_ctx (hr_env q) params prin) rec)"

text \<open>The \<open>tools/call\<close> requests that a handler serves for a principal.\<close>

definition served_call :: "host_env \<Rightarrow> gateway_app \<Rightarrow> agent_request \<Rightarrow> bool" where
  "served_call H A q \<longleftrightarrow> hr_params q \<noteq> None \<and> context_of H A q \<noteq> None"

lemma call_from_principal:
  "call_from H A q = Some c \<Longrightarrow> ce_principal (fst c) = context_of H A q \<and> hr_params q = Some (snd c)"
  by (auto simp: call_from_def split: if_splits)

lemma call_from_env: "call_from H A q = Some c \<Longrightarrow> fst c = (hr_env q)\<lparr>ce_principal := context_of H A q\<rparr>"
  by (auto simp: call_from_def split: if_splits)

lemma served_iff:
  assumes "j < length (tf_calls (arrivals H A ir qs))"
  shows "served_call H A (qs ! (callers H A qs ! j)) \<longleftrightarrow> ce_principal (fst (tf_calls (arrivals H A ir qs) ! j)) \<noteq> None"
  using call_from_principal [OF call_position(1) [OF assms]] by (simp add: served_call_def)

lemma served_position:
  assumes "i < length qs" "served_call H A (qs ! i)"
  shows "\<exists>j<length (callers H A qs). callers H A qs ! j = i"
proof -
  have "call_from H A (qs ! i) \<noteq> None" using assms(2) by (auto simp: served_call_def call_from_def)
  then have "i \<in> set (callers H A qs)" using assms(1) by (simp add: callers_def)
  then show ?thesis by (simp add: in_set_conv_nth)
qed


lemma handler_of_request:
  assumes "loop_run (ga_bridge (la_app L)) ls (serve_traffic H L ir qs) (ts, sh)"
    and "i < length qs" "served_call H (la_app L) (qs ! i)"
  shows "\<exists>t\<in>set ts. tk_env t = (hr_env (qs ! i))\<lparr>ce_principal := context_of H (la_app L) (qs ! i)\<rparr> \<and>
    hr_params (qs ! i) = Some (tk_params t) \<and>
    (\<forall>r. tk_point t = Finished (Inr r) \<longrightarrow> answer_id r = Some (ce_correlation_id (hr_env (qs ! i))))"
proof -
  let ?A = "la_app L"
  obtain g cl where "ga_state ?A = (g, cl)" by fastforce
  with assms(1) have run: "loop_run (ga_bridge ?A) ls (start_loop (tf_calls (arrivals H ?A ir qs)) (tf_lists (arrivals H ?A ir qs)) (g, cl)) (ts, sh)"
    by (simp add: serve_traffic_def Let_def)
  obtain j where j: "j < length (tf_calls (arrivals H ?A ir qs))" "callers H ?A qs ! j = i"
    using served_position [OF assms(2,3)] by (auto simp: arrivals_callers(1))
  have call: "j < length ts" "(tk_env (ts ! j), tk_params (ts ! j)) = tf_calls (arrivals H ?A ir qs) ! j"
    using mediated_run [OF run] j(1) by (auto simp: mediated_def)
  have from_i: "call_from H ?A (qs ! i) = Some (tk_env (ts ! j), tk_params (ts ! j))"
    using call_position(1) [OF j(1)] by (simp add: j(2) call(2))
  have "\<forall>r. tk_point (ts ! j) = Finished (Inr r) \<longrightarrow> answer_id r = Some (ce_correlation_id (tk_env (ts ! j)))"
    using answer_id_run [OF run nth_mem [OF call(1)]] by blast
  then show ?thesis
    using call_from_env [OF from_i] call_from_principal [OF from_i] call(1) by (intro bexI [of _ "ts ! j"]) auto
qed

lemma call_described:
  assumes "main_app H P rf sl js fm a = Inr A" "j < length (tf_calls (arrivals H A ir qs))"
    and "tf_calls (arrivals H A ir qs) ! j = (tk_env t, tk_params t)" "describes (tk_env t) (task_ctx t) rec"
    and "ce_principal (tk_env t) \<noteq> None"
  shows "record_of_request H A (qs ! (callers H A qs ! j)) rec"
proof -
  let ?q = "qs ! (callers H A qs ! j)"
  have from_q: "call_from H A ?q = Some (tk_env t, tk_params t)" using call_position(1) [OF assms(2)] assms(3) by simp
  obtain prin where prin: "ce_principal (tk_env t) = Some prin" using assms(5) by blast
  then have "context_of H A ?q = Some prin" using call_from_principal [OF from_q] by simp
  then have "presents_key H A (hr_scope ?q) prin" by (rule context_key(1) [OF assms(1)])
  moreover have "describes (hr_env ?q) (call_ctx (hr_env ?q) (tk_params t) prin) rec" "hr_params ?q = Some (tk_params t)"
    using assms(4) prin call_from_principal [OF from_q] call_from_env [OF from_q]
    by (simp_all add: describes_def call_ctx_def task_principal_def)
  ultimately show ?thesis unfolding record_of_request_def by blast
qed

lemma finished_call:
  assumes "loop_run C ls (start_loop calls listers (g, cl)) (ts, sh)"
    and "list_all task_finished ts" "\<forall>t\<in>set ts. \<forall>m. tk_point t \<noteq> Finished (Inl (BaseExc m))" "j < length calls"
  shows "j < length ts" "(tk_env (ts ! j), tk_params (ts ! j)) = calls ! j"
    "recorded (ts ! j) \<longleftrightarrow> ce_principal (fst (calls ! j)) \<noteq> None"
proof -
  have med: "mediated C calls g ls (ts, sh)" by (rule mediated_run [OF assms(1)])
  then show len: "j < length ts" and call: "(tk_env (ts ! j), tk_params (ts ! j)) = calls ! j"
    using assms(4) by (auto simp: mediated_def)
  have "\<not> list_point (tk_point (ts ! j))" using med assms(4) len by (simp add: mediated_def)
  then obtain r where r: "tk_point (ts ! j) = Finished r"
    using assms(2) len by (auto simp: list_all_length task_finished_iff)
  then have "\<forall>m. r \<noteq> Inl (BaseExc m)" using assms(3) nth_mem [OF len] by metis
  with r call [symmetric] show "recorded (ts ! j) \<longleftrightarrow> ce_principal (fst (calls ! j)) \<noteq> None"
    by (simp add: recorded_def)
qed

text \<open>
  What a reader gets of the audit file when all handlers have ended, none by a \<open>BaseException\<close>, and no
  audit write failed or was cancelled.
\<close>

lemma traffic_records:
  assumes "gateway_main H P rf sl js fm argv = Inr L"
    and "loop_run (ga_bridge (la_app L)) ls (serve_traffic H L ir qs) (ts, sh)"
    and "\<forall>(i, sig) \<in> set ls. undisturbed sig"
    and "\<forall>q\<in>set qs. \<forall>params. hr_params q = Some params \<longrightarrow> arguments_valid params"
    and "list_all task_finished ts" "\<forall>t\<in>set ts. \<forall>m. tk_point t \<noteq> Finished (Inl (BaseExc m))"
  obtains ns ws where "parse_args gateway_options argv = Inr ns" "known_mode (ns_str ns ''audit_redaction_mode'')"
    "map json_loads (py_splitlines (universal_newlines (al_file (gw_audit (sh_gateway sh))))) =
      map (\<lambda>w. Inr (audit_entry (ns_str ns ''audit_redaction_mode'') (snd w))) ws"
    "distinct (map fst ws)" "fst ` set ws = {i. i < length qs \<and> served_call H (la_app L) (qs ! i)}"
    "\<And>w. w \<in> set ws \<Longrightarrow> record_of_request H (la_app L) (qs ! fst w) (snd w)"
proof -
  let ?A = "la_app L" and ?calls = "tf_calls (arrivals H (la_app L) ir qs)" and ?pos = "callers H (la_app L) qs"
  obtain ns g cl where ns: "parse_args gateway_options argv = Inr ns" "main_app H P rf sl js fm (gateway_args ns) = Inr ?A"
    and run: "loop_run (ga_bridge ?A) ls (start_loop ?calls (tf_lists (arrivals H ?A ir qs)) (g, cl)) (ts, sh)"
    and g: "gw_audit g = make_logger (ns_str ns ''audit_redaction_mode'')" "known_mode (ns_str ns ''audit_redaction_mode'')"
    by (rule traffic_run [OF assms(1,2)])
  have valid: "\<forall>c\<in>set ?calls. arguments_valid (snd c)"
    using assms(4) call_position [of _ H ?A ir qs] call_from_principal by (fastforce simp: in_set_conv_nth)
  obtain ws where ws: "map json_loads (py_splitlines (universal_newlines (al_file (gw_audit (sh_gateway sh))))) =
      map (\<lambda>w. Inr (audit_entry (ns_str ns ''audit_redaction_mode'') (snd w))) ws"
    "distinct (map fst ws)" "\<And>j. j \<in> fst ` set ws \<longleftrightarrow> j < length ts \<and> recorded (ts ! j)"
    "\<And>w. w \<in> set ws \<Longrightarrow> fst w < length ?calls \<and> record_of (ts ! fst w) (snd w)"
    using trail_reads_back [OF run assms(3) g valid] by blast
  note task = finished_call [OF run assms(5,6)]
  have mine: "j \<in> fst ` set ws \<longleftrightarrow> j < length ?calls \<and> served_call H ?A (qs ! (?pos ! j))" for j
  proof (cases "j < length ?calls")
    case True
    then show ?thesis using ws(3) [of j] task(1,3) [OF True] served_iff [OF True] by simp
  qed (use ws(4) in auto)
  let ?ws = "map (\<lambda>w. (?pos ! fst w, snd w)) ws"
  have "fst ` set ?ws = (!) ?pos ` {j. j < length ?calls \<and> served_call H ?A (qs ! (?pos ! j))}"
    by (simp add: image_image flip: mine)
  also have "\<dots> = {i. i < length qs \<and> served_call H ?A (qs ! i)}"
    using call_position(2) [of _ H ?A ir qs] served_position [of _ qs H ?A] by (fastforce simp: arrivals_callers(1))
  finally have dom: "fst ` set ?ws = {i. i < length qs \<and> served_call H ?A (qs ! i)}" .
  have dist: "distinct (map fst ?ws)"
    using distinct_positions [OF ws(2)] ws(4) by (force simp: o_def)
  have "record_of_request H ?A (qs ! (?pos ! j)) rec" if w: "(j, rec) \<in> set ws" for j rec
  proof -
    have j: "j < length ?calls" "describes (tk_env (ts ! j)) (task_ctx (ts ! j)) rec" "recorded (ts ! j)"
      using ws(3) [of j] ws(4) [OF w] w by (force simp: record_of_def)+
    show ?thesis using call_described [OF ns(2) j(1) task(2) [OF j(1), symmetric] j(2)] j(3) by (simp add: recorded_def)
  qed
  then have "\<And>w. w \<in> set ?ws \<Longrightarrow> record_of_request H ?A (qs ! fst w) (snd w)" by auto
  with that [OF ns(1) g(2) _ dist dom] ws(1) show thesis by (simp add: o_def)
qed


text \<open>The correlation ID of a parsed line.\<close>

definition entry_id :: "pyval res \<Rightarrow> string option" where
  "entry_id e =
     (case e of
        Inl _ \<Rightarrow> None
      | Inr v \<Rightarrow> (case record_get v ''correlation_id'' of Inr (PStr s) \<Rightarrow> Some s | _ \<Rightarrow> None))"

lemma entry_id_audit: "known_mode mode \<Longrightarrow> entry_id (Inr (audit_entry mode r)) = Some (ar_correlation_id r)"
  using represent_arguments_known [of mode "ar_arguments r"]
  by (auto simp: entry_id_def audit_entry_def record_payload_def record_get_def dict_get_or_def)

lemma one_with_key:
  assumes "distinct (map f xs)" "x \<in> set xs" "\<And>y. y \<in> set xs \<Longrightarrow> P y \<longleftrightarrow> f y = f x"
  shows "length (filter P xs) = 1"
  using assms
proof (induction xs)
  case (Cons z zs)
  show ?case
  proof (cases "z = x")
    case True
    then have "filter P zs = []" using Cons.prems(1,3) by (fastforce simp: filter_empty_conv image_iff)
    then show ?thesis using True Cons.prems(3) [of x] by simp
  next
    case False
    then have "f z \<noteq> f x" using Cons.prems(1,2) by (auto simp: image_iff)
    then show ?thesis using False Cons.prems Cons.IH by simp
  qed
qed simp


subsection \<open>Concrete traffic\<close>

text \<open>
  The two calls and the \<open>tools/list\<close> of LoopProperties as HTTP requests, and one more call with a key
  that nobody has.
\<close>

definition bearer_scope :: "string \<Rightarrow> scope" where
  "bearer_scope key = \<lparr>sc_type = ''http'', sc_headers = [(''Authorization'', ''Bearer '' @ key)]\<rparr>"

definition demo_request :: "string \<Rightarrow> string \<Rightarrow> call_params option \<Rightarrow> agent_request" where
  "demo_request key c params = \<lparr>hr_scope = bearer_scope key, hr_env = demo_task_env c, hr_params = params\<rparr>"

definition demo_requests :: "agent_request list" where
  "demo_requests =
     [demo_request ''k1'' ''c1'' (Some demo_params), demo_request ''k2'' ''c0'' (Some demo_params),
      demo_request ''k1'' ''c3'' None, demo_request ''k1'' ''c2'' (Some demo_params)]"

lemma demo_auth:
  "resolve (he_sha256 demo_host) (ga_resolver (la_app demo_launch)) (authorization_values (bearer_scope ''k1'')) = Some ''analyst''"
  "resolve (he_sha256 demo_host) (ga_resolver (la_app demo_launch)) (authorization_values (bearer_scope ''k2'')) = None"
  "sc_type (bearer_scope key) = ''http''"
  by code_simp+

lemma demo_env_principal: "(demo_task_env c)\<lparr>ce_principal := Some ''analyst''\<rparr> = demo_task_env c"
  by (simp add: demo_task_env_def demo_call_env_def)

lemma demo_traffic:
  "serve_traffic demo_host demo_launch (- 32600) demo_requests = demo_start"
  "map rs_status (tf_refused (arrivals demo_host (la_app demo_launch) (- 32600) demo_requests)) = [401]"
proof -
  have "arrivals demo_host (la_app demo_launch) (- 32600) demo_requests =
      \<lparr>tf_calls = demo_calls, tf_lists = [demo_task_env ''c3''], tf_refused = [unauthenticated_response (- 32600)]\<rparr>"
    by (simp add: arrivals_def arrive_def demo_requests_def demo_request_def no_traffic_def middleware_call_def
        demo_auth demo_env_principal start_handler_def refuse_def demo_calls_def Let_def)
  then show "serve_traffic demo_host demo_launch (- 32600) demo_requests = demo_start"
    and "map rs_status (tf_refused (arrivals demo_host (la_app demo_launch) (- 32600) demo_requests)) = [401]"
    by (simp_all add: serve_traffic_def demo_start_def demo_launch_def demo_app_def unauthenticated_response_def)
qed

lemma demo_traffic_run:
  "loop_run (ga_bridge (la_app demo_launch)) demo_signals
    (serve_traffic demo_host demo_launch (- 32600) demo_requests) (fst demo_end, snd demo_end)"
proof -
  have "ga_bridge (la_app demo_launch) = demo_bridge" by (simp add: demo_launch_def demo_app_def)
  then show ?thesis using demo_run by (simp add: demo_traffic demo_start_def)
qed

theorem traffic_is_mediated_witness:
  "\<exists>is. distinct is \<and> set is \<subseteq> {..<4} \<and> is \<noteq> [] \<and>
    gw_forwarded (sh_gateway (snd demo_end)) = map (\<lambda>i. upstream_request (demo_requests ! i)) is"
proof -
  obtain js where "distinct js" "set js \<subseteq> {..<length demo_requests}"
    "gw_forwarded (sh_gateway (snd demo_end)) = map (\<lambda>i. upstream_request (demo_requests ! i)) js"
    using traffic_is_mediated [OF demo_command_starts demo_traffic_run] by blast
  moreover have "length demo_requests = 4" by (simp add: demo_requests_def)
  moreover have "js \<noteq> []" using calculation(3) demo_facts(7) by auto
  ultimately show ?thesis by fastforce
qed


text \<open>Two requests, with the correlation IDs of two concrete draws.\<close>

definition pair_requests :: "agent_request list" where
  "pair_requests = [demo_request ''k1'' (new_correlation_id 0) (Some demo_params), demo_request ''k1'' (new_correlation_id 1) (Some demo_params)]"

definition pair_start :: loop_state where
  "pair_start =
     start_loop [(demo_task_env (new_correlation_id 0), demo_params), (demo_task_env (new_correlation_id 1), demo_params)] []
       (demo_gateway, demo_limiter)"

definition pair_signals :: "(nat \<times> signal) list" where
  "pair_signals =
     [(0, Begin), (1, Begin), (0, TakeLock),
      (0, ToolsArrive (Inr [\<lparr>tl_name = ''echo'', tl_input_schema = None, tl_rest = []\<rparr>])),
      (1, TakeLock), (1, ReplyArrives (Inr (error_result ''hi''))), (0, ReplyArrives (Inr (error_result ''hi''))),
      (1, TakeLock), (1, WriteEnds Written), (0, TakeLock), (0, WriteEnds Written)]"

definition pair_end :: loop_state where
  "pair_end = (case loop_exec demo_bridge pair_signals pair_start of None \<Rightarrow> pair_start | Some s \<Rightarrow> s)"

lemma pair_facts:
  "loop_exec demo_bridge pair_signals pair_start = Some pair_end" "list_all answered (fst pair_end)"
proof -
  have "case loop_exec demo_bridge pair_signals pair_start of None \<Rightarrow> False | Some s \<Rightarrow> list_all answered (fst s)"
    unfolding pair_start_def new_correlation_id_example by code_simp
  then show "loop_exec demo_bridge pair_signals pair_start = Some pair_end" "list_all answered (fst pair_end)"
    by (auto simp: pair_end_def split: option.splits)
qed

lemma pair_traffic: "serve_traffic demo_host demo_launch (- 32600) pair_requests = pair_start"
proof -
  have "arrivals demo_host (la_app demo_launch) (- 32600) pair_requests =
      \<lparr>tf_calls = [(demo_task_env (new_correlation_id 0), demo_params), (demo_task_env (new_correlation_id 1), demo_params)],
       tf_lists = [], tf_refused = []\<rparr>"
    by (simp add: arrivals_def arrive_def pair_requests_def demo_request_def no_traffic_def middleware_call_def
        demo_auth demo_env_principal start_handler_def Let_def)
  then show ?thesis by (simp add: serve_traffic_def pair_start_def demo_launch_def demo_app_def)
qed


end
