(* ===== verification/Spec2Isabelle.thy ===== *)
theory Spec2Isabelle
  imports BridgeSolo BenchmarkReport GatewayLoop
begin

text \<open>
  SentinelMCP is a gateway in front of one MCP server. Agents speak MCP over HTTP to the gateway with
  a bearer key; the gateway resolves the key to a principal, decides every \<open>tools/list\<close> and
  \<open>tools/call\<close> by a YAML policy, limits rates and concurrency, forwards what is permitted to the
  upstream server and writes one audit line per attempted call. This development models the Python
  package src/sentinelmcp, the examples and the benchmark, in dependency order.

  The parts, and the theory that models each:

    \<^item> SM_Prelude: results (\<open>'a res\<close>, an exception or a value), exceptions by class, dictionaries as
      association lists in insertion order with the locale \<open>dictionary\<close>, generic lemmas.
    \<^item> PyFloat: binary64 as Python uses it (finite reals on the grid, NaN, the infinities), rounding to
      nearest, ties to even, the locales \<open>rounding\<close> and \<open>bounded_rounding\<close>.
    \<^item> PyValue: the JSON-like values that arguments, schemas and policies are, Python's \<open>==\<close>, lengths,
      the code points of text and UTF-8.
    \<^item> PolicyModels (policy/models.py): the pydantic models, their validation and \<open>load_policy\<close>.
    \<^item> PolicyEngine (policy/engine.py): resolution of a tool policy, schema validation, strict equality
      and the evaluation of argument constraints, with the specification \<open>satisfies\<close>.
    \<^item> Identity (gateway/identity.py): \<open>IdentityResolver\<close>, the bearer middleware, the context variable;
      locale \<open>authenticator\<close>.
    \<^item> GatewayLimits (gateway/limits.py): token buckets, the rate limiter, the concurrency ceiling;
      locale \<open>slot_pool\<close>.
    \<^item> AuditLog (telemetry/audit.py): redaction, the record, its JSON line, the log file; locale
      \<open>line_log\<close>.
    \<^item> Bridge (gateway/bridge.py): the tool cache, \<open>handle_list_tools\<close> and \<open>handle_call_tool\<close>, stage
      by stage over the state \<open>call_state\<close> (the bridge's shared state and the locals of the call).
      BridgeEffects, BridgeAudit and BridgeVerdict hold its lemmas: what each stage does to the slots
      and to the upstream, to the audit log, and the specification \<open>judge\<close> that the pipeline refines.
      Their locales \<open>step_relation\<close>, \<open>emission_relation\<close> and \<open>pipeline_relation\<close> lift a relation that
      single steps keep to the whole handler.
    \<^item> BridgeTasks: the same handlers as tasks of an event loop. \<open>task_step\<close> runs a task from one
      suspension to the next (the waits for the cache lock and the log lock, the fetch, the upstream call,
      the write), \<open>loop_step\<close> picks any task, \<open>loop_run\<close> is a run of any number of calls and
      \<open>tools/list\<close> requests in any order with cancellations anywhere. BridgeLoop
      holds the invariants (locales \<open>segment_law\<close> and \<open>accounted\<close>:
      a resource whose holders are counted over the tasks), LoopProperties the theorems on runs,
      LoopRate that the rate limit bounds the calls that reach the upstream, LoopBudget that calls within
      the limits are not throttled, LoopTrail that the audit file of a run reads back as the records of
      its calls, and BridgeSolo that one task alone does what the functions of Bridge do.
    \<^item> Gateway (gateway/server.py): startup, the HTTP application and runs of the gateway.
    \<^item> FloatText, JsonReader: the text of a float reads back as that float; \<open>json.loads\<close>, which the
      readers of the audit log use, as a parser, and its round trip with the log's \<open>json.dumps\<close>.
    \<^item> CommandLine (gateway/server.py, \<open>main\<close>): \<open>argparse\<close> as far as the program uses it, the gateway's
      options and \<open>main\<close> from the words of the command line to what \<open>uvicorn.run\<close> gets.
    \<^item> CorrelationId (telemetry/audit.py, \<open>new_correlation_id\<close>): the bits of \<open>uuid.uuid4()\<close> and its
      hexadecimal text.
    \<^item> GatewayLoop: the whole gateway under concurrent HTTP traffic, from the words of the command line
      and the headers of the requests to the upstream calls and the text of the audit file.
    \<^item> UpstreamDemo (examples/upstream_server.py): the demo upstream, its tools and its concurrency
      tracker.
    \<^item> DemoScript (examples/demo.py, examples/direct_client.py, compose.yaml,
      sentinelmcp/policy/policies/example.yaml): the demo clients and their command lines as scripts over
      a session, the bundled policy, and the deployment in which the gateway that compose.yaml starts
      stands before the demo upstream.
    \<^item> BenchmarkStats, AuditReport (benchmarks/run.py): percentiles, medians, trials and overhead; the
      audit log as its reader sees it.
    \<^item> BenchmarkRun (benchmarks/run.py): the benchmark's policy, gateway and servers, the configuration
      matrix, and the gateway under measurement as a sequence of event loop runs.
    \<^item> TextLayout, BenchmarkReport (benchmarks/run.py, \<open>run_benchmarks\<close> to \<open>main\<close>): indented JSON and the
      format specifications of f-strings; the report, the tables that are printed, the file.

  How the state corresponds. Objects that the Python code shares by reference are fields of one
  state: \<open>bridge\<close> holds the cache, the rate limiter, the concurrency limiter, the log file and a
  history of the upstream calls that the code does not keep. A handler is a function from that state
  and an environment (what the clock shows, what the upstream answers or raises, whether the write of
  a line succeeds, when a cancellation arrives) to a new state and a \<open>res\<close>. Every raise, early return
  and cancellation is a branch. Time is a float that the environment supplies; nothing is assumed of
  it except where a theorem says so.

  What the lemmas show. The loader and the resolver fail closed; authentication is exact; the
  evaluation of constraints decides its specification and does not coerce types; the token bucket
  bounds the number of grants in any window, with the error of binary64 accounted for, and grants a
  full burst whatever the clock shows; slots never leak; a call reaches the upstream exactly if it is
  permitted, and leaves exactly one audit line when writes succeed; redaction is complete and log lines do not depend on sensitive values; a started
  gateway keeps all this over any run of requests, and the shipped demo, run against the deployment,
  sees the outcome that each of its lines announces. A command line means what it says, and every line of
  the audit log reads back as the record that was written. Under any interleaving of concurrent calls the
  upstream never sees more calls in flight than the ceiling, the tool list is fetched once and all answers
  and calls are based on it, every
  forwarded call was permitted, finished calls have their record and gave back slot and locks, and
  every run is finite: a call takes at most eight steps; the calls of a principal that reach the upstream
  keep to the rate limit of its bucket; and as long as the calls keep within the limits no
  limit rejects one, whatever the order and the clock, which is why the benchmark measures what it means
  to; the file that the benchmark writes reads back as its report. Put together for a gateway that its command line has started: whatever requests arrive and however
  they interleave, what reaches the upstream comes from requests with the key of a principal that may make
  the call, and the parsed audit file holds one entry for each authenticated call, found by its
  correlation ID. Some theorems show what the code does where its
  documentation says otherwise; they are named where they stand.

  Parameters. Code outside src/ is an argument of the definitions: PyYAML, \<open>re.compile\<close> and
  \<open>re.fullmatch\<close>, pydantic's conversion of scalars, \<open>jsonschema.validate\<close>, SHA-256, the MCP SDK's
  sessions and dispatch, on the client's side and on the demo upstream's, uvicorn and the probes of the
  benchmark. The loops of the code are over finite lists and are structural recursion. Only the JSON
  parser of JsonReader has fuel, twice the length of the text; \<open>json_loads_total\<close> proves that it never
  runs out. The bounds in the rate theorems (capacity, rate and times below a power of
  two) are those for which binary64 keeps full relative precision; any real configuration meets them.

  What the event loop assumes. Tasks switch only where the code awaits something that suspends; what
  lies between is one step. Taking a lock that is free is a step of its own, so the runs of the model
  include those of asyncio, where it does not suspend, and every theorem on runs covers them. A write
  that a thread has begun when its task is cancelled counts as done at the cancellation.

  Not modelled: code points above Latin-1 in text; the sign of zero; uvicorn, the texts that \<open>argparse\<close>
  prints, what a benchmark run that fails had printed before; the build (Dockerfile, pyproject.toml).
\<close>

end
